(* ===== verification/Kernel_Prelude.thy ===== *)
theory Kernel_Prelude
  imports Main "HOL-Library.Word" "HOL-Library.Monad_Syntax"
begin

text \<open>
  The vocabulary of the development: the C integer types of \<open>include/sys/defs.h\<close> as
  words, the byte-addressed store in which the kernel's raw pointers live, the little-endian
  accesses through such pointers, and the generic facts on words, regions and lists that the
  component theories share.

  A pointer is a 64-bit word and the store maps every address to the byte at it. Address
  arithmetic wraps at the width of the machine, so the offset of an address inside a region
  is \<open>unat (a - p)\<close>, and two regions are told apart by such offsets.
\<close>

unbundle bit_operations_syntax

named_theorems store_simps \<open>reads over writes of the byte store\<close>
named_theorems region_simps \<open>offsets inside regions of the store\<close>

type_synonym u8 = "8 word"
type_synonym u16 = "16 word"
type_synonym u32 = "32 word"
type_synonym u64 = "64 word"

type_synonym memory = "u64 \<Rightarrow> u8"

section \<open>Characters and string literals\<close>

text \<open>A C string literal of the source, as the bytes of its characters.\<close>

definition bytes :: "string \<Rightarrow> u8 list" where
  "bytes s = map of_char s"

lemma length_bytes [simp]: "length (bytes s) = length s"
  by (simp add: bytes_def)

lemma bytes_simps [simp]:
  "bytes [] = []"
  "bytes (c # s) = of_char c # bytes s"
  by (simp_all add: bytes_def)

section \<open>Words\<close>

lemma unat_bound64: "unat (a :: u64) < 2 ^ 64"
  using unsigned_less [of a, where ?'a = nat] by simp

lemma unat_of_nat64 [region_simps]: "n < 2 ^ 64 \<Longrightarrow> unat (of_nat n :: u64) = n"
  by (simp add: unat_of_nat)

lemma of_nat64_eq:
  assumes "i < 2 ^ 64" and "j < 2 ^ 64"
  shows "(of_nat i :: u64) = of_nat j \<longleftrightarrow> i = j"
proof
  assume "(of_nat i :: u64) = of_nat j"
  then have "unat (of_nat i :: u64) = unat (of_nat j :: u64)" by (rule arg_cong)
  then show "i = j" unfolding unat_of_nat64 [OF assms(1)] unat_of_nat64 [OF assms(2)] .
qed simp

lemma unat_of_nat_offset [region_simps]:
  "k < 2 ^ 64 \<Longrightarrow> unat ((p :: u64) + of_nat k - p) = k"
  by (simp add: unat_of_nat64)

lemma ptr_Suc: "(p :: u64) + of_nat (Suc i) = (p + 1) + of_nat i"
  by simp

lemma unat_add_of_nat [region_simps]:
  assumes "unat (p :: u64) + k < 2 ^ 64"
  shows "unat (p + of_nat k) = unat p + k"
proof -
  have "unat (of_nat k :: u64) = k" using assms by (simp add: unat_of_nat)
  then show ?thesis using assms by (simp add: unat_word_ariths)
qed

lemma unat_diff_neg:
  assumes "(a :: u64) \<noteq> b"
  shows "unat (a - b) + unat (b - a) = 2 ^ 64"
proof -
  have "unat a \<noteq> unat b" using assms by (simp add: word_unat_eq_iff)
  then show ?thesis
    using unat_bound64 [of a] unat_bound64 [of b] by (simp add: unat_sub_if')
qed

lemma unat_minus_one64: "unat (p - (p + 1) :: u64) = 2 ^ 64 - 1"
  by (simp add: unsigned_minus_1_eq_mask mask_eq_exp_minus_1)

lemma unat_diff_Suc:
  assumes "(a :: u64) \<noteq> p"
  shows "unat (a - p) = Suc (unat (a - (p + 1)))"
proof -
  have nz: "1 + (a - (p + 1)) \<noteq> 0" using assms by simp
  have "a - p = 1 + (a - (p + 1))" by simp
  then show ?thesis using unatSuc [OF nz] by simp
qed

section \<open>Byte blocks in the store\<close>

text \<open>Writing a block of bytes at an address, one byte after the other.\<close>

fun put_bytes :: "memory \<Rightarrow> u64 \<Rightarrow> u8 list \<Rightarrow> memory" where
  "put_bytes m p [] = m"
| "put_bytes m p (b # bs) = put_bytes (m(p := b)) (p + 1) bs"

definition get_bytes :: "memory \<Rightarrow> u64 \<Rightarrow> nat \<Rightarrow> u8 list" where
  "get_bytes m p n = map (\<lambda>i. m (p + of_nat i)) [0..<n]"

lemma length_get_bytes [simp]: "length (get_bytes m p n) = n"
  by (simp add: get_bytes_def)

lemma nth_get_bytes [simp]: "i < n \<Longrightarrow> get_bytes m p n ! i = m (p + of_nat i)"
  by (simp add: get_bytes_def)

lemma put_bytes_apply:
  "length bs \<le> 2 ^ 64 \<Longrightarrow>
   put_bytes m p bs a = (if unat (a - p) < length bs then bs ! unat (a - p) else m a)"
proof (induction bs arbitrary: m p)
  case Nil
  then show ?case by simp
next
  case (Cons b bs)
  have IH: "put_bytes (m(p := b)) (p + 1) bs a =
      (if unat (a - (p + 1)) < length bs then bs ! unat (a - (p + 1)) else (m(p := b)) a)"
    using Cons by simp
  show ?case
  proof (cases "a = p")
    case True
    have "unat (a - (p + 1)) = 2 ^ 64 - 1" using True by (simp only: unat_minus_one64)
    then have "\<not> unat (a - (p + 1)) < length bs" using Cons.prems by simp
    with IH have "put_bytes (m(p := b)) (p + 1) bs a = b" using True by (simp only: if_False fun_upd_same)
    then show ?thesis using True by simp
  next
    case False
    then have "unat (a - p) = Suc (unat (a - (p + 1)))" by (rule unat_diff_Suc)
    then show ?thesis using IH False by simp
  qed
qed

lemma put_bytes_outside [store_simps]:
  "length bs \<le> 2 ^ 64 \<Longrightarrow> length bs \<le> unat (a - p) \<Longrightarrow> put_bytes m p bs a = m a"
  by (simp add: put_bytes_apply)

lemma put_bytes_inside [store_simps]:
  "length bs \<le> 2 ^ 64 \<Longrightarrow> i < length bs \<Longrightarrow> put_bytes m p bs (p + of_nat i) = bs ! i"
  by (simp add: put_bytes_apply unat_of_nat64)

lemma get_put_bytes [store_simps]:
  "length bs \<le> 2 ^ 64 \<Longrightarrow> get_bytes (put_bytes m p bs) p (length bs) = bs"
  by (rule nth_equalityI) (simp_all add: put_bytes_inside)

lemma put_bytes_append:
  "put_bytes m p (xs @ ys) = put_bytes (put_bytes m p xs) (p + of_nat (length xs)) ys"
  by (induction xs arbitrary: m p) (simp_all add: algebra_simps)

section \<open>Counters of type int\<close>

lemma scast_nonneg:
  assumes "unat (c :: u32) < 2 ^ 31"
  shows "(scast c :: u64) = of_nat (unat c)"
proof -
  have u: "uint c = int (unat c)" by simp
  have "int (unat c) < int (2 ^ 31)" using assms by (simp only: of_nat_less_iff)
  then have less: "int (unat c) < 2 ^ 31" by (simp only: of_nat_power of_nat_numeral)
  have "sint c = signed_take_bit 31 (uint c)" by (simp add: sint_uint)
  also have "\<dots> = int (unat c)"
    unfolding u by (rule signed_take_bit_int_eq_self [OF _ less]) (rule order_trans [of _ 0], simp_all)
  finally have sint: "sint c = int (unat c)" .
  have "(scast c :: u64) = of_int (sint c)" by (rule of_int_sint [symmetric])
  then show ?thesis unfolding sint by (simp only: of_int_of_nat_eq)
qed

lemma scast_of_nat32: "n < 2 ^ 31 \<Longrightarrow> (scast (of_nat n :: u32) :: u64) = of_nat n"
  using scast_nonneg [of "of_nat n"] by (simp add: unsigned_of_nat take_bit_nat_eq_self)

lemma of_nat32_eq:
  assumes "a < 2 ^ 32" and "b < 2 ^ 32"
  shows "(of_nat a :: u32) = of_nat b \<longleftrightarrow> a = b"
proof -
  have "unat (of_nat a :: u32) = a" "unat (of_nat b :: u32) = b"
    using assms by (simp_all add: unsigned_of_nat take_bit_nat_eq_self)
  then show ?thesis by metis
qed

end
