(* ===== verification/Byte_Store.thy ===== *)
theory Byte_Store
  imports Kernel_Prelude
begin

text \<open>
  Typed accesses to the byte store: what a C dereference of a \<open>uint16_t *\<close>, \<open>uint32_t *\<close>
  or \<open>uint64_t *\<close> reads and writes on the little-endian machine, the condition under which
  two regions do not overlap, and the interface \<open>word_store\<close> that the page-table code relies
  on: aligned 64-bit cells behave as independent variables.
\<close>

section \<open>Little-endian words\<close>

definition le_bytes :: "nat \<Rightarrow> 'a::len word \<Rightarrow> u8 list" where
  "le_bytes n v = map (\<lambda>i. ucast (drop_bit (8 * i) v)) [0..<n]"

definition join_bytes :: "u8 list \<Rightarrow> 'a::len word" where
  "join_bytes bs = foldr (\<lambda>b acc. ucast b OR push_bit 8 acc) bs 0"

lemma length_le_bytes [simp]: "length (le_bytes n v) = n"
  by (simp add: le_bytes_def)

lemma nth_le_bytes [simp]: "i < n \<Longrightarrow> le_bytes n v ! i = ucast (drop_bit (8 * i) v)"
  by (simp add: le_bytes_def)

lemma join_bytes_simps [simp]:
  "join_bytes [] = 0"
  "join_bytes (b # bs) = ucast b OR push_bit 8 (join_bytes bs)"
  by (simp_all add: join_bytes_def)

lemma bit_join_bytes:
  "bit (join_bytes bs :: 'a::len word) i \<longleftrightarrow>
     i < LENGTH('a) \<and> i div 8 < length bs \<and> bit (bs ! (i div 8)) (i mod 8)"
proof (induction bs arbitrary: i)
  case Nil
  then show ?case by simp
next
  case (Cons b bs)
  show ?case
  proof (cases "i < 8")
    case True
    then show ?thesis
      by (auto simp add: bit_simps dest: bit_imp_le_length)
  next
    case False
    then have i: "i div 8 = Suc ((i - 8) div 8)" "i mod 8 = (i - 8) mod 8"
      by (simp_all add: le_div_geq le_mod_geq)
    have "\<not> bit b i" using False by (auto dest: bit_imp_le_length)
    then show ?thesis
      using False by (auto simp add: bit_simps Cons.IH i)
  qed
qed

lemma join_le_bytes:
  assumes "LENGTH('a) = 8 * n"
  shows "join_bytes (le_bytes n v) = (v :: 'a::len word)"
proof (rule bit_word_eqI)
  fix i assume i: "i < LENGTH('a)"
  then have "i div 8 < n" using assms by simp
  moreover have "8 * (i div 8) + i mod 8 = i" by simp
  ultimately show "bit (join_bytes (le_bytes n v) :: 'a word) i \<longleftrightarrow> bit v i"
    using i by (simp add: bit_join_bytes bit_simps)
qed

lemma le_join_bytes:
  assumes "LENGTH('a) = 8 * length bs"
  shows "le_bytes (length bs) (join_bytes bs :: 'a::len word) = bs"
proof (rule nth_equalityI)
  show "length (le_bytes (length bs) (join_bytes bs :: 'a word)) = length bs" by simp
next
  fix i assume "i < length (le_bytes (length bs) (join_bytes bs :: 'a word))"
  then have i: "i < length bs" by simp
  show "le_bytes (length bs) (join_bytes bs :: 'a word) ! i = bs ! i"
  proof (rule bit_word_eqI)
    fix k assume "k < LENGTH(8)"
    then have k: "k < 8" by simp
    then have "(8 * i + k) div 8 = i" "(8 * i + k) mod 8 = k" "8 * i + k < LENGTH('a)"
      using i assms by auto
    then show "bit (le_bytes (length bs) (join_bytes bs :: 'a word) ! i) k \<longleftrightarrow> bit (bs ! i) k"
      using i k by (simp add: bit_join_bytes bit_simps)
  qed
qed

section \<open>Typed loads and stores\<close>

definition load16 :: "memory \<Rightarrow> u64 \<Rightarrow> u16" where
  "load16 m a = join_bytes (get_bytes m a 2)"

definition store16 :: "memory \<Rightarrow> u64 \<Rightarrow> u16 \<Rightarrow> memory" where
  "store16 m a v = put_bytes m a (le_bytes 2 v)"

definition load32 :: "memory \<Rightarrow> u64 \<Rightarrow> u32" where
  "load32 m a = join_bytes (get_bytes m a 4)"

definition store32 :: "memory \<Rightarrow> u64 \<Rightarrow> u32 \<Rightarrow> memory" where
  "store32 m a v = put_bytes m a (le_bytes 4 v)"

definition load64 :: "memory \<Rightarrow> u64 \<Rightarrow> u64" where
  "load64 m a = join_bytes (get_bytes m a 8)"

definition store64 :: "memory \<Rightarrow> u64 \<Rightarrow> u64 \<Rightarrow> memory" where
  "store64 m a v = put_bytes m a (le_bytes 8 v)"

lemma load_store_same [simp]:
  "load16 (store16 m a w) a = w"
  "load32 (store32 m a x) a = x"
  "load64 (store64 m a y) a = y"
  using get_put_bytes [of "le_bytes 2 w" m a] get_put_bytes [of "le_bytes 4 x" m a]
    get_put_bytes [of "le_bytes 8 y" m a]
  by (simp_all add: load16_def store16_def load32_def store32_def load64_def store64_def
      join_le_bytes)

section \<open>Disjoint regions\<close>

text \<open>The \<open>n\<close> bytes at \<open>a\<close> and the \<open>k\<close> bytes at \<open>b\<close> do not overlap.\<close>

definition disjoint_regions :: "u64 \<Rightarrow> nat \<Rightarrow> u64 \<Rightarrow> nat \<Rightarrow> bool" where
  "disjoint_regions a n b k \<longleftrightarrow> n \<le> unat (b - a) \<and> k \<le> unat (a - b)"

lemma disjoint_regions_sym: "disjoint_regions a n b k \<longleftrightarrow> disjoint_regions b k a n"
  by (auto simp add: disjoint_regions_def)

lemma disjoint_regions_mono:
  "disjoint_regions a n b k \<Longrightarrow> n' \<le> n \<Longrightarrow> k' \<le> k \<Longrightarrow> disjoint_regions a n' b k'"
  by (auto simp add: disjoint_regions_def)

lemma disjoint_offset:
  assumes "disjoint_regions a n b k" and "i < k"
  shows "n \<le> unat (b + of_nat i - a)"
proof (cases "a = b")
  case True
  then show ?thesis using assms by (simp add: disjoint_regions_def)
next
  case False
  then have sum: "unat (b - a) + unat (a - b) = 2 ^ 64" using unat_diff_neg [of b a] by simp
  have "unat (b - a) + i < 2 ^ 64"
    using assms sum by (simp add: disjoint_regions_def)
  then have "unat ((b - a) + of_nat i) = unat (b - a) + i" by (rule unat_add_of_nat)
  moreover have "b + of_nat i - a = (b - a) + of_nat i" by (simp add: algebra_simps)
  ultimately have "unat (b + of_nat i - a) = unat (b - a) + i" by (simp only:)
  then show ?thesis using assms by (simp add: disjoint_regions_def)
qed

lemma disjoint_within:
  assumes "a + n \<le> b" and "b + k \<le> a + 2 ^ 64" and "0 < n" and "0 < k"
  shows "disjoint_regions (p + of_nat a) n (p + of_nat b) k"
proof -
  have diff: "p + of_nat b - (p + of_nat a) = (of_nat (b - a) :: u64)" using assms(1) by simp
  have small: "unat (of_nat (b - a) :: u64) = b - a" using assms(2,4) by (intro unat_of_nat64) simp
  then have "p + of_nat b \<noteq> p + of_nat a" using assms(1,3) diff by auto
  then have "unat (p + of_nat b - (p + of_nat a)) + unat (p + of_nat a - (p + of_nat b)) = 2 ^ 64"
    using unat_diff_neg [of "p + of_nat b" "p + of_nat a"] by simp
  then show ?thesis using assms(1,2) unfolding disjoint_regions_def diff small by linarith
qed

lemma disjoint_sub:
  assumes "disjoint_regions a n p N" and "off + k \<le> N" and "0 < k"
  shows "disjoint_regions a n (p + of_nat off) k"
proof -
  have far: "n \<le> unat (p + of_nat off - a)" using assms by (intro disjoint_offset) auto
  have N: "N \<le> unat (a - p)" using assms(1) by (simp add: disjoint_regions_def)
  have off: "unat (of_nat off :: u64) = off"
    using N assms(2) unat_bound64 [of "a - p"] by (intro unat_of_nat64) linarith
  then have "of_nat off \<le> a - p" using N assms(2) by (simp add: word_le_nat_alt)
  then have "unat (a - p - of_nat off) = unat (a - p) - off" by (simp only: unat_sub off)
  then have "k \<le> unat (a - (p + of_nat off))" unfolding diff_diff_eq using N assms(2) by linarith
  then show ?thesis using far by (simp add: disjoint_regions_def)
qed

lemma disjoint_subs:
  assumes "disjoint_regions a N b K" and "i + n \<le> N" and "j + k \<le> K" and "0 < n" and "0 < k"
  shows "disjoint_regions (a + of_nat i) n (b + of_nat j) k"
proof -
  have "disjoint_regions (b + of_nat j) k a N"
    using disjoint_sub [OF assms(1,3,5)] by (simp add: disjoint_regions_sym)
  from disjoint_sub [OF this assms(2,4)] show ?thesis by (simp add: disjoint_regions_sym)
qed

lemma disjoint_not_in:
  assumes "disjoint_regions a n b k" and "unat (x - b) < k"
  shows "n \<le> unat (x - a)"
proof -
  have "x = b + of_nat (unat (x - b))" by simp
  then show ?thesis using disjoint_offset [OF assms] by simp
qed

lemma get_put_disjoint [store_simps]:
  assumes "disjoint_regions a (length bs) b k" and "length bs \<le> 2 ^ 64"
  shows "get_bytes (put_bytes m a bs) b k = get_bytes m b k"
  using assms by (auto intro!: nth_equalityI simp add: put_bytes_outside disjoint_offset)

lemma load64_bytes: "get_bytes m a 8 = get_bytes m' b 8 \<Longrightarrow> load64 m a = load64 m' b"
  by (simp add: load64_def)

lemma load64_store_disjoint [store_simps]:
  "disjoint_regions a 2 b 8 \<Longrightarrow> load64 (store16 m a w) b = load64 m b"
  "disjoint_regions a 4 b 8 \<Longrightarrow> load64 (store32 m a x) b = load64 m b"
  "disjoint_regions a 8 b 8 \<Longrightarrow> load64 (store64 m a y) b = load64 m b"
  by (simp_all add: load64_def store16_def store32_def store64_def get_put_disjoint)

lemma load32_store_disjoint [store_simps]:
  "disjoint_regions a 2 b 4 \<Longrightarrow> load32 (store16 m a w) b = load32 m b"
  "disjoint_regions a 4 b 4 \<Longrightarrow> load32 (store32 m a x) b = load32 m b"
  "disjoint_regions a 8 b 4 \<Longrightarrow> load32 (store64 m a y) b = load32 m b"
  by (simp_all add: load32_def store16_def store32_def store64_def get_put_disjoint)

text \<open>Reading back a part of a block that was copied as a whole.\<close>

lemma get_bytes_copied:
  assumes "i + k \<le> n" and "n \<le> 2 ^ 32"
  shows "get_bytes (put_bytes m dst (get_bytes m src n)) (dst + of_nat i) k = get_bytes m (src + of_nat i) k"
proof (rule nth_equalityI)
  fix j assume "j < length (get_bytes (put_bytes m dst (get_bytes m src n)) (dst + of_nat i) k)"
  then have j: "j < k" by simp
  have "put_bytes m dst (get_bytes m src n) (dst + of_nat (i + j)) = get_bytes m src n ! (i + j)"
    using assms j by (intro put_bytes_inside) simp_all
  then have "put_bytes m dst (get_bytes m src n) (dst + of_nat i + of_nat j) = m (src + of_nat i + of_nat j)"
    using assms j by (simp add: add.assoc)
  then show "get_bytes (put_bytes m dst (get_bytes m src n)) (dst + of_nat i) k ! j =
      get_bytes m (src + of_nat i) k ! j"
    using j by simp
qed simp

lemma load64_cong:
  "(\<And>i. i < 8 \<Longrightarrow> m (a + of_nat i) = m' (a + of_nat i)) \<Longrightarrow> load64 m a = load64 m' a"
  unfolding load64_def by (rule arg_cong [of _ _ join_bytes], rule nth_equalityI) simp_all

lemma load64_zero:
  assumes "\<And>i. i < 8 \<Longrightarrow> m (a + of_nat i) = 0"
  shows "load64 m a = 0"
proof -
  have "get_bytes m a 8 = replicate 8 0"
    using assms by (auto intro!: nth_equalityI)
  then show ?thesis by (simp add: load64_def numeral_eq_Suc)
qed

lemma store_outside [store_simps]:
  "2 \<le> unat (b - a) \<Longrightarrow> store16 m a w b = m b"
  "4 \<le> unat (b - a) \<Longrightarrow> store32 m a x b = m b"
  "8 \<le> unat (b - a) \<Longrightarrow> store64 m a y b = m b"
  by (simp_all add: store16_def store32_def store64_def put_bytes_outside)

section \<open>Aligned cells\<close>

definition aligned8 :: "u64 \<Rightarrow> bool" where
  "aligned8 a \<longleftrightarrow> unat a mod 8 = 0"

lemma unat_diff_mod:
  assumes "k dvd 2 ^ 64" and "unat (a :: u64) mod k = 0" and "unat b mod k = 0"
  shows "unat (a - b) mod k = 0"
proof -
  have "k dvd unat a" "k dvd unat b" using assms by auto
  then have "k dvd unat (a - b)"
    using assms(1) unat_bound64 [of b] by (auto simp add: unat_sub_if' intro: dvd_diff_nat)
  then show ?thesis by auto
qed

lemma aligned_disjoint:
  assumes "k dvd 2 ^ 64" and "unat (a :: u64) mod k = 0" and "unat b mod k = 0" and "a \<noteq> b"
  shows "disjoint_regions a k b k"
proof -
  have "unat (b - a) mod k = 0" "unat (a - b) mod k = 0"
    using assms by (auto intro: unat_diff_mod)
  moreover have "0 < unat (b - a)" "0 < unat (a - b)"
    using assms(4) by (simp_all add: unat_gt_0)
  ultimately show ?thesis
    by (auto simp add: disjoint_regions_def intro!: dvd_imp_le)
qed

lemma aligned8_disjoint: "aligned8 a \<Longrightarrow> aligned8 b \<Longrightarrow> a \<noteq> b \<Longrightarrow> disjoint_regions a 8 b 8"
  using aligned_disjoint [of 8 a b] by (simp add: aligned8_def)

text \<open>
  The interface of a store of aligned 64-bit cells. What a client may use is that a cell
  holds what was written last and that a write touches no other cell.
\<close>

locale word_store =
  fixes ld :: "'s \<Rightarrow> u64 \<Rightarrow> u64"
    and st :: "'s \<Rightarrow> u64 \<Rightarrow> u64 \<Rightarrow> 's"
  assumes ld_st_same: "ld (st s a v) a = v"
    and ld_st_other: "aligned8 a \<Longrightarrow> aligned8 b \<Longrightarrow> a \<noteq> b \<Longrightarrow> ld (st s a v) b = ld s b"
begin

lemma ld_st: "aligned8 a \<Longrightarrow> aligned8 b \<Longrightarrow> ld (st s a v) b = (if a = b then v else ld s b)"
  by (simp add: ld_st_same ld_st_other)

text \<open>
  Storing a value and then or-ing bits into the cell, as the page-table code does, leaves the
  cell with both.
\<close>

lemma ld_st_or: "ld (st (st s a v) a (ld (st s a v) a OR p)) a = v OR p"
  by (simp add: ld_st_same)

lemma ld_fold_st:
  "aligned8 b \<Longrightarrow> (\<And>i. i \<in> set is \<Longrightarrow> aligned8 (f i)) \<Longrightarrow> (\<And>i. i \<in> set is \<Longrightarrow> f i \<noteq> b) \<Longrightarrow>
   ld (fold (\<lambda>i s. st s (f i) (g i)) is s) b = ld s b"
  by (induction "is" arbitrary: s) (auto simp add: ld_st_other)

lemma ld_fold_st_in:
  assumes "\<And>i. i \<in> set is \<Longrightarrow> aligned8 (f i)" and "inj_on f (set is)" and "distinct is"
    and "j \<in> set is"
  shows "ld (fold (\<lambda>i s. st s (f i) (g i)) is s) (f j) = g j"
  using assms
proof (induction "is" arbitrary: s)
  case Nil
  then show ?case by simp
next
  case (Cons i "is")
  show ?case
  proof (cases "j = i")
    case True
    have "f k \<noteq> f j" if "k \<in> set is" for k
      using Cons.prems True that by (auto simp add: inj_on_def)
    then have "ld (fold (\<lambda>i s. st s (f i) (g i)) is (st s (f i) (g i))) (f j) =
        ld (st s (f i) (g i)) (f j)"
      using Cons.prems by (intro ld_fold_st) auto
    then show ?thesis using True by (simp add: ld_st_same)
  next
    case False
    then show ?thesis using Cons by simp
  qed
qed

end

interpretation cells: word_store load64 store64
  by unfold_locales (simp_all add: load64_store_disjoint aligned8_disjoint)

end
