(* ===== verification/Kern_Ops.thy ===== *)
theory Kern_Ops
  imports Byte_Store
begin

text \<open>
  The kernel's own memory and string routines: \<open>sys/memory.c\<close> and
  \<open>sys/lib_ops_for_kern.c\<close>. Every routine works on the byte store through the pointers
  it is given, in the order of the source's loops, so overlapping arguments behave as they do
  in the code. A loop that only stops at a NUL byte may run forever; it is a
  \<open>partial_function\<close> whose value is \<open>None\<close> where the code does not return.

  The predicate \<open>cstr m p s\<close> says that the NUL-terminated string at \<open>p\<close> is \<open>s\<close>. The
  lemmas say, for such strings, that every routine returns and what it computes.
\<close>

section \<open>sys/memory.c\<close>

fun memset_loop :: "memory \<Rightarrow> u64 \<Rightarrow> u8 \<Rightarrow> nat \<Rightarrow> memory" where
  "memset_loop m p c 0 = m"
| "memset_loop m p c (Suc n) = memset_loop (m(p := c)) (p + 1) c n"

text \<open>\<open>memset\<close> stores the low byte of \<open>c\<close>; a length that is not positive stores nothing.
  It returns its first argument, which no caller uses.\<close>

definition memset :: "memory \<Rightarrow> u64 \<Rightarrow> u32 \<Rightarrow> u32 \<Rightarrow> memory" where
  "memset m b c len = memset_loop m b (ucast c) (nat (sint len))"

section \<open>sys/lib_ops_for_kern.c: blocks\<close>

text \<open>The counters of \<open>kmemcpy\<close>, \<open>kmemmove\<close> and \<open>kstrlen\<close> are of type \<open>int\<close>: words of 32 bits that wrap as the
  processor's increment does and are extended with their sign where they are compared with \<open>n\<close> or added to a
  pointer. C leaves the overflow undefined; the properties keep the counters below it. The counter \<open>-1\<close> is extended
  to the largest word, which is below no \<open>n\<close>, so the loops end.\<close>

lemma int_counter_step:
  assumes "(scast (i :: u32) :: u64) < n"
  shows "unat (- 1 - (i + 1)) < unat (- 1 - i)"
proof -
  have "i \<noteq> - 1" using assms by auto
  then have "- 1 - i \<noteq> 0" by auto
  then have "unat (- 1 - i - 1) = unat (- 1 - i) - 1" "0 < unat (- 1 - i)" by (rule unat_minus_one, simp add: unat_gt_0)
  moreover have "- 1 - (i + 1) = - 1 - i - 1" by simp
  ultimately show ?thesis by (simp only:)
qed

function kmemcpy_loop :: "memory \<Rightarrow> u64 \<Rightarrow> u64 \<Rightarrow> u32 \<Rightarrow> u64 \<Rightarrow> memory" where
  "kmemcpy_loop m cdest csrc i n =
     (if scast i < n
      then kmemcpy_loop (m(cdest + scast i := m (csrc + scast i))) cdest csrc (i + 1) n else m)"
  by pat_completeness auto
termination
  by (relation "measure (\<lambda>(m, cdest, csrc, i, n). unat (- 1 - i))") (simp_all only: in_measure split int_counter_step wf_measure)

definition kmemcpy :: "memory \<Rightarrow> u64 \<Rightarrow> u64 \<Rightarrow> u64 \<Rightarrow> memory" where
  "kmemcpy m dest src n = kmemcpy_loop m dest src 0 n"

text \<open>\<open>kmemmove\<close> reads the whole source into a temporary array before it writes. The array is a function of the
  counter; its elements are written before they are read, so their first values do not matter.\<close>

function kmemmove_read :: "memory \<Rightarrow> u64 \<Rightarrow> u32 \<Rightarrow> u64 \<Rightarrow> (u32 \<Rightarrow> u8) \<Rightarrow> u32 \<Rightarrow> u8" where
  "kmemmove_read m csrc i n temp =
     (if scast i < n then kmemmove_read m csrc (i + 1) n (temp(i := m (csrc + scast i))) else temp)"
  by pat_completeness auto
termination
  by (relation "measure (\<lambda>(m, csrc, i, n, temp). unat (- 1 - i))") (simp_all only: in_measure split int_counter_step wf_measure)

function kmemmove_write :: "memory \<Rightarrow> u64 \<Rightarrow> u32 \<Rightarrow> u64 \<Rightarrow> (u32 \<Rightarrow> u8) \<Rightarrow> memory" where
  "kmemmove_write m cdest i n temp =
     (if scast i < n then kmemmove_write (m(cdest + scast i := temp i)) cdest (i + 1) n temp else m)"
  by pat_completeness auto
termination
  by (relation "measure (\<lambda>(m, cdest, i, n, temp). unat (- 1 - i))") (simp_all only: in_measure split int_counter_step wf_measure)

declare kmemcpy_loop.simps [simp del] kmemmove_read.simps [simp del] kmemmove_write.simps [simp del]

definition kmemmove :: "memory \<Rightarrow> u64 \<Rightarrow> u64 \<Rightarrow> u64 \<Rightarrow> memory" where
  "kmemmove m dest src n = kmemmove_write m dest 0 n (kmemmove_read m src 0 n (\<lambda>_. 0))"

section \<open>sys/lib_ops_for_kern.c: strings\<close>

partial_function (option) kstrcmp :: "memory \<Rightarrow> u64 \<Rightarrow> u64 \<Rightarrow> int option" where
  "kstrcmp m str1 str2 =
     (if m str1 = m str2
      then if m str1 = 0 then Some 0 else kstrcmp m (str1 + 1) (str2 + 1)
      else Some (uint (m str1) - uint (m str2)))"

text \<open>The counter \<open>i\<close> of the source's loop is never incremented, so its guard is \<open>0 < n\<close>.\<close>

partial_function (option) kstrncmp :: "memory \<Rightarrow> u64 \<Rightarrow> u64 \<Rightarrow> u64 \<Rightarrow> int option" where
  "kstrncmp m str1 str2 n =
     (if m str1 = m str2 \<and> 0 < n
      then if m str1 = 0 then Some 0 else kstrncmp m (str1 + 1) (str2 + 1) n
      else Some (uint (m str1) - uint (m str2)))"

partial_function (option) kstrlen_loop :: "memory \<Rightarrow> u64 \<Rightarrow> u32 \<Rightarrow> u64 option" where
  "kstrlen_loop m str i =
     (if m (str + scast i) \<noteq> 0 then kstrlen_loop m str (i + 1) else Some (scast (i + 1)))"

definition kstrlen :: "memory \<Rightarrow> u64 \<Rightarrow> u64 option" where
  "kstrlen m str = (if m str = 0 then Some 0 else kstrlen_loop m str 0)"

partial_function (option) kstrcpy :: "memory \<Rightarrow> u64 \<Rightarrow> u64 \<Rightarrow> memory option" where
  "kstrcpy m dst src =
     (if m src \<noteq> 0 then kstrcpy (m(dst := m src)) (dst + 1) (src + 1)
      else Some (m(dst := 0)))"

text \<open>The loop of \<open>kstrncpy\<close> tests the next source byte after it has copied one.\<close>

fun kstrncpy_loop :: "memory \<Rightarrow> u64 \<Rightarrow> u64 \<Rightarrow> nat \<Rightarrow> memory" where
  "kstrncpy_loop m dst src 0 = m(dst := 0)"
| "kstrncpy_loop m dst src (Suc k) =
     (let m' = m(dst := m src); dst' = dst + 1; src' = src + 1
      in if m' src' = 0 then m'(dst' := 0) else kstrncpy_loop m' dst' src' k)"

definition kstrncpy :: "memory \<Rightarrow> u64 \<Rightarrow> u64 \<Rightarrow> u64 \<Rightarrow> memory" where
  "kstrncpy m dst src n = kstrncpy_loop m dst src (unat n)"

text \<open>The loop of \<open>kstrcat\<close>, whose counter has 64 bits, with the steps left.\<close>

fun copy_loop :: "memory \<Rightarrow> u64 \<Rightarrow> u64 \<Rightarrow> nat \<Rightarrow> nat \<Rightarrow> memory" where
  "copy_loop m cdest csrc i 0 = m"
| "copy_loop m cdest csrc i (Suc k) =
     copy_loop (m(cdest + of_nat i := m (csrc + of_nat i))) cdest csrc (Suc i) k"

definition kstrcat :: "memory \<Rightarrow> u64 \<Rightarrow> u64 \<Rightarrow> memory option" where
  "kstrcat m str1 str2 =
     do {
       len1 \<leftarrow> kstrlen m str1;
       len2 \<leftarrow> kstrlen m str2;
       let m' = copy_loop m (str1 + len1) str2 0 (unat len2);
       Some (m'(str1 + len1 + len2 := 0))
     }"

text \<open>
  \<open>kstrtok\<close> keeps two pointers between calls: its static \<open>_buffer\<close>, where the next token
  starts, and the global \<open>check\<close>, the token returned last. The inner loop runs over the
  delimiters; its result says whether the function returned from inside it.
\<close>

record strtok_state =
  tok_buffer :: u64
  tok_check :: u64

partial_function (option) kstrtok_delim ::
  "memory \<Rightarrow> u64 \<Rightarrow> u64 \<Rightarrow> u64 \<Rightarrow> u64 \<Rightarrow> (memory \<times> u64 \<times> u64 \<times> bool) option" where
  "kstrtok_delim m b d ret buffer =
     (if m d = 0 then Some (m, ret, buffer, False)
      else if m b = m d
      then let m' = m(b := 0); buffer' = b + 1
           in if b = ret then kstrtok_delim m' b (d + 1) (ret + 1) buffer'
              else Some (m', ret, buffer', True)
      else kstrtok_delim m b (d + 1) ret buffer)"

partial_function (option) kstrtok_scan ::
  "memory \<Rightarrow> u64 \<Rightarrow> u64 \<Rightarrow> u64 \<Rightarrow> u64 \<Rightarrow> (memory \<times> u64 \<times> u64) option" where
  "kstrtok_scan m b delim ret buffer =
     (if m b = 0 then Some (m, ret, buffer)
      else Option.bind (kstrtok_delim m b delim ret buffer)
        (\<lambda>(m', ret', buffer', returned).
           if returned then Some (m', ret', buffer')
           else kstrtok_scan m' (b + 1) delim ret' buffer'))"

definition kstrtok ::
  "strtok_state \<Rightarrow> memory \<Rightarrow> u64 \<Rightarrow> u64 \<Rightarrow> (strtok_state \<times> memory \<times> u64) option" where
  "kstrtok st m str delim =
     (let buffer = (if str \<noteq> 0 then str else tok_buffer st); st' = st\<lparr>tok_buffer := buffer\<rparr>
      in if m buffer = 0 then Some (st', m, 0)
         else do {
           c \<leftarrow> kstrcmp m (tok_check st') buffer;
           if c = 0 then Some (st', m, 0)
           else do {
             (m', ret, buffer') \<leftarrow> kstrtok_scan m buffer delim buffer buffer;
             Some (\<lparr>tok_buffer = buffer', tok_check = ret\<rparr>, m', ret)
           }
         })"

section \<open>Blocks: what the loops compute\<close>

lemma memset_loop_put: "memset_loop m p c n = put_bytes m p (replicate n c)"
  by (induction n arbitrary: m p) simp_all

lemma nat_sint_bound: "nat (sint (len :: u32)) \<le> 2 ^ 31"
  using sint_lt [of len] by simp

lemma memset_apply:
  "memset m b c len a = (if unat (a - b) < nat (sint len) then ucast c else m a)"
proof -
  have "length (replicate (nat (sint len)) (ucast c :: u8)) \<le> 2 ^ 64"
    using nat_sint_bound [of len] by simp
  then show ?thesis by (simp add: memset_def memset_loop_put put_bytes_apply)
qed

lemma copy_loop_shift:
  "copy_loop m d s i k = copy_loop m (d + of_nat i) (s + of_nat i) 0 k"
proof (induction k arbitrary: m i d s)
  case 0
  then show ?case by simp
next
  case (Suc k)
  have "copy_loop m d s i (Suc k) =
      copy_loop (m(d + of_nat i := m (s + of_nat i))) d s (Suc i) k" by simp
  also have "\<dots> = copy_loop (m(d + of_nat i := m (s + of_nat i)))
      (d + of_nat (Suc i)) (s + of_nat (Suc i)) 0 k"
    by (rule Suc.IH)
  finally have left: "copy_loop m d s i (Suc k) = copy_loop (m(d + of_nat i := m (s + of_nat i)))
      (d + of_nat (Suc i)) (s + of_nat (Suc i)) 0 k" .
  let ?d = "d + of_nat i" and ?s = "s + of_nat i"
  have "copy_loop m ?d ?s 0 (Suc k) = copy_loop (m(?d := m ?s)) ?d ?s (Suc 0) k" by simp
  also have "\<dots> = copy_loop (m(?d := m ?s)) (?d + of_nat (Suc 0)) (?s + of_nat (Suc 0)) 0 k"
    by (rule Suc.IH)
  finally show ?case using left by (simp add: add.commute add.left_commute)
qed

lemma copy_loop_Suc:
  "copy_loop m d s 0 (Suc k) = copy_loop (m(d := m s)) (d + 1) (s + 1) 0 k"
  using copy_loop_shift [of "m(d := m s)" d s 1 k] by simp

text \<open>
  A forward copy is right whenever no byte is overwritten before it is read: the destination
  does not start inside the source.
\<close>

lemma copy_loop_put:
  "k \<le> unat (d - s) \<Longrightarrow> copy_loop m d s 0 k = put_bytes m d (get_bytes m s k)"
proof (induction k arbitrary: m d s)
  case 0
  then show ?case by (simp add: get_bytes_def)
next
  case (Suc k)
  have ds: "(d + 1) - (s + 1) = d - s" by simp
  have ne: "s + 1 + of_nat i \<noteq> d" if "i < k" for i
  proof
    assume "s + 1 + of_nat i = d"
    then have "d - s = of_nat (Suc i)" by (simp add: algebra_simps)
    then have "unat (d - s) \<le> Suc i" by (metis unat_of_nat mod_less_eq_dividend)
    then show False using Suc.prems that by simp
  qed
  have tail: "get_bytes (m(d := m s)) (s + 1) k = get_bytes m (s + 1) k"
    using ne by (auto intro!: nth_equalityI)
  have cons: "get_bytes m s (Suc k) = m s # get_bytes m (s + 1) k"
    by (rule nth_equalityI) (auto simp add: nth_Cons' algebra_simps of_nat_diff split: nat.splits)
  have "copy_loop m d s 0 (Suc k) = copy_loop (m(d := m s)) (d + 1) (s + 1) 0 k"
    by (rule copy_loop_Suc)
  also have "\<dots> = put_bytes (m(d := m s)) (d + 1) (get_bytes (m(d := m s)) (s + 1) k)"
    using Suc.prems ds by (intro Suc.IH) simp
  finally show ?case using tail cons by simp
qed

text \<open>The loops of \<open>kmemcpy\<close> and \<open>kmemmove\<close>, as long as the counter does not overflow.\<close>

lemma int_counter_less:
  assumes "i \<le> unat n" and "unat (n :: u64) < 2 ^ 31"
  shows "(scast (of_nat i :: u32) :: u64) < n \<longleftrightarrow> i < unat n"
proof -
  have "(scast (of_nat i :: u32) :: u64) = of_nat i" using assms by (intro scast_of_nat32) simp
  moreover have "unat (of_nat i :: u64) = i" using assms by (intro unat_of_nat64) simp
  ultimately show ?thesis by (simp add: word_less_nat_alt)
qed

lemma kmemcpy_loop_copy:
  assumes "i + k = unat n" and "unat n < 2 ^ 31"
  shows "kmemcpy_loop m d s (of_nat i) n = copy_loop m d s i k"
  using assms(1)
proof (induction k arbitrary: m i)
  case 0
  then show ?case using int_counter_less [of i n] assms(2) by (subst kmemcpy_loop.simps) simp
next
  case (Suc k)
  have less: "(scast (of_nat i :: u32) :: u64) < n" using int_counter_less [of i n] Suc.prems assms(2) by simp
  have i: "(scast (of_nat i :: u32) :: u64) = of_nat i" using Suc.prems assms(2) by (intro scast_of_nat32) simp
  have nxt: "(of_nat i :: u32) + 1 = of_nat (Suc i)" by simp
  have "kmemcpy_loop m d s (of_nat i) n = kmemcpy_loop (m(d + of_nat i := m (s + of_nat i))) d s (of_nat (Suc i)) n"
    by (subst kmemcpy_loop.simps) (simp only: less [unfolded i] if_True i nxt)
  also have "\<dots> = copy_loop (m(d + of_nat i := m (s + of_nat i))) d s (Suc i) k" using Suc.prems by (intro Suc.IH) simp
  finally show ?case by simp
qed

lemma kmemmove_read_temp:
  assumes "i + k = unat n" and "unat n < 2 ^ 31" and "j < unat n"
  shows "kmemmove_read m s (of_nat i) n temp (of_nat j) = (if i \<le> j then m (s + of_nat j) else temp (of_nat j))"
  using assms(1)
proof (induction k arbitrary: i temp)
  case 0
  then show ?case using int_counter_less [of i n] assms(2,3) by (subst kmemmove_read.simps) simp
next
  case (Suc k)
  let ?temp = "temp(of_nat i := m (s + of_nat i))"
  have less: "(scast (of_nat i :: u32) :: u64) < n" using int_counter_less [of i n] Suc.prems assms(2) by simp
  have i: "(scast (of_nat i :: u32) :: u64) = of_nat i" using Suc.prems assms(2) by (intro scast_of_nat32) simp
  have nxt: "(of_nat i :: u32) + 1 = of_nat (Suc i)" by simp
  have "kmemmove_read m s (of_nat i) n temp = kmemmove_read m s (of_nat (Suc i)) n ?temp"
    by (subst kmemmove_read.simps) (simp only: less [unfolded i] if_True i nxt)
  moreover have "kmemmove_read m s (of_nat (Suc i)) n ?temp (of_nat j) =
      (if Suc i \<le> j then m (s + of_nat j) else ?temp (of_nat j))"
    using Suc.prems by (intro Suc.IH) simp
  moreover have "(of_nat j :: u32) = of_nat i \<longleftrightarrow> j = i" using Suc.prems assms(2,3) by (intro of_nat32_eq) simp_all
  ultimately show ?case by (auto simp add: not_less_eq_eq)
qed

lemma kmemmove_write_put:
  assumes "i + k = unat n" and "unat n < 2 ^ 31"
  shows "kmemmove_write m d (of_nat i) n temp = put_bytes m (d + of_nat i) (map (\<lambda>j. temp (of_nat j)) [i..<unat n])"
  using assms(1)
proof (induction k arbitrary: m i)
  case 0
  then show ?case using int_counter_less [of i n] assms(2) by (subst kmemmove_write.simps) simp
next
  case (Suc k)
  have less: "(scast (of_nat i :: u32) :: u64) < n" using int_counter_less [of i n] Suc.prems assms(2) by simp
  have i: "(scast (of_nat i :: u32) :: u64) = of_nat i" using Suc.prems assms(2) by (intro scast_of_nat32) simp
  have nxt: "(of_nat i :: u32) + 1 = of_nat (Suc i)" by simp
  have step: "kmemmove_write m d (of_nat i) n temp = kmemmove_write (m(d + of_nat i := temp (of_nat i))) d (of_nat (Suc i)) n temp"
    by (subst kmemmove_write.simps) (simp only: less [unfolded i] if_True i nxt)
  have "[i..<unat n] = i # [Suc i..<unat n]" using Suc.prems by (intro upt_conv_Cons) simp
  then show ?case
    unfolding step using Suc.IH [of "Suc i"] Suc.prems by (simp add: add.assoc add.commute [of 1])
qed

lemma kmemmove_put:
  assumes "unat n < 2 ^ 31"
  shows "kmemmove m d s n = put_bytes m d (get_bytes m s (unat n))"
proof -
  have "kmemmove_read m s 0 n (\<lambda>_. 0) (of_nat j) = m (s + of_nat j)" if "j < unat n" for j
    using kmemmove_read_temp [of 0 "unat n" n j] that assms by simp
  then have "map (\<lambda>j. kmemmove_read m s 0 n (\<lambda>_. 0) (of_nat j)) [0..<unat n] = get_bytes m s (unat n)"
    by (simp add: get_bytes_def)
  then show ?thesis using kmemmove_write_put [of 0 "unat n" n] assms by (simp add: kmemmove_def)
qed

lemma kmemcpy_put:
  assumes "unat n < 2 ^ 31" and "unat n \<le> unat (d - s)"
  shows "kmemcpy m d s n = put_bytes m d (get_bytes m s (unat n))"
  using kmemcpy_loop_copy [of 0 "unat n" n] copy_loop_put assms by (simp add: kmemcpy_def)

section \<open>Strings in the store\<close>

fun cstr :: "memory \<Rightarrow> u64 \<Rightarrow> u8 list \<Rightarrow> bool" where
  "cstr m p [] \<longleftrightarrow> m p = 0"
| "cstr m p (c # cs) \<longleftrightarrow> c \<noteq> 0 \<and> m p = c \<and> cstr m (p + 1) cs"

lemma cstr_nth: "cstr m p s \<Longrightarrow> i < length s \<Longrightarrow> m (p + of_nat i) = s ! i"
proof (induction s arbitrary: p i)
  case Nil
  then show ?case by simp
next
  case (Cons c cs)
  show ?case
  proof (cases i)
    case 0
    then show ?thesis using Cons.prems by simp
  next
    case (Suc j)
    then have "m (p + 1 + of_nat j) = cs ! j" using Cons by simp
    then show ?thesis by (simp only: Suc ptr_Suc nth_Cons_Suc)
  qed
qed

lemma cstr_end: "cstr m p s \<Longrightarrow> m (p + of_nat (length s)) = 0"
proof (induction s arbitrary: p)
  case Nil
  then show ?case by simp
next
  case (Cons c cs)
  then have "m (p + 1 + of_nat (length cs)) = 0" by simp
  then show ?case by (simp only: length_Cons ptr_Suc)
qed

lemma cstr_nonzero: "cstr m p s \<Longrightarrow> 0 \<notin> set s"
  by (induction s arbitrary: p) auto

lemma cstr_iff:
  "cstr m p s \<longleftrightarrow> 0 \<notin> set s \<and> get_bytes m p (Suc (length s)) = s @ [0]"
proof (induction s arbitrary: p)
  case Nil
  then show ?case by (simp add: get_bytes_def)
next
  case (Cons c cs)
  have "get_bytes m p (Suc (length (c # cs))) = m p # get_bytes m (p + 1) (Suc (length cs))"
    by (rule nth_equalityI) (auto simp add: nth_Cons' algebra_simps of_nat_diff)
  then show ?case using Cons.IH [of "p + 1"] by auto
qed

lemma cstr_unique: "cstr m p s \<Longrightarrow> cstr m p t \<Longrightarrow> s = t"
proof (induction s arbitrary: p t)
  case Nil
  then show ?case by (cases t) auto
next
  case (Cons c cs)
  then show ?case by (cases t) auto
qed

lemma cstr_cong:
  "(\<And>i. i \<le> length s \<Longrightarrow> m' (p + of_nat i) = m (p + of_nat i)) \<Longrightarrow> cstr m' p s \<longleftrightarrow> cstr m p s"
  unfolding cstr_iff by (rule conj_cong [OF refl], rule arg_cong [of _ _ "\<lambda>x. x = s @ [0]"],
      rule nth_equalityI) simp_all

lemma cstr_put_bytes:
  assumes "0 \<notin> set s" and "length s < 2 ^ 64"
  shows "cstr (put_bytes m p (s @ [0])) p s"
  using assms get_put_bytes [of "s @ [0]" m p] by (simp add: cstr_iff)

lemma cstr_put_bytes_disjoint:
  assumes "cstr m p s" and "disjoint_regions q (length bs) p (Suc (length s))"
    and "length bs \<le> 2 ^ 64"
  shows "cstr (put_bytes m q bs) p s"
  using assms by (simp add: cstr_iff get_put_disjoint)

section \<open>The string routines on C strings\<close>

text \<open>The value \<open>kstrlen\<close> has on a string: the terminating NUL is counted, except in the
  empty string.\<close>

definition kstrlen_of :: "u8 list \<Rightarrow> nat" where
  "kstrlen_of s = (if s = [] then 0 else Suc (length s))"

lemma kstrlen_loop_cstr:
  assumes "cstr m (str + of_nat i) s" and "Suc (i + length s) < 2 ^ 31"
  shows "kstrlen_loop m str (of_nat i) = Some (of_nat (Suc (i + length s)))"
  using assms
proof (induction s arbitrary: i)
  case Nil
  have "(scast (of_nat i :: u32) :: u64) = of_nat i" "(scast (of_nat (Suc i) :: u32) :: u64) = of_nat (Suc i)"
    using Nil.prems(2) by (intro scast_of_nat32; simp)+
  moreover have "(of_nat i :: u32) + 1 = of_nat (Suc i)" by simp
  ultimately show ?case using Nil.prems(1) by (subst kstrlen_loop.simps) (simp del: of_nat_Suc)
next
  case (Cons c cs)
  have i: "(scast (of_nat i :: u32) :: u64) = of_nat i" using Cons.prems(2) by (intro scast_of_nat32) simp
  have "str + of_nat i + 1 = str + of_nat (Suc i)" by simp
  then have "cstr m (str + of_nat (Suc i)) cs" using Cons.prems(1) by (simp only: cstr.simps)
  then have "kstrlen_loop m str (of_nat (Suc i)) = Some (of_nat (Suc (Suc i + length cs)))"
    using Cons.prems(2) by (intro Cons.IH) simp_all
  moreover have "(of_nat i :: u32) + 1 = of_nat (Suc i)" by simp
  ultimately show ?case
    using Cons.prems(1) by (subst kstrlen_loop.simps) (simp only: i cstr.simps if_True simp_thms list.size add_Suc add_Suc_right add_0_right)
qed

lemma kstrlen_of_cstr:
  assumes "cstr m str s" and "Suc (length s) < 2 ^ 31"
  shows "kstrlen m str = Some (of_nat (kstrlen_of s))"
  using kstrlen_loop_cstr [of m str 0 s] assms
  by (cases s) (auto simp add: kstrlen_def kstrlen_of_def)

text \<open>The first difference decides, on unsigned bytes.\<close>

fun byte_diff :: "u8 list \<Rightarrow> u8 list \<Rightarrow> int" where
  "byte_diff [] [] = 0"
| "byte_diff [] (d # ds) = - uint d"
| "byte_diff (c # cs) [] = uint c"
| "byte_diff (c # cs) (d # ds) = (if c = d then byte_diff cs ds else uint c - uint d)"

lemma kstrcmp_cstr: "cstr m p s \<Longrightarrow> cstr m q t \<Longrightarrow> kstrcmp m p q = Some (byte_diff s t)"
proof (induction s t arbitrary: p q rule: byte_diff.induct)
  case 1
  then show ?case by (subst kstrcmp.simps) simp
next
  case (2 d ds)
  then show ?case by (subst kstrcmp.simps) auto
next
  case (3 c cs)
  then show ?case by (subst kstrcmp.simps) auto
next
  case (4 c cs d ds)
  then show ?case by (subst kstrcmp.simps) auto
qed

lemma kstrncmp_cstr:
  "0 < n \<Longrightarrow> cstr m p s \<Longrightarrow> cstr m q t \<Longrightarrow> kstrncmp m p q n = Some (byte_diff s t)"
proof (induction s t arbitrary: p q rule: byte_diff.induct)
  case 1
  then show ?case by (subst kstrncmp.simps) simp
next
  case (2 d ds)
  then show ?case by (subst kstrncmp.simps) auto
next
  case (3 c cs)
  then show ?case by (subst kstrncmp.simps) auto
next
  case (4 c cs d ds)
  then show ?case by (subst kstrncmp.simps) auto
qed

lemma byte_diff_0: "0 \<notin> set s \<Longrightarrow> 0 \<notin> set t \<Longrightarrow> byte_diff s t = 0 \<longleftrightarrow> s = t"
proof (induction s t rule: byte_diff.induct)
  case (4 c cs d ds)
  then show ?case by (cases "c = d") (auto simp add: word_uint_eq_iff [of c d])
qed (auto simp add: uint_0_iff)

lemma byte_diff_neg: "0 \<notin> set s \<Longrightarrow> 0 \<notin> set t \<Longrightarrow> byte_diff s t < 0 \<longleftrightarrow> ord_class.lexordp s t"
proof (induction s t rule: byte_diff.induct)
  case (2 d ds)
  then have "0 < d" by (simp add: word_greater_zero_iff)
  then show ?case by (simp add: word_less_def)
next
  case (4 c cs d ds)
  then show ?case by (cases "c = d") (auto simp add: word_less_def word_uint_eq_iff [of c d])
qed (auto simp add: word_less_def)

text \<open>Copying writes the string and its NUL, provided the copy does not run over its source.\<close>

lemma cstr_update_outside:
  assumes "cstr m p s" and "length s < unat (q - p)"
  shows "cstr (m(q := b)) p s"
proof -
  have "p + of_nat i \<noteq> q" if "i \<le> length s" for i
  proof
    assume "p + of_nat i = q"
    then have "unat (q - p) \<le> i" by (metis add_diff_cancel_left' mod_less_eq_dividend unat_of_nat)
    then show False using assms(2) that by simp
  qed
  then have "cstr (m(q := b)) p s \<longleftrightarrow> cstr m p s" by (intro cstr_cong) simp
  then show ?thesis using assms(1) by simp
qed

lemma kstrcpy_cstr:
  "cstr m src s \<Longrightarrow> length s < unat (dst - src) \<Longrightarrow>
   kstrcpy m dst src = Some (put_bytes m dst (s @ [0]))"
proof (induction s arbitrary: m dst src)
  case Nil
  then show ?case by (subst kstrcpy.simps) simp
next
  case (Cons c cs)
  have src1: "length cs < unat (dst - (src + 1))"
    using Cons.prems unat_diff_Suc [of dst src] by (cases "dst = src") auto
  then have "cstr (m(dst := c)) (src + 1) cs"
    using Cons.prems by (intro cstr_update_outside) auto
  moreover have "length cs < unat (dst + 1 - (src + 1))" using Cons.prems by simp
  ultimately have "kstrcpy (m(dst := c)) (dst + 1) (src + 1) =
      Some (put_bytes (m(dst := c)) (dst + 1) (cs @ [0]))"
    by (rule Cons.IH)
  then show ?case using Cons.prems by (subst kstrcpy.simps) auto
qed

lemma kstrncpy_loop_cstr:
  "cstr m src s \<Longrightarrow> s \<noteq> [] \<Longrightarrow> length s < unat (dst - src) \<Longrightarrow>
   kstrncpy_loop m dst src n = put_bytes m dst (take n s @ [0])"
proof (induction n arbitrary: m dst src s)
  case 0
  then show ?case by simp
next
  case (Suc n)
  obtain c cs where s: "s = c # cs" using Suc.prems(2) by (cases s) auto
  have src1: "length cs < unat (dst - (src + 1))"
    using Suc.prems s unat_diff_Suc [of dst src] by (cases "dst = src") auto
  then have cs: "cstr (m(dst := c)) (src + 1) cs"
    using Suc.prems s by (intro cstr_update_outside) auto
  show ?case
  proof (cases cs)
    case Nil
    then show ?thesis using Suc.prems cs s by (simp add: Let_def)
  next
    case (Cons d ds)
    have "length cs < unat (dst + 1 - (src + 1))" "cs \<noteq> []" using Suc.prems s Cons by simp_all
    then have "kstrncpy_loop (m(dst := c)) (dst + 1) (src + 1) n =
        put_bytes (m(dst := c)) (dst + 1) (take n cs @ [0])"
      using Suc.IH [OF cs] by blast
    moreover have "(m(dst := c)) (src + 1) \<noteq> 0" using cs Cons by simp
    ultimately show ?thesis using Suc.prems s by (simp add: Let_def)
  qed
qed

lemma kstrncpy_cstr:
  "cstr m src s \<Longrightarrow> s \<noteq> [] \<Longrightarrow> length s < unat (dst - src) \<Longrightarrow>
   kstrncpy m dst src n = put_bytes m dst (take (unat n) s @ [0])"
  by (simp add: kstrncpy_def kstrncpy_loop_cstr)

text \<open>Writing behind a string leaves the string alone.\<close>

lemma cstr_put_behind:
  assumes "cstr m p s" and "length s < k" and "k + length bs \<le> 2 ^ 64"
  shows "cstr (put_bytes m (p + of_nat k) bs) p s"
proof (cases "bs = []")
  case True
  then show ?thesis using assms(1) by simp
next
  case False
  then have k: "k < 2 ^ 64" using assms(3) by (cases bs) auto
  have off: "unat (p + of_nat k - p) = k" using k by (rule unat_of_nat_offset)
  have ne: "p \<noteq> p + of_nat k"
  proof
    assume "p = p + of_nat k"
    then have "unat (p + of_nat k - p) = 0" by (metis diff_self unat_0)
    then show False using off assms(2) by simp
  qed
  have "unat (p - (p + of_nat k)) + k = 2 ^ 64" using unat_diff_neg [OF ne] unfolding off .
  then have "length bs \<le> unat (p - (p + of_nat k))" using assms(3) by linarith
  then have "disjoint_regions (p + of_nat k) (length bs) p (Suc (length s))"
    using assms(2) off unfolding disjoint_regions_def by linarith
  then show ?thesis using assms by (intro cstr_put_bytes_disjoint) simp_all
qed

lemma kstrcat_put:
  assumes "cstr m str1 s" and "cstr m str2 t" and "t \<noteq> []"
    and "Suc (length t) \<le> unat (str1 + of_nat (kstrlen_of s) - str2)"
    and "Suc (length s) < 2 ^ 31" and "Suc (length t) < 2 ^ 31"
  shows "kstrcat m str1 str2 = Some (put_bytes m (str1 + of_nat (kstrlen_of s)) (t @ [0, 0]))"
proof -
  let ?dst = "str1 + of_nat (kstrlen_of s)"
  have len2: "unat (of_nat (kstrlen_of t) :: u64) = Suc (length t)"
    using assms(3,6) by (simp only: kstrlen_of_def if_False unat_of_nat) simp
  have "get_bytes m str2 (Suc (length t)) = t @ [0]" using assms(2) by (simp add: cstr_iff)
  then have copy: "copy_loop m ?dst str2 0 (Suc (length t)) = put_bytes m ?dst (t @ [0])"
    using assms(4) copy_loop_put [of "Suc (length t)" ?dst str2 m] by (simp only:)
  have "put_bytes m ?dst ((t @ [0]) @ [0]) =
      (put_bytes m ?dst (t @ [0]))(?dst + of_nat (kstrlen_of t) := 0)"
    using assms(3) by (simp only: put_bytes_append length_append) (simp add: kstrlen_of_def)
  then show ?thesis
    using len2 copy by (simp add: kstrcat_def kstrlen_of_cstr [OF assms(1,5)]
        kstrlen_of_cstr [OF assms(2,6)] add.assoc)
qed

section \<open>Tokens\<close>

lemma kstrtok_delim_skip:
  "cstr m delim [d] \<Longrightarrow> m b \<noteq> d \<Longrightarrow> kstrtok_delim m b delim ret buf = Some (m, ret, buf, False)"
  by (subst kstrtok_delim.simps, simp) (subst kstrtok_delim.simps, simp)

lemma kstrtok_delim_hit:
  "cstr m delim [d] \<Longrightarrow> m b = d \<Longrightarrow> b \<noteq> ret \<Longrightarrow>
   kstrtok_delim m b delim ret buf = Some (m(b := 0), ret, b + 1, True)"
  by (subst kstrtok_delim.simps) (simp add: Let_def)

lemma kstrtok_scan_token:
  "cstr m b (w @ d # rest) \<Longrightarrow> d \<notin> set w \<Longrightarrow> cstr m delim [d] \<Longrightarrow>
   b + of_nat (length w) \<noteq> ret \<Longrightarrow>
   kstrtok_scan m b delim ret buf =
     Some (m(b + of_nat (length w) := 0), ret, b + of_nat (length w) + 1)"
proof (induction w arbitrary: b)
  case Nil
  then have "kstrtok_delim m b delim ret buf = Some (m(b := 0), ret, b + 1, True)"
    by (intro kstrtok_delim_hit [of m delim d]) auto
  then show ?case using Nil.prems by (subst kstrtok_scan.simps) simp
next
  case (Cons c cs)
  have step: "b + 1 + of_nat (length cs) = b + of_nat (length (c # cs))"
    by (simp only: length_Cons ptr_Suc)
  then have "kstrtok_scan m (b + 1) delim ret buf =
      Some (m(b + 1 + of_nat (length cs) := 0), ret, b + 1 + of_nat (length cs) + 1)"
    using Cons.prems by (intro Cons.IH) auto
  moreover have "kstrtok_delim m b delim ret buf = Some (m, ret, buf, False)"
    using Cons.prems by (intro kstrtok_delim_skip [of m delim d]) auto
  ultimately show ?case
    using Cons.prems by (subst kstrtok_scan.simps) (simp add: step del: of_nat_Suc)
qed

lemma kstrtok_scan_last:
  "cstr m b w \<Longrightarrow> d \<notin> set w \<Longrightarrow> cstr m delim [d] \<Longrightarrow>
   kstrtok_scan m b delim ret buf = Some (m, ret, buf)"
proof (induction w arbitrary: b)
  case Nil
  then show ?case by (subst kstrtok_scan.simps) simp
next
  case (Cons c cs)
  have "kstrtok_delim m b delim ret buf = Some (m, ret, buf, False)"
    using Cons.prems by (intro kstrtok_delim_skip [of m delim d]) auto
  then show ?case using Cons by (subst kstrtok_scan.simps) simp
qed

lemma cstr_append_tail: "cstr m p (w @ d # rest) \<Longrightarrow> cstr m (p + of_nat (length w) + 1) rest"
proof (induction w arbitrary: p)
  case Nil
  then show ?case by simp
next
  case (Cons c cs)
  then have "cstr m (p + 1 + of_nat (length cs) + 1) rest" by (intro Cons.IH) simp
  then show ?case by (simp only: length_Cons ptr_Suc)
qed

lemma cstr_cut:
  "cstr m p (w @ d # rest) \<Longrightarrow> length w < 2 ^ 31 \<Longrightarrow> cstr (m(p + of_nat (length w) := 0)) p w"
proof (induction w arbitrary: p)
  case Nil
  then show ?case by simp
next
  case (Cons c cs)
  have "p + of_nat (length (c # cs)) \<noteq> p"
  proof
    assume "p + of_nat (length (c # cs)) = p"
    then have "unat (p + of_nat (length (c # cs)) - p) = 0" by (metis diff_self unat_0)
    moreover have "unat (p + of_nat (length (c # cs)) - p) = length (c # cs)"
      using Cons.prems(2) by (intro unat_of_nat_offset) simp
    ultimately show False by simp
  qed
  moreover have "cstr (m(p + 1 + of_nat (length cs) := 0)) (p + 1) cs"
    using Cons.prems by (intro Cons.IH) simp_all
  moreover have step: "p + of_nat (length (c # cs)) = p + 1 + of_nat (length cs)"
    by (simp only: length_Cons ptr_Suc)
  ultimately show ?case using Cons.prems(1) unfolding step by (simp only: cstr.simps append_Cons fun_upd_other) simp
qed

lemma cstr_cut_tail:
  assumes "cstr m p (w @ d # rest)" and "length rest < 2 ^ 31"
  shows "cstr (m(p + of_nat (length w) := 0)) (p + of_nat (length w) + 1) rest"
proof (rule cstr_update_outside)
  show "cstr m (p + of_nat (length w) + 1) rest" using assms(1) by (rule cstr_append_tail)
  have "unat (p + of_nat (length w) - (p + of_nat (length w) + 1)) = 2 ^ 64 - 1"
    by (rule unat_minus_one64)
  then show "length rest < unat (p + of_nat (length w) - (p + of_nat (length w) + 1))"
    using assms(2) by simp
qed

lemma kstrtok_first:
  assumes "cstr m p (w @ d # rest)" and "d \<notin> set w" and "w \<noteq> []" and "cstr m delim [d]"
    and "p \<noteq> 0" and "cstr m (tok_check st) c" and "c \<noteq> w @ d # rest" and "length w < 2 ^ 31"
  shows "kstrtok st m p delim =
    Some (\<lparr>tok_buffer = p + of_nat (length w) + 1, tok_check = p\<rparr>, m(p + of_nat (length w) := 0), p)"
proof -
  have "unat (p + of_nat (length w) - p) = length w"
    using assms(8) by (intro unat_of_nat_offset) simp
  then have "p + of_nat (length w) \<noteq> p" using assms(3) by (metis diff_self length_0_conv unat_0)
  then have "kstrtok_scan m p delim p p =
      Some (m(p + of_nat (length w) := 0), p, p + of_nat (length w) + 1)"
    by (rule kstrtok_scan_token [OF assms(1,2,4)])
  moreover have "byte_diff c (w @ d # rest) \<noteq> 0"
    using assms(1,6,7) by (subst byte_diff_0) (auto dest: cstr_nonzero)
  moreover have "m p \<noteq> 0" using assms(1,3) by (cases w) auto
  ultimately show ?thesis
    using assms(5) kstrcmp_cstr [OF assms(6,1)] by (simp add: kstrtok_def Let_def)
qed

section \<open>Properties\<close>

text \<open>A store with three strings in it, for the instances below.\<close>

definition demo_mem :: memory where
  "demo_mem = put_bytes (put_bytes (put_bytes (\<lambda>_. 0)
     0x1000 (bytes ''bin/ls'' @ [0])) 0x2000 (bytes ''bin/ps'' @ [0])) 0x3000 (bytes ''/'' @ [0])"

lemma demo_strings:
  "cstr demo_mem 0x1000 (bytes ''bin/ls'')"
  "cstr demo_mem 0x2000 (bytes ''bin/ps'')"
  "cstr demo_mem 0x3000 (bytes ''/'')"
  by (simp_all add: demo_mem_def)

text \<open>C28. On two C strings the comparison routine of the kernel returns, its result is zero
  exactly when the strings are equal, and it is negative exactly when the first comes before the
  second in the lexicographic order of unsigned bytes.\<close>

theorem kstrcmp_orders:
  assumes "cstr m str1 s" and "cstr m str2 t"
  shows "\<exists>r. kstrcmp m str1 str2 = Some r \<and> (r = 0 \<longleftrightarrow> s = t) \<and> (r < 0 \<longleftrightarrow> ord_class.lexordp s t)"
proof -
  have "0 \<notin> set s" "0 \<notin> set t" using assms by (auto dest: cstr_nonzero)
  then show ?thesis using assms by (simp add: kstrcmp_cstr byte_diff_0 byte_diff_neg)
qed

theorem kstrcmp_orders_witness:
  "\<exists>r. kstrcmp demo_mem 0x1000 0x2000 = Some r \<and> (r = 0 \<longleftrightarrow> bytes ''bin/ls'' = bytes ''bin/ps'') \<and>
     (r < 0 \<longleftrightarrow> ord_class.lexordp (bytes ''bin/ls'') (bytes ''bin/ps''))"
  by (rule kstrcmp_orders [OF demo_strings(1) demo_strings(2)])

text \<open>On a C string the length routine returns; its value is 0 for the empty string and one
  more than the number of characters for every other string, because the terminating NUL is
  counted.\<close>

lemma kstrlen_counts_nul:
  assumes "cstr m str s" and "Suc (length s) < 2 ^ 31"
  shows "\<exists>n. kstrlen m str = Some n \<and> unat n = (if s = [] then 0 else length s + 1)"
proof -
  have "unat (of_nat (kstrlen_of s) :: u64) = kstrlen_of s"
    using assms(2) by (intro unat_of_nat64) (simp add: kstrlen_of_def)
  then show ?thesis using kstrlen_of_cstr [OF assms] by (simp add: kstrlen_of_def)
qed

text \<open>C29. Copying a C string to a place that does not overlap it returns; afterwards both places
  hold the string, and no byte outside the copy has changed.\<close>

theorem kstrcpy_copies:
  assumes "cstr m src s" and "disjoint_regions dst (Suc (length s)) src (Suc (length s))"
    and "length s < 2 ^ 31"
  shows "\<exists>m'. kstrcpy m dst src = Some m' \<and> cstr m' dst s \<and> cstr m' src s \<and>
    (\<forall>a. length s < unat (a - dst) \<longrightarrow> m' a = m a)"
proof -
  let ?m' = "put_bytes m dst (s @ [0])"
  have "kstrcpy m dst src = Some ?m'"
    using assms by (intro kstrcpy_cstr) (simp_all add: disjoint_regions_def)
  moreover have "cstr ?m' dst s" using assms by (intro cstr_put_bytes cstr_nonzero) simp_all
  moreover have "cstr ?m' src s" using assms by (intro cstr_put_bytes_disjoint) simp_all
  moreover have "\<forall>a. length s < unat (a - dst) \<longrightarrow> ?m' a = m a"
    using assms(3) by (simp add: put_bytes_outside)
  ultimately show ?thesis by blast
qed

theorem kstrcpy_copies_witness:
  "\<exists>m'. kstrcpy demo_mem 0x4000 0x1000 = Some m' \<and> cstr m' 0x4000 (bytes ''bin/ls'') \<and>
     cstr m' 0x1000 (bytes ''bin/ls'') \<and>
     (\<forall>a. length (bytes ''bin/ls'') < unat (a - 0x4000) \<longrightarrow> m' a = demo_mem a)"
  by (rule kstrcpy_copies [OF demo_strings(1)]) (simp_all add: disjoint_regions_def)

text \<open>C30. For a length that the counters of type \<open>int\<close> can count, the forward copy and the copy through a temporary
  array store the same bytes whenever the destination does not start inside the source, and the latter
  moves every byte of the source to its place and touches nothing else, overlapping or not.\<close>

theorem kmemcpy_kmemmove:
  assumes "unat n < 2 ^ 31"
  shows "(unat n \<le> unat (dest - src) \<longrightarrow> kmemcpy m dest src n = kmemmove m dest src n) \<and>
    (\<forall>a. kmemmove m dest src n a = (if unat (a - dest) < unat n then m (src + (a - dest)) else m a))"
proof -
  have "length (get_bytes m src (unat n)) \<le> 2 ^ 64" using unat_bound64 [of n] by simp
  then have "put_bytes m dest (get_bytes m src (unat n)) a =
      (if unat (a - dest) < unat n then m (src + (a - dest)) else m a)" for a
    by (simp add: put_bytes_apply)
  then show ?thesis using assms by (simp add: kmemcpy_put kmemmove_put)
qed

theorem kmemcpy_kmemmove_witness:
  "kmemcpy demo_mem 0x4000 0x1000 7 = kmemmove demo_mem 0x4000 0x1000 7 \<and>
   kmemmove demo_mem 0x1001 0x1000 7 0x1003 = demo_mem 0x1002"
  using kmemcpy_kmemmove [of 7 "0x4000" "0x1000" demo_mem] kmemcpy_kmemmove [of 7 "0x1001" "0x1000" demo_mem] by simp

text \<open>Appending to a non-empty string has no effect on it: the copy starts behind the
  terminating NUL, so the string at the destination is what it was before.\<close>

lemma kstrcat_appends_behind_nul:
  assumes "cstr m str1 s" and "cstr m str2 t" and "s \<noteq> []" and "t \<noteq> []"
    and "Suc (length t) \<le> unat (str1 + of_nat (Suc (length s)) - str2)"
    and "Suc (length s) < 2 ^ 31" and "Suc (length t) < 2 ^ 31"
  shows "\<exists>m'. kstrcat m str1 str2 = Some m' \<and> cstr m' str1 s \<and>
    get_bytes m' (str1 + of_nat (Suc (length s))) (length t) = t"
proof -
  let ?k = "Suc (length s)" and ?bs = "t @ [0, 0]"
  have k: "kstrlen_of s = ?k" using assms(3) by (simp add: kstrlen_of_def)
  have "Suc (length t) \<le> unat (str1 + of_nat (kstrlen_of s) - str2)" using assms(5) unfolding k .
  then have "kstrcat m str1 str2 = Some (put_bytes m (str1 + of_nat (kstrlen_of s)) ?bs)"
    using assms(6,7) by (intro kstrcat_put [OF assms(1,2,4)]) simp_all
  then have cat: "kstrcat m str1 str2 = Some (put_bytes m (str1 + of_nat ?k) ?bs)"
    unfolding k .
  have keep: "cstr (put_bytes m (str1 + of_nat ?k) ?bs) str1 s"
    using assms(1,6,7) by (intro cstr_put_behind) simp_all
  have all: "length ?bs \<le> 2 ^ 64" using assms(7) by simp
  have "get_bytes (put_bytes m (str1 + of_nat ?k) ?bs) (str1 + of_nat ?k) (length t) = t"
  proof (rule nth_equalityI)
    fix i assume "i < length (get_bytes (put_bytes m (str1 + of_nat ?k) ?bs) (str1 + of_nat ?k) (length t))"
    then have i: "i < length t" by simp
    then have "put_bytes m (str1 + of_nat ?k) ?bs (str1 + of_nat ?k + of_nat i) = ?bs ! i"
      by (intro put_bytes_inside [OF all]) simp
    then show "get_bytes (put_bytes m (str1 + of_nat ?k) ?bs) (str1 + of_nat ?k) (length t) ! i = t ! i"
      using i by (simp only: nth_get_bytes nth_append if_True)
  qed simp
  then show ?thesis using cat keep by blast
qed

text \<open>A positive bound is ignored by the bounded comparison: on C strings it returns what the
  unbounded comparison returns, so strings that agree on the first \<open>n\<close> characters are still
  reported as different.\<close>

lemma kstrncmp_ignores_bound:
  assumes "0 < n" and "cstr m str1 s" and "cstr m str2 t"
  shows "kstrncmp m str1 str2 n = kstrcmp m str1 str2 \<and>
    (\<exists>r. kstrncmp m str1 str2 n = Some r \<and> (r = 0 \<longleftrightarrow> s = t))"
proof -
  have "0 \<notin> set s" "0 \<notin> set t" using assms by (auto dest: cstr_nonzero)
  then show ?thesis using assms by (simp add: kstrncmp_cstr kstrcmp_cstr byte_diff_0)
qed

text \<open>C31. The tokenizer, started on a string that has a delimiter after a non-empty first
  component, returns that component as a C string, leaves the rest for the next call, and writes
  only the delimiter. If the rest is the same component again, the next call reports the end of
  the string instead of returning it.\<close>

theorem kstrtok_component:
  assumes "cstr m p (w @ d # rest)" and "d \<notin> set w" and "w \<noteq> []" and "cstr m delim [d]"
    and "p \<noteq> 0" and "cstr m (tok_check st) c" and "c \<noteq> w @ d # rest"
    and "length w < 2 ^ 31" and "length rest < 2 ^ 31"
  shows "\<exists>st' m'. kstrtok st m p delim = Some (st', m', p) \<and> cstr m' p w \<and>
    cstr m' (tok_buffer st') rest \<and> (\<forall>a. a \<noteq> p + of_nat (length w) \<longrightarrow> m' a = m a) \<and>
    (rest = w \<longrightarrow> kstrtok st' m' 0 delim = Some (st', m', 0))"
proof -
  let ?q = "p + of_nat (length w)"
  let ?m = "m(?q := 0)" and ?st = "\<lparr>tok_buffer = ?q + 1, tok_check = p\<rparr>"
  have first: "kstrtok st m p delim = Some (?st, ?m, p)"
    by (rule kstrtok_first [OF assms(1-8)])
  have w: "cstr ?m p w" using assms(1,8) by (rule cstr_cut)
  have r: "cstr ?m (?q + 1) rest" using assms(1,9) by (rule cstr_cut_tail)
  have "kstrtok ?st ?m 0 delim = Some (?st, ?m, 0)" if "rest = w"
  proof -
    have "kstrcmp ?m p (?q + 1) = Some 0"
      using kstrcmp_cstr [OF w r] that byte_diff_0 [of w w] cstr_nonzero [OF w] by simp
    then show ?thesis by (simp add: kstrtok_def Let_def)
  qed
  then show ?thesis using first w r by (intro exI [of _ ?st] exI [of _ ?m]) simp
qed

definition demo_path_mem :: memory where
  "demo_path_mem = put_bytes (put_bytes (put_bytes (\<lambda>_. 0)
     0x1000 (bytes ''bin/bin'' @ [0])) 0x2000 (bytes ''-1'' @ [0])) 0x3000 (bytes ''/'' @ [0])"

theorem kstrtok_component_witness:
  "\<exists>st' m'. kstrtok \<lparr>tok_buffer = 0, tok_check = 0x2000\<rparr> demo_path_mem 0x1000 0x3000 =
       Some (st', m', 0x1000) \<and> cstr m' 0x1000 (bytes ''bin'') \<and>
     cstr m' (tok_buffer st') (bytes ''bin'') \<and>
     (\<forall>a. a \<noteq> 0x1000 + of_nat (length (bytes ''bin'')) \<longrightarrow> m' a = demo_path_mem a) \<and>
     (bytes ''bin'' = bytes ''bin'' \<longrightarrow> kstrtok st' m' 0 0x3000 = Some (st', m', 0))"
  by (rule kstrtok_component [where d = "of_char (CHR ''/'')" and c = "bytes ''-1''"])
    (simp_all add: demo_path_mem_def)

end
