(* ===== verification/Kern_Utils.thy ===== *)
theory Kern_Utils
  imports Kern_Ops "HOL-Library.Signed_Division"
begin

text \<open>
  The number routines of \<open>sys/k_utils.c\<close> (\<open>libc/utils.c\<close> is the same file) and the
  rounding macros of \<open>include/sys/k_utils.h\<close>. Unsigned values are words and wrap; the
  \<open>int\<close> argument of \<open>itoa\<close> is an integer, divided with C's truncation.
\<close>

section \<open>include/sys/k_utils.h\<close>

abbreviation PAGE_SIZE :: u64 where
  "PAGE_SIZE \<equiv> 0x1000"

definition ROUNDDOWN :: "u64 \<Rightarrow> u64 \<Rightarrow> u64" where
  "ROUNDDOWN a n = a - a mod n"

definition ROUNDUP :: "u64 \<Rightarrow> u64 \<Rightarrow> u64" where
  "ROUNDUP a n = ROUNDDOWN (a + n - 1) n"

definition ALIGN_DOWN :: "u64 \<Rightarrow> u64" where
  "ALIGN_DOWN x = x AND NOT (PAGE_SIZE - 1)"

section \<open>sys/k_utils.c\<close>

text \<open>The digit table of \<open>itoa\<close> is symmetric around index 35, so that the negative remainders
  of a negative value select the same digits as the positive ones.\<close>

definition itoa_table :: "u8 list" where
  "itoa_table = bytes ''zyxwvutsrqponmlkjihgfedcba9876543210123456789abcdefghijklmnopqrstuvwxyz''"

partial_function (option) itoa_digits ::
  "memory \<Rightarrow> u64 \<Rightarrow> int \<Rightarrow> int \<Rightarrow> (memory \<times> u64) option" where
  "itoa_digits m ptr value base =
     (let m' = m(ptr := itoa_table ! nat (35 + value smod base)); ptr' = ptr + 1;
          value' = value sdiv base
      in if value' \<noteq> 0 then itoa_digits m' ptr' value' base else Some (m', ptr'))"

function itoa_reverse :: "memory \<Rightarrow> u64 \<Rightarrow> u64 \<Rightarrow> memory" where
  "itoa_reverse m low ptr =
     (if low < ptr
      then itoa_reverse (m(low := m ptr, ptr := m low)) (low + 1) (ptr - 1)
      else m)"
  by pat_completeness auto
termination
proof (relation "measure (\<lambda>(m, low, ptr). unat ptr - unat low)")
  fix m :: memory and low ptr :: u64
  assume less: "low < ptr"
  have "ptr \<noteq> 0" using less by auto
  then have "unat (ptr - 1) = unat ptr - 1" by (rule unat_minus_one)
  moreover have "unat low < unat ptr" using less by (simp add: word_less_nat_alt)
  moreover from this have "unat (low + 1) = unat low + 1"
    using unat_add_of_nat [of low 1] unat_bound64 [of ptr] by simp
  ultimately show "((m(low := m ptr, ptr := m low), low + 1, ptr - 1), m, low, ptr)
      \<in> measure (\<lambda>(m, low, ptr). unat ptr - unat low)"
    by simp
qed simp

definition itoa :: "memory \<Rightarrow> int \<Rightarrow> u64 \<Rightarrow> int \<Rightarrow> (memory \<times> u64) option" where
  "itoa m value str base =
     (if base < 2 \<or> base > 36 then Some (m(str := 0), str)
      else let (m0, low) = (if value < 0 \<and> base = 10 then (m(str := 0x2d), str + 1) else (m, str))
        in do {
          (m1, ptr) \<leftarrow> itoa_digits m0 low value base;
          Some (itoa_reverse (m1(ptr := 0)) low (ptr - 1), str)
        })"

definition is_digit :: "u8 \<Rightarrow> bool" where
  "is_digit c \<longleftrightarrow> 48 \<le> sint c \<and> sint c \<le> 57"

function stoi_loop :: "memory \<Rightarrow> u64 \<Rightarrow> nat \<Rightarrow> u64 \<Rightarrow> u64" where
  "stoi_loop m str j i =
     (if is_digit (m (str + of_nat j)) \<and> j < 12
      then stoi_loop m str (Suc j) (i * 10 + (ucast (m (str + of_nat j)) - 48))
      else i)"
  by pat_completeness auto
termination
  by (relation "measure (\<lambda>(m, str, j, i). 12 - j)") auto

definition stoi :: "memory \<Rightarrow> u64 \<Rightarrow> u64" where
  "stoi m str = stoi_loop m str 0 0"

text \<open>\<open>power\<close> recurses without end on a negative exponent; its one caller counts up from 0.\<close>

fun kpower :: "u64 \<Rightarrow> nat \<Rightarrow> u64" where
  "kpower base 0 = 1"
| "kpower base (Suc pow) = base * kpower base pow"

function oct2dec_loop :: "u64 \<Rightarrow> u64 \<Rightarrow> nat \<Rightarrow> u64" where
  "oct2dec_loop oct dec pow =
     (if oct \<noteq> 0
      then oct2dec_loop (oct div 10) (dec + (oct mod 10) * kpower 8 pow) (Suc pow)
      else dec)"
  by pat_completeness auto
termination
  by (relation "measure (\<lambda>(oct, dec, pow). unat oct)")
    (auto simp add: unat_div unat_gt_0 intro!: div_less_dividend)

definition oct2dec :: "u64 \<Rightarrow> u64" where
  "oct2dec oct = oct2dec_loop oct 0 0"

declare itoa_reverse.simps [simp del] stoi_loop.simps [simp del] oct2dec_loop.simps [simp del]

section \<open>Rounding\<close>

lemma unat_ROUNDDOWN: "unat (ROUNDDOWN a n) = unat a - unat a mod unat n"
proof -
  have "unat (a mod n) \<le> unat a" by (simp add: unat_mod)
  then show ?thesis by (simp add: ROUNDDOWN_def unat_sub_if' unat_mod)
qed

lemma ROUNDDOWN_page [simp]: "unat (ROUNDDOWN a PAGE_SIZE) mod 4096 = 0"
  by (simp add: unat_ROUNDDOWN minus_mod_eq_mult_div)

lemma ALIGN_DOWN_ROUNDDOWN: "ALIGN_DOWN x = ROUNDDOWN x PAGE_SIZE"
proof -
  have "NOT x AND take_bit 12 x = 0" by (simp add: bit_eq_iff bit_simps)
  then have "x - take_bit 12 x = x AND NOT (take_bit 12 x)" by (rule disjunctive_diff_eq_and_not)
  also have "\<dots> = x AND NOT (mask 12)" by (auto simp add: bit_eq_iff bit_simps)
  finally have "x - take_bit 12 x = x AND NOT (mask 12)" .
  moreover have "x mod PAGE_SIZE = take_bit 12 x" by (simp add: take_bit_eq_mod)
  ultimately show ?thesis by (simp add: ALIGN_DOWN_def ROUNDDOWN_def mask_eq_exp_minus_1)
qed

section \<open>Octal numbers in decimal clothes\<close>

text \<open>
  A tar header stores a size as octal digits. The code reads the digits as a decimal number and
  then reads that number's decimal digits as octal ones.
\<close>

fun octval :: "nat \<Rightarrow> nat" where
  "octval n = (if n = 0 then 0 else n mod 10 + 8 * octval (n div 10))"

declare octval.simps [simp del]

lemma octval_0 [simp]: "octval 0 = 0"
  by (simp add: octval.simps)

lemma octval_step: "d < 10 \<Longrightarrow> octval (10 * a + d) = 8 * octval a + d"
  by (subst octval.simps) auto

lemma octval_foldl:
  "\<forall>d \<in> set ds. d < 10 \<Longrightarrow>
   octval (foldl (\<lambda>a d. 10 * a + d) a ds) = foldl (\<lambda>a d. 8 * a + d) (octval a) ds"
  by (induction ds arbitrary: a) (simp_all add: octval_step)

lemma kpower_8: "kpower 8 n = of_nat (8 ^ n)"
  by (induction n) simp_all

lemma oct2dec_loop_eq:
  "oct2dec_loop oct dec pow = dec + of_nat (8 ^ pow * octval (unat oct))"
proof (induction oct dec pow rule: oct2dec_loop.induct)
  case (1 oct dec pow)
  show ?case
  proof (cases "oct = 0")
    case True
    then show ?thesis by (subst oct2dec_loop.simps) simp
  next
    case False
    have m: "oct mod 10 = of_nat (unat oct mod 10)" by (simp add: word_arith_nat_mod)
    have d: "unat (oct div 10) = unat oct div 10" by (simp add: unat_div)
    have "octval (unat oct) = unat oct mod 10 + 8 * octval (unat oct div 10)"
      using False by (subst octval.simps) (simp add: unat_eq_0)
    then have "(8 :: u64) ^ pow * of_nat (octval (unat oct)) =
        of_nat (unat oct mod 10) * 8 ^ pow + 8 ^ Suc pow * of_nat (octval (unat oct div 10))"
      by (simp add: algebra_simps)
    then show ?thesis
      using False "1.IH" by (subst oct2dec_loop.simps) (simp add: kpower_8 m d)
  qed
qed

lemma oct2dec_eq: "oct2dec oct = of_nat (octval (unat oct))"
  by (simp add: oct2dec_def oct2dec_loop_eq)

text \<open>Digit characters and the decimal value the code assembles from them.\<close>

definition digit_char :: "nat \<Rightarrow> u8" where
  "digit_char d = of_nat (48 + d)"

lemma unat_digit_char: "d < 10 \<Longrightarrow> unat (digit_char d) = 48 + d"
  unfolding digit_char_def by (simp only: unat_of_nat) simp

lemma ucast_digit_char: "d < 10 \<Longrightarrow> (ucast (digit_char d) :: u64) - 48 = of_nat d"
proof -
  assume "d < 10"
  then have "(ucast (digit_char d) :: u64) = of_nat (48 + d)"
    by (metis unat_digit_char of_nat_unat)
  then show ?thesis by simp
qed

lemma is_digit_char:
  assumes "d < 10"
  shows "is_digit (digit_char d)"
proof -
  have "d \<in> {0, 1, 2, 3, 4, 5, 6, 7, 8, 9}" using assms by auto
  then show ?thesis by (auto simp add: is_digit_def digit_char_def)
qed

lemma stoi_loop_digits:
  assumes "\<forall>d \<in> set ds. d < 10" and "j + length ds \<le> 12"
    and "\<And>k. k < length ds \<Longrightarrow> m (str + of_nat (j + k)) = digit_char (ds ! k)"
    and "j + length ds = 12 \<or> \<not> is_digit (m (str + of_nat (j + length ds)))"
  shows "stoi_loop m str j (of_nat a) = of_nat (foldl (\<lambda>a d. 10 * a + d) a ds)"
  using assms
proof (induction ds arbitrary: j a)
  case Nil
  then show ?case by (subst stoi_loop.simps) auto
next
  case (Cons d ds)
  have c: "m (str + of_nat j) = digit_char d" using Cons.prems(3) [of 0] by simp
  have next_k: "m (str + of_nat (Suc j + k)) = digit_char (ds ! k)" if "k < length ds" for k
    using Cons.prems(3) [of "Suc k"] that by simp
  have "stoi_loop m str (Suc j) (of_nat (10 * a + d)) = of_nat (foldl (\<lambda>a d. 10 * a + d) (10 * a + d) ds)"
    using Cons.prems next_k by (intro Cons.IH) (auto simp del: of_nat_Suc)
  moreover have "(of_nat a :: u64) * 10 + (ucast (m (str + of_nat j)) - 48) = of_nat (10 * a + d)"
    using c Cons.prems(1) ucast_digit_char [of d] by (simp add: algebra_simps)
  moreover have "is_digit (m (str + of_nat j)) \<and> j < 12"
    using c Cons.prems(1,2) is_digit_char by simp
  ultimately show ?case
    by (subst stoi_loop.simps) (simp only: if_True simp_thms foldl_Cons)
qed

lemma foldl_decimal_bound:
  "\<forall>d \<in> set ds. d < 10 \<Longrightarrow> foldl (\<lambda>a d. 10 * a + d) 0 ds < (10 :: nat) ^ length ds"
proof (induction ds rule: rev_induct)
  case Nil
  then show ?case by simp
next
  case (snoc d ds)
  then have "Suc (foldl (\<lambda>a d. 10 * a + d) 0 ds) \<le> 10 ^ length ds" and "d < 10" by simp_all
  then show ?case by simp
qed

fun octal_digits :: "nat \<Rightarrow> nat \<Rightarrow> nat list" where
  "octal_digits 0 n = []"
| "octal_digits (Suc k) n = octal_digits k (n div 8) @ [n mod 8]"

lemma length_octal_digits [simp]: "length (octal_digits k n) = k"
  by (induction k arbitrary: n) simp_all

lemma octal_digits_small: "d \<in> set (octal_digits k n) \<Longrightarrow> d < 8"
  by (induction k arbitrary: n) auto

lemma foldl_octal_digits: "foldl (\<lambda>a d. 8 * a + d) 0 (octal_digits k n) = n mod 8 ^ k"
proof (induction k arbitrary: n)
  case 0
  then show ?case by simp
next
  case (Suc k)
  have "n mod 8 ^ Suc k = 8 * (n div 8 mod 8 ^ k) + n mod 8"
    using mod_mult2_eq [of n 8 "8 ^ k"] by simp
  then show ?case using Suc.IH by simp
qed

section \<open>Digits of itoa\<close>

definition itoa_char :: "nat \<Rightarrow> u8" where
  "itoa_char d = itoa_table ! (35 + d)"

lemma itoa_table_symmetric: "d < 36 \<Longrightarrow> itoa_table ! (35 - d) = itoa_char d"
proof -
  have "\<forall>d \<in> set [0..<36]. itoa_table ! (35 - d) = itoa_char d" by code_simp
  then show "d < 36 \<Longrightarrow> itoa_table ! (35 - d) = itoa_char d" by simp
qed

lemma itoa_char_nonzero: "d < 36 \<Longrightarrow> itoa_char d \<noteq> 0"
proof -
  have "\<forall>d \<in> set [0..<36]. itoa_char d \<noteq> 0" by code_simp
  then show "d < 36 \<Longrightarrow> itoa_char d \<noteq> 0" by simp
qed

text \<open>The digits of a number, the least significant one first, as the loop produces them.\<close>

function rdigits :: "nat \<Rightarrow> nat \<Rightarrow> nat list" where
  "rdigits b n = n mod b # (if b < 2 \<or> n div b = 0 then [] else rdigits b (n div b))"
  by pat_completeness auto
termination
proof (relation "measure (\<lambda>(b, n). n)")
  fix b n :: nat
  assume "\<not> (b < 2 \<or> n div b = 0)"
  then have "1 < b" "0 < n" by (auto intro: gr0I)
  then have "n div b < n" by (rule div_less_dividend)
  then show "((b, n div b), b, n) \<in> measure (\<lambda>(b, n). n)" by simp
qed simp

declare rdigits.simps [simp del]

lemma rdigits_nonempty [simp]: "rdigits b n \<noteq> []"
  by (subst rdigits.simps) simp

lemma rdigits_small: "2 \<le> b \<Longrightarrow> d \<in> set (rdigits b n) \<Longrightarrow> d < b"
proof (induction b n rule: rdigits.induct)
  case (1 b n)
  then have "d = n mod b \<or> \<not> (b < 2 \<or> n div b = 0) \<and> d \<in> set (rdigits b (n div b))"
    by (subst (asm) (2) rdigits.simps) (auto split: if_splits)
  then show ?case using 1 by auto
qed

lemma rdigits_value: "2 \<le> b \<Longrightarrow> foldr (\<lambda>d a. b * a + d) (rdigits b n) 0 = n"
proof (induction b n rule: rdigits.induct)
  case (1 b n)
  show ?case
  proof (cases "n div b = 0")
    case True
    then have "n mod b = n" by (metis mult_zero_right add.left_neutral mult_div_mod_eq)
    then show ?thesis using True by (subst rdigits.simps) simp
  next
    case False
    then have "foldr (\<lambda>d a. b * a + d) (rdigits b (n div b)) 0 = n div b" using 1 by simp
    then show ?thesis using False 1 by (subst rdigits.simps) simp
  qed
qed

lemma rdigits_last: "2 \<le> b \<Longrightarrow> last (rdigits b n) = 0 \<Longrightarrow> n = 0"
proof (induction b n rule: rdigits.induct)
  case (1 b n)
  show ?case
  proof (cases "n div b = 0")
    case True
    then have "n mod b = 0" using 1 by (subst (asm) (2) rdigits.simps) simp
    then show ?thesis using True by (metis mult_zero_right add.left_neutral mult_div_mod_eq)
  next
    case False
    have "last (rdigits b (n div b)) = 0" using 1 False by (subst (asm) (2) rdigits.simps) simp
    then have "n div b = 0" using 1 False by simp
    then show ?thesis using False by simp
  qed
qed

lemma itoa_digit_index:
  assumes "2 \<le> b" and "b \<le> 36"
  shows "itoa_table ! nat (35 + v smod int b) = itoa_char (nat \<bar>v\<bar> mod b)"
proof -
  let ?r = "nat \<bar>v\<bar> mod b"
  have r: "?r < 36" using assms by (meson mod_less_divisor less_le_trans zero_less_numeral)
  have "\<bar>v\<bar> mod int b = int ?r" by (simp add: zmod_int)
  then have "v smod int b = sgn v * int ?r" by (simp add: signed_modulo_int_def)
  then have "nat (35 + v smod int b) = 35 + ?r \<or> nat (35 + v smod int b) = 35 - ?r"
    using r by (cases "v < 0") (auto simp add: sgn_if)
  then show ?thesis using itoa_table_symmetric [OF r] by (auto simp add: itoa_char_def)
qed

lemma itoa_digits_put:
  assumes "2 \<le> b" and "b \<le> 36"
  shows "itoa_digits m ptr v (int b) = Some (put_bytes m ptr (map itoa_char (rdigits b (nat \<bar>v\<bar>))),
    ptr + of_nat (length (rdigits b (nat \<bar>v\<bar>))))"
proof (induction "nat \<bar>v\<bar>" arbitrary: m ptr v rule: less_induct)
  case less
  let ?n = "nat \<bar>v\<bar>" and ?v = "v sdiv int b"
  have "\<bar>v\<bar> div int b = int (?n div b)" by (simp add: zdiv_int)
  then have "?v = sgn v * int (?n div b)"
    using assms by (simp add: signed_divide_int_def)
  then have abs: "nat \<bar>?v\<bar> = ?n div b"
    by (cases "v = 0") (simp_all add: abs_mult abs_sgn_eq)
  have dig: "itoa_table ! nat (35 + v smod int b) = itoa_char (?n mod b)"
    using assms by (rule itoa_digit_index)
  show ?case
  proof (cases "?n div b = 0")
    case True
    then have "?v = 0" using abs by simp
    then show ?thesis
      using True dig by (subst itoa_digits.simps, subst (1 2) rdigits.simps) (simp add: Let_def)
  next
    case False
    then have v: "?v \<noteq> 0" using abs by auto
    have "?n div b < ?n" using False assms by (intro div_less_dividend) (auto intro: gr0I)
    then have "nat \<bar>?v\<bar> < ?n" unfolding abs .
    from less.hyps [OF this, of "m(ptr := itoa_char (?n mod b))" "ptr + 1"]
    have "itoa_digits (m(ptr := itoa_char (?n mod b))) (ptr + 1) ?v (int b) =
        Some (put_bytes (m(ptr := itoa_char (?n mod b))) (ptr + 1)
            (map itoa_char (rdigits b (?n div b))),
          ptr + 1 + of_nat (length (rdigits b (?n div b))))"
      unfolding abs .
    then show ?thesis
      using v dig False assms
      by (subst itoa_digits.simps, subst (1 2) rdigits.simps) (simp add: Let_def algebra_simps)
  qed
qed

lemma length_rdigits: "2 \<le> b \<Longrightarrow> n < 2 ^ k \<Longrightarrow> 0 < k \<Longrightarrow> length (rdigits b n) \<le> k"
proof (induction k arbitrary: n)
  case 0
  then show ?case by simp
next
  case (Suc k)
  show ?case
  proof (cases "n div b = 0")
    case True
    then show ?thesis by (subst rdigits.simps) simp
  next
    case False
    have "n div b \<le> n div 2" using Suc.prems by (intro div_le_mono2) simp_all
    also have "\<dots> < 2 ^ k" using Suc.prems by auto
    finally have less: "n div b < 2 ^ k" .
    then have "0 < k" using False by (cases k) auto
    then have "length (rdigits b (n div b)) \<le> k" using Suc less by simp
    then show ?thesis by (subst rdigits.simps) simp
  qed
qed

text \<open>The swapping loop mirrors the bytes between its two pointers and leaves all others.\<close>

lemma itoa_reverse_apply:
  "itoa_reverse m low ptr a = (if low \<le> a \<and> a \<le> ptr then m (low + (ptr - a)) else m a)"
proof (induction m low ptr rule: itoa_reverse.induct)
  case (1 m low ptr)
  show ?case
  proof (cases "low < ptr")
    case False
    then have "low \<le> a \<and> a \<le> ptr \<Longrightarrow> a = low \<and> ptr = a" by auto
    then show ?thesis using False by (subst itoa_reverse.simps) auto
  next
    case True
    let ?m = "m(low := m ptr, ptr := m low)"
    have bounds: "low \<noteq> - 1" "ptr \<noteq> 0" using True by auto
    have step: "itoa_reverse m low ptr = itoa_reverse ?m (low + 1) (ptr - 1)"
      using True by (subst itoa_reverse.simps) (simp only: if_True)
    have "itoa_reverse m low ptr a =
        (if low + 1 \<le> a \<and> a \<le> ptr - 1 then ?m (low + 1 + (ptr - 1 - a)) else ?m a)"
      unfolding step by (rule "1.IH" [OF True])
    also have "\<dots> = (if low < a \<and> a < ptr then ?m (low + (ptr - a)) else ?m a)"
      using bounds by (simp add: inc_less_eq_iff less_eq_dec_iff)
    also have "\<dots> = (if low \<le> a \<and> a \<le> ptr then m (low + (ptr - a)) else m a)"
      using True by (auto simp add: word_le_less_eq)
    finally show ?thesis .
  qed
qed

lemma get_bytes_itoa_reverse:
  assumes "xs \<noteq> []" and "unat low + length xs < 2 ^ 64"
  shows "get_bytes (itoa_reverse (put_bytes m low (xs @ [0])) low (low + of_nat (length xs) - 1))
    low (Suc (length xs)) = rev xs @ [0]" (is "get_bytes ?r _ _ = _")
proof (rule nth_equalityI)
  show "length (get_bytes ?r low (Suc (length xs))) = length (rev xs @ [0])" by simp
next
  fix i
  assume "i < length (get_bytes ?r low (Suc (length xs)))"
  then have i: "i \<le> length xs" by simp
  let ?n = "length xs" and ?p = "low + of_nat (length xs) - 1"
  have p: "?p = low + of_nat (?n - 1)" using assms(1) by (cases xs) simp_all
  have ua: "unat (low + of_nat i) = unat low + i" using i assms by (intro unat_add_of_nat) simp
  have up: "unat ?p = unat low + (?n - 1)" unfolding p using assms by (intro unat_add_of_nat) simp
  have inside: "low \<le> low + of_nat i \<and> low + of_nat i \<le> ?p \<longleftrightarrow> i < ?n"
    unfolding word_le_nat_alt ua up using assms(1) length_greater_0_conv [of xs] by linarith
  show "get_bytes ?r low (Suc ?n) ! i = (rev xs @ [0]) ! i"
  proof (cases "i < ?n")
    case True
    then have "low + (?p - (low + of_nat i)) = low + of_nat (?n - 1 - i)"
      unfolding p by (simp add: of_nat_diff)
    then have "?r (low + of_nat i) = put_bytes m low (xs @ [0]) (low + of_nat (?n - 1 - i))"
      using inside True unfolding itoa_reverse_apply by (simp only: simp_thms if_True)
    also have "\<dots> = (xs @ [0]) ! (?n - 1 - i)"
      using assms True by (intro put_bytes_inside) simp_all
    also have "\<dots> = (rev xs @ [0]) ! i" using True by (auto simp add: nth_append rev_nth)
    finally show ?thesis using True by simp
  next
    case False
    then have "i = ?n" using i by simp
    then have "?r (low + of_nat i) = put_bytes m low (xs @ [0]) (low + of_nat ?n)"
      using inside unfolding itoa_reverse_apply by (simp only: simp_thms if_False less_irrefl)
    also have "\<dots> = (xs @ [0]) ! ?n"
      using assms by (intro put_bytes_inside) simp_all
    finally show ?thesis using \<open>i = ?n\<close> by (simp add: nth_append)
  qed
qed

text \<open>What the conversion leaves behind, before the digits are read as a string.\<close>

lemma itoa_body:
  assumes "2 \<le> b" and "b \<le> 36" and "unat low + length (rdigits b (nat \<bar>v\<bar>)) < 2 ^ 64"
  shows "\<exists>m1 ptr. itoa_digits m low v (int b) = Some (m1, ptr) \<and>
    cstr (itoa_reverse (m1(ptr := 0)) low (ptr - 1)) low (map itoa_char (rev (rdigits b (nat \<bar>v\<bar>))))
    \<and> (\<forall>a. a < low \<longrightarrow> itoa_reverse (m1(ptr := 0)) low (ptr - 1) a = m a)"
proof -
  let ?xs = "map itoa_char (rdigits b (nat \<bar>v\<bar>))"
  let ?m1 = "put_bytes m low ?xs" and ?ptr = "low + of_nat (length ?xs)"
  have upd: "?m1(?ptr := 0) = put_bytes m low (?xs @ [0])" by (simp add: put_bytes_append)
  have nz: "0 \<notin> set (map itoa_char (rev (rdigits b (nat \<bar>v\<bar>))))"
    using rdigits_small [OF assms(1)] itoa_char_nonzero assms(2)
    by (fastforce dest: sym [of 0])
  have "cstr (itoa_reverse (?m1(?ptr := 0)) low (?ptr - 1)) low
      (map itoa_char (rev (rdigits b (nat \<bar>v\<bar>))))"
    unfolding cstr_iff upd using nz get_bytes_itoa_reverse [of ?xs low m] assms(3)
    by (simp add: rev_map)
  moreover have "itoa_reverse (?m1(?ptr := 0)) low (?ptr - 1) a = m a" if "a < low" for a
  proof -
    have "unat (a - low) = 2 ^ 64 + unat a - unat low"
      using that by (simp add: unat_sub_if' word_less_nat_alt)
    then have "length (?xs @ [0]) \<le> unat (a - low)" using assms(3) by simp
    then have "put_bytes m low (?xs @ [0]) a = m a"
      using assms(3) by (intro put_bytes_outside) simp_all
    moreover have "\<not> low \<le> a" using that by (simp add: not_le)
    ultimately show ?thesis unfolding upd itoa_reverse_apply by (simp only: simp_thms if_False)
  qed
  ultimately show ?thesis using itoa_digits_put [OF assms(1,2), of m low v] by auto
qed

section \<open>Properties\<close>

text \<open>C22. \<open>itoa\<close> terminates for every \<open>int\<close> value and every base from 2 to 36 and leaves at
  \<open>str\<close> a C string that denotes the value: its digits are below the base, there are at most 32 of
  them, their positional value is the magnitude, there is no leading zero except for the value 0,
  and a minus sign precedes them exactly for negative values in base 10.\<close>

theorem itoa_renders:
  assumes "2 \<le> b" and "b \<le> 36" and "- (2 ^ 31) \<le> v" and "v < 2 ^ 31"
    and "unat str + 34 \<le> 2 ^ 64"
  shows "\<exists>m' ds. itoa m v str (int b) = Some (m', str) \<and>
    cstr m' str ((if v < 0 \<and> b = 10 then bytes ''-'' else []) @ map itoa_char ds) \<and>
    foldl (\<lambda>a d. b * a + d) 0 ds = nat \<bar>v\<bar> \<and> ds \<noteq> [] \<and> length ds \<le> 32 \<and>
    (\<forall>d \<in> set ds. d < b) \<and> (hd ds = 0 \<longrightarrow> v = 0)"
proof -
  define n where "n = nat \<bar>v\<bar>"
  let ?neg = "v < 0 \<and> b = 10"
  let ?m = "if ?neg then m(str := 0x2d) else m" and ?low = "if ?neg then str + 1 else str"
  have "n < 2 ^ 32" using assms(3,4) by (simp add: n_def)
  then have len: "length (rdigits b n) \<le> 32" using assms(1) by (intro length_rdigits) simp_all
  have low1: "unat (str + 1) = unat str + 1" using unat_add_of_nat [of str 1] assms(5) by simp
  then have "unat ?low \<le> unat str + 1" by simp
  then have "unat ?low + length (rdigits b n) < 2 ^ 64" using len assms(5) by linarith
  then obtain m1 ptr where run: "itoa_digits ?m ?low v (int b) = Some (m1, ptr)"
    and str: "cstr (itoa_reverse (m1(ptr := 0)) ?low (ptr - 1)) ?low
      (map itoa_char (rev (rdigits b n)))"
    and keep: "\<forall>a. a < ?low \<longrightarrow> itoa_reverse (m1(ptr := 0)) ?low (ptr - 1) a = ?m a"
    unfolding n_def using itoa_body [OF assms(1,2)] by metis
  let ?m' = "itoa_reverse (m1(ptr := 0)) ?low (ptr - 1)" and ?ds = "rev (rdigits b n)"
  have result: "itoa m v str (int b) = Some (?m', str)"
    using assms(1,2) run by (cases ?neg) (auto simp add: itoa_def)
  have string: "cstr ?m' str ((if ?neg then bytes ''-'' else []) @ map itoa_char ?ds)"
  proof (cases ?neg)
    case True
    have "str < str + 1" by (simp add: word_less_nat_alt low1)
    then have "?m' str = 0x2d" using keep True by simp
    then show ?thesis using True str by simp
  next
    case False
    show ?thesis using str unfolding if_not_P [OF False] by simp
  qed
  have value_of: "foldl (\<lambda>a d. b * a + d) 0 ?ds = nat \<bar>v\<bar>"
    unfolding foldl_conv_foldr rev_rev_ident n_def using assms(1) by (rule rdigits_value)
  have lead: "hd ?ds = 0 \<longrightarrow> v = 0"
    using rdigits_last [OF assms(1), of n] unfolding n_def hd_rev by linarith
  have small: "\<forall>d \<in> set ?ds. d < b" using rdigits_small [OF assms(1)] by simp
  show ?thesis
    by (intro exI conjI, rule result, rule string, rule value_of) (use len lead small in simp_all)
qed

theorem itoa_renders_witness:
  "\<exists>m' ds. itoa (\<lambda>_. 0) (- 42) 0x1000 (int 10) = Some (m', 0x1000) \<and>
    cstr m' 0x1000 ((if (- 42 :: int) < 0 \<and> (10 :: nat) = 10 then bytes ''-'' else []) @ map itoa_char ds) \<and>
    foldl (\<lambda>a d. 10 * a + d) 0 ds = nat \<bar>- 42\<bar> \<and> ds \<noteq> [] \<and> length ds \<le> 32 \<and>
    (\<forall>d \<in> set ds. d < 10) \<and> (hd ds = 0 \<longrightarrow> (- 42 :: int) = 0)"
  by (rule itoa_renders) simp_all

text \<open>C23. The size field of a tar header is read back exactly: the octal digits of a size below
  \<open>8 ^ k\<close> (at most 12 of them, followed by a non-digit when there are fewer) are turned by
  \<open>stoi\<close> and \<open>oct2dec\<close> into that size.\<close>

theorem tar_size_field:
  assumes "k \<le> 12" and "n < 8 ^ k"
    and "\<forall>i < k. m (p + of_nat i) = digit_char (octal_digits k n ! i)"
    and "k = 12 \<or> \<not> is_digit (m (p + of_nat k))"
  shows "oct2dec (stoi m p) = of_nat n"
proof -
  let ?ds = "octal_digits k n"
  have small: "\<forall>d \<in> set ?ds. d < 10" using octal_digits_small by fastforce
  have "stoi_loop m p 0 (of_nat 0) = of_nat (foldl (\<lambda>a d. 10 * a + d) 0 ?ds)"
    using assms small by (intro stoi_loop_digits) simp_all
  then have read: "stoi m p = of_nat (foldl (\<lambda>a d. 10 * a + d) 0 ?ds)" by (simp add: stoi_def)
  have "foldl (\<lambda>a d. 10 * a + d) 0 ?ds < 10 ^ length ?ds"
    using small by (rule foldl_decimal_bound)
  also have "\<dots> \<le> (10 :: nat) ^ 12" unfolding length_octal_digits using assms(1) by (intro power_increasing) simp_all
  finally have "unat (stoi m p) = foldl (\<lambda>a d. 10 * a + d) 0 ?ds"
    unfolding read by (intro unat_of_nat64) simp
  then have "octval (unat (stoi m p)) = n"
    using octval_foldl [OF small, of 0] foldl_octal_digits [of k n] assms(2) by simp
  then show ?thesis by (simp add: oct2dec_eq)
qed

definition demo_size_mem :: memory where
  "demo_size_mem = put_bytes (\<lambda>_. 0) 0x1000 (bytes ''0137'')"

theorem tar_size_field_witness: "oct2dec (stoi demo_size_mem 0x1000) = of_nat 95"
proof (rule tar_size_field [of 4])
  have "\<forall>i \<in> set [0..<4]. demo_size_mem (0x1000 + of_nat i) = digit_char (octal_digits 4 95 ! i)"
    by code_simp
  then show "\<forall>i < 4. demo_size_mem (0x1000 + of_nat i) = digit_char (octal_digits 4 95 ! i)" by simp
  show "4 = (12 :: nat) \<or> \<not> is_digit (demo_size_mem (0x1000 + of_nat 4))" by code_simp
qed simp_all

text \<open>Rounding: for a nonzero unit, \<open>ROUNDDOWN\<close> yields the greatest multiple of the unit
  that is not above the address, \<open>ROUNDUP\<close> the least multiple not below it as long as the sum
  does not wrap, and \<open>ALIGN_DOWN\<close> agrees with \<open>ROUNDDOWN\<close> for pages.\<close>

lemma rounding_bounds:
  assumes "n \<noteq> 0" and "unat a + unat n \<le> 2 ^ 64"
  shows "unat n dvd unat (ROUNDDOWN a n) \<and> unat (ROUNDDOWN a n) \<le> unat a \<and>
    unat a < unat (ROUNDDOWN a n) + unat n \<and>
    unat n dvd unat (ROUNDUP a n) \<and> unat a \<le> unat (ROUNDUP a n) \<and>
    unat (ROUNDUP a n) < unat a + unat n \<and>
    ALIGN_DOWN a = ROUNDDOWN a PAGE_SIZE"
proof -
  let ?a = "unat a" and ?n = "unat n"
  have n: "0 < ?n" using assms(1) by (simp add: unat_gt_0)
  have down: "?n dvd unat (ROUNDDOWN b n) \<and> unat (ROUNDDOWN b n) \<le> unat b \<and>
      unat b < unat (ROUNDDOWN b n) + ?n" for b
    unfolding unat_ROUNDDOWN using mod_less_divisor [OF n, of "unat b"] mod_less_eq_dividend [of "unat b" ?n]
    by (intro conjI dvd_minus_mod) linarith+
  have "a + n - 1 = of_nat (?a + (?n - 1))" using n by (simp add: of_nat_diff)
  then have "unat (a + n - 1) = ?a + (?n - 1)"
    using assms(2) n by (simp only: unat_of_nat64)
  then show ?thesis
    using down [of a] down [of "a + n - 1"] n
    unfolding ROUNDUP_def ALIGN_DOWN_ROUNDDOWN by (intro conjI) (simp_all, linarith+)
qed

end
