(* ===== verification/Console.thy ===== *)
theory Console
  imports Kern_Utils
begin

text \<open>
  The text console: \<open>sys/kprintf.c\<close>, \<open>sys/putch.c\<close> and \<open>clear_screen\<close> of
  \<open>sys/process.c\<close>. The cursor \<open>x\<close>, \<open>y\<close> and the flag \<open>print_to_screen\<close> are fields of the
  state; the 80 by 25 cells of the screen are the words at \<open>VIDEO_ADDR\<close> in the byte store, and
  the two output buffers are at addresses chosen by the linker, which the state records. A
  format is a C string constant, hence a byte list; variadic arguments are a list of 64 bit
  values, and a format that asks for more of them than there are has no result.
\<close>

section \<open>State\<close>

record kmem =
  store :: memory

record console = kmem +
  con_x :: int
  con_y :: int
  print_to_screen :: bool
  kprintf_buf :: u64
  timer_buf :: u64

abbreviation TABSPACE :: int where
  "TABSPACE \<equiv> 4"

abbreviation HOR_BITS :: int where
  "HOR_BITS \<equiv> 80"

abbreviation VERT_BITS :: int where
  "VERT_BITS \<equiv> 24"

abbreviation TIMER_X :: int where
  "TIMER_X \<equiv> 60"

abbreviation VIDEO_ADDR :: u64 where
  "VIDEO_ADDR \<equiv> 0xFFFFFFFF800B8000"

abbreviation char_newline :: u8 where
  "char_newline \<equiv> 0x0a"

abbreviation char_tab :: u8 where
  "char_tab \<equiv> 0x09"

abbreviation char_backspace :: u8 where
  "char_backspace \<equiv> 0x08"

abbreviation char_space :: u8 where
  "char_space \<equiv> 0x20"

section \<open>Formatting\<close>

definition hex_digits :: "u8 list" where
  "hex_digits = bytes ''0123456789abcdef''"

partial_function (option) vasprintf_str ::
  "memory \<Rightarrow> u64 \<Rightarrow> nat \<Rightarrow> u64 \<Rightarrow> (memory \<times> nat) option" where
  "vasprintf_str m buf ptr s =
     (if m s = 0 then Some (m, ptr)
      else vasprintf_str (m(buf + of_nat ptr := m s)) buf (Suc ptr) (s + 1))"

fun vasprintf_hex :: "memory \<Rightarrow> u64 \<Rightarrow> nat \<Rightarrow> u64 \<Rightarrow> nat \<Rightarrow> memory \<times> nat" where
  "vasprintf_hex m buf ptr value 0 = (m, ptr)"
| "vasprintf_hex m buf ptr value (Suc j) =
     vasprintf_hex (m(buf + of_nat ptr := hex_digits ! unat (drop_bit (j * 4) value AND 0xF)))
       buf (Suc ptr) value j"

function vasprintf_dec :: "memory \<Rightarrow> u64 \<Rightarrow> nat \<Rightarrow> u64 \<Rightarrow> memory \<times> nat" where
  "vasprintf_dec m buf ptr value =
     (if 0 < value
      then let n = ucast (value div 10) :: u32; r = value mod 10
        in vasprintf_dec (m(buf + of_nat ptr := ucast r + 48)) buf (Suc ptr) (ucast n)
      else (m, ptr))"
  by pat_completeness auto
termination
proof (relation "measure (\<lambda>(m, buf, ptr, value). unat value)")
  fix m :: memory and buf v :: u64 and ptr :: nat and n :: u32 and r :: u64
  assume "0 < v" and n: "n = ucast (v div 10)"
  then have "unat v \<noteq> 0" by (simp add: unat_eq_0)
  have "unat (ucast n :: u64) \<le> unat (v div 10)"
    unfolding n by (simp add: unsigned_ucast_eq unsigned_take_bit_eq take_bit_nat_less_eq_self)
  also have "\<dots> < unat v" using \<open>unat v \<noteq> 0\<close> by (simp add: unat_div div_less_dividend)
  finally show "((m(buf + of_nat ptr := ucast r + 48), buf, Suc ptr, ucast n), m, buf, ptr, v)
      \<in> measure (\<lambda>(m, buf, ptr, value). unat value)"
    by simp
qed simp

declare vasprintf_dec.simps [simp del]

definition vasprintf_conv ::
  "memory \<Rightarrow> u64 \<Rightarrow> nat \<Rightarrow> u8 \<Rightarrow> u64 list \<Rightarrow> (memory \<times> nat \<times> u64 list) option" where
  "vasprintf_conv m buf ptr c args =
     (if c = of_char CHR ''s'' then
        (case args of [] \<Rightarrow> None
         | s # rest \<Rightarrow> do { (m', ptr') \<leftarrow> vasprintf_str m buf ptr s; Some (m', ptr', rest) })
      else if c = of_char CHR ''c'' then
        (case args of [] \<Rightarrow> None
         | v # rest \<Rightarrow> Some (m(buf + of_nat ptr := ucast v), Suc ptr, rest))
      else if c = of_char CHR ''x'' then
        (case args of [] \<Rightarrow> None
         | v # rest \<Rightarrow> let (m', ptr') = vasprintf_hex m buf ptr v 8 in Some (m', ptr', rest))
      else if c = of_char CHR ''d'' then
        (case args of [] \<Rightarrow> None
         | v # rest \<Rightarrow> let (m', ptr') = vasprintf_dec m buf ptr v in Some (m', ptr', rest))
      else if c = of_char CHR ''p'' then
        (case args of [] \<Rightarrow> None
         | v # rest \<Rightarrow>
             let m0 = m(buf + of_nat ptr := of_char CHR ''0'',
                        buf + of_nat (Suc ptr) := of_char CHR ''x'');
                 (m', ptr') = vasprintf_hex m0 buf (Suc (Suc ptr)) v 8
             in Some (m', ptr', rest))
      else Some (m(buf + of_nat ptr := c), Suc ptr, args))"

fun vasprintf_loop ::
  "memory \<Rightarrow> u64 \<Rightarrow> nat \<Rightarrow> u8 list \<Rightarrow> u64 list \<Rightarrow> (memory \<times> nat) option" where
  "vasprintf_loop m buf ptr [] args = Some (m, ptr)"
| "vasprintf_loop m buf ptr (c # cs) args =
     (if c = 0 then Some (m, ptr)
      else if c \<noteq> of_char CHR ''%'' then
        vasprintf_loop (m(buf + of_nat ptr := c)) buf (Suc ptr) cs args
      else (case cs of
          [] \<Rightarrow> do {
            (m', ptr', _) \<leftarrow> vasprintf_conv m buf ptr 0 args;
            Some (m', ptr')
          }
        | d # ds \<Rightarrow> do {
            (m', ptr', args') \<leftarrow> vasprintf_conv m buf ptr d args;
            vasprintf_loop m' buf ptr' ds args'
          }))"

definition vasprintf :: "memory \<Rightarrow> u64 \<Rightarrow> u8 list \<Rightarrow> u64 list \<Rightarrow> memory option" where
  "vasprintf m buf fmt args = do {
     (m', ptr) \<leftarrow> vasprintf_loop m buf 0 fmt args;
     Some (m'(buf + of_nat ptr := 0))
   }"

section \<open>Characters on the screen\<close>

definition video_cell :: "int \<Rightarrow> int \<Rightarrow> u64" where
  "video_cell x y = VIDEO_ADDR + of_int (2 * (y * 80 + x))"

definition placechar :: "u8 \<Rightarrow> int \<Rightarrow> int \<Rightarrow> u16 \<Rightarrow> 'a kmem_scheme \<Rightarrow> 'a kmem_scheme" where
  "placechar c x y attr s =
     s\<lparr>store := store16 (store s) (video_cell x y) (ucast c OR push_bit 8 attr)\<rparr>"

partial_function (option) print_timer_chars ::
  "int \<Rightarrow> int \<Rightarrow> u64 \<Rightarrow> 'a kmem_scheme \<Rightarrow> 'a kmem_scheme option" where
  "print_timer_chars x_coord y_coord c s =
     (if store s c = 0 then Some s
      else print_timer_chars (x_coord + 1) y_coord (c + 1)
        (placechar (store s c) x_coord y_coord 0x07 s))"

definition print_timer ::
  "u8 list \<Rightarrow> u64 list \<Rightarrow> 'a console_scheme \<Rightarrow> 'a console_scheme option" where
  "print_timer fmt args s = do {
     m \<leftarrow> vasprintf (store s) (timer_buf s) fmt args;
     let s' = s\<lparr>store := m\<rparr>;
     if print_to_screen s' then print_timer_chars TIMER_X VERT_BITS (timer_buf s) s' else Some s'
   }"

text \<open>The three wrap-around steps that \<open>kprintf\<close>, \<open>putc\<close> and \<open>putch\<close> share at the head of
  their bodies, and the treatment of a backspace or any other character at the end.\<close>

definition wrap_cursor :: "'a console_scheme \<Rightarrow> 'a console_scheme" where
  "wrap_cursor s =
     (let s1 = (if con_x s = HOR_BITS then s\<lparr>con_x := 0, con_y := con_y s + 1\<rparr> else s)
      in if con_y s1 = VERT_BITS then s1\<lparr>con_y := 0, con_x := 0\<rparr> else s1)"

definition emit_char :: "u8 \<Rightarrow> 'a console_scheme \<Rightarrow> 'a console_scheme" where
  "emit_char c s =
     (if c = char_backspace then
        (let s1 = placechar char_space (con_x s) (con_y s) 0x07 s
         in if con_x s = 0 \<and> con_y s \<noteq> 0
            then s1\<lparr>con_y := con_y s - 1, con_x := HOR_BITS\<rparr>
            else s1\<lparr>con_x := con_x s - 1\<rparr>)
      else (placechar c (con_x s) (con_y s) 0x07 s)\<lparr>con_x := con_x s + 1\<rparr>)"

definition newline_step :: "u8 \<Rightarrow> 'a console_scheme \<Rightarrow> 'a console_scheme" where
  "newline_step c s = (if c = char_newline then s\<lparr>con_x := 0, con_y := con_y s + 1\<rparr> else s)"

definition tab_step :: "u8 \<Rightarrow> 'a console_scheme \<Rightarrow> 'a console_scheme" where
  "tab_step c s =
     (if c = char_tab then
        (let d = (con_x s + TABSPACE) - HOR_BITS
         in if d = 0 then s\<lparr>con_x := 4, con_y := con_y s + 1\<rparr>
            else if d = 1 then s\<lparr>con_x := 3, con_y := con_y s + 1\<rparr>
            else if d = 2 then s\<lparr>con_x := 2, con_y := con_y s + 1\<rparr>
            else if d = 3 then s\<lparr>con_x := 1, con_y := con_y s + 1\<rparr>
            else if d = 4 then s\<lparr>con_x := 0, con_y := con_y s + 1\<rparr>
            else s\<lparr>con_x := con_x s + TABSPACE\<rparr>)
      else s)"

definition kprintf_char :: "u8 \<Rightarrow> 'a console_scheme \<Rightarrow> 'a console_scheme" where
  "kprintf_char c s = emit_char c (newline_step c (wrap_cursor s))"

partial_function (option) kprintf_chars ::
  "u64 \<Rightarrow> 'a console_scheme \<Rightarrow> 'a console_scheme option" where
  "kprintf_chars c s =
     (if store s c = 0 then Some s else kprintf_chars (c + 1) (kprintf_char (store s c) s))"

definition kprintf ::
  "u8 list \<Rightarrow> u64 list \<Rightarrow> 'a console_scheme \<Rightarrow> 'a console_scheme option" where
  "kprintf fmt args s = do {
     m \<leftarrow> vasprintf (store s) (kprintf_buf s) fmt args;
     let s' = s\<lparr>store := m\<rparr>;
     if print_to_screen s' then kprintf_chars (kprintf_buf s) s' else Some s'
   }"

definition putc :: "u8 \<Rightarrow> 'a console_scheme \<Rightarrow> int \<times> 'a console_scheme" where
  "putc c s = (sint c, emit_char c (tab_step c (newline_step c (wrap_cursor s))))"

definition putch :: "u8 \<Rightarrow> 'a console_scheme \<Rightarrow> 'a console_scheme" where
  "putch c s = emit_char c (tab_step c (newline_step c (wrap_cursor s)))"

fun clear_column :: "int \<Rightarrow> nat \<Rightarrow> nat \<Rightarrow> 'a kmem_scheme \<Rightarrow> 'a kmem_scheme" where
  "clear_column i j 0 s = s"
| "clear_column i j (Suc k) s = clear_column i (Suc j) k (placechar char_space i (int j) 0x7 s)"

fun clear_columns :: "nat \<Rightarrow> nat \<Rightarrow> 'a kmem_scheme \<Rightarrow> 'a kmem_scheme" where
  "clear_columns i 0 s = s"
| "clear_columns i (Suc k) s = clear_columns (Suc i) k (clear_column (int i) 0 25 s)"

definition clear_screen :: "'a kmem_scheme \<Rightarrow> 'a kmem_scheme" where
  "clear_screen s = placechar 0 0 0 0x7 (clear_columns 0 80 s)"

section \<open>What a format denotes\<close>

text \<open>
  The text of a format, as a function of the format, of the arguments and of the C strings that
  some addresses point to. It is the specification of \<open>vasprintf\<close>: no memory is written. A \<open>%d\<close>
  has no text for a value whose tenth does not fit 32 bits.
\<close>

definition hex_text :: "u64 \<Rightarrow> nat \<Rightarrow> u8 list" where
  "hex_text v n = map (\<lambda>j. hex_digits ! unat (drop_bit (j * 4) v AND 0xF)) (rev [0..<n])"

text \<open>A number has a decimal text, most significant digit first. What the loop of \<open>%d\<close> writes is not that text: the
  digits come in the order in which they are split off, so that 12 is shown as 21, and 0 is shown as nothing.
  The denotation of a format therefore takes the text of a number as an argument: with \<open>dec_text\<close> it is what the
  format is meant to say, with \<open>dec_shown\<close> what \<open>vasprintf\<close> writes.\<close>

fun dec_text :: "nat \<Rightarrow> u8 list" where
  "dec_text n = (if n < 10 then [digit_char n] else dec_text (n div 10) @ [digit_char (n mod 10)])"

declare dec_text.simps [simp del]

definition dec_shown :: "nat \<Rightarrow> u8 list" where
  "dec_shown n = (if n = 0 then [] else rev (dec_text n))"

definition conv_text ::
  "(nat \<Rightarrow> u8 list) \<Rightarrow> (u64 \<rightharpoonup> u8 list) \<Rightarrow> u8 \<Rightarrow> u64 list \<Rightarrow> (u8 list \<times> u64 list) option" where
  "conv_text dec strs c args =
     (if c \<in> set (bytes ''scxdp'') then
        (case args of [] \<Rightarrow> None
         | v # rest \<Rightarrow>
             if c = of_char CHR ''s'' then map_option (\<lambda>t. (t, rest)) (strs v)
             else if c = of_char CHR ''c'' then Some ([ucast v], rest)
             else if c = of_char CHR ''x'' then Some (hex_text v 8, rest)
             else if c = of_char CHR ''d'' then
               (if unat v div 10 < 2 ^ 32 then Some (dec (unat v), rest) else None)
             else Some (bytes ''0x'' @ hex_text v 8, rest))
      else Some ([c], args))"

fun format_text ::
  "(nat \<Rightarrow> u8 list) \<Rightarrow> (u64 \<rightharpoonup> u8 list) \<Rightarrow> u8 list \<Rightarrow> u64 list \<Rightarrow> u8 list option" where
  "format_text dec strs [] args = Some []"
| "format_text dec strs (c # cs) args =
     (if c = 0 then Some []
      else if c \<noteq> of_char CHR ''%'' then map_option ((#) c) (format_text dec strs cs args)
      else (case cs of
          [] \<Rightarrow> map_option fst (conv_text dec strs 0 args)
        | d # ds \<Rightarrow> do {
            (t, args') \<leftarrow> conv_text dec strs d args;
            rest \<leftarrow> format_text dec strs ds args';
            Some (t @ rest)
          }))"

text \<open>A format without \<open>%d\<close> denotes the same text with both.\<close>

fun no_decimals :: "u8 list \<Rightarrow> bool" where
  "no_decimals [] \<longleftrightarrow> True"
| "no_decimals (c # cs) \<longleftrightarrow>
     (if c = of_char CHR ''%'' then (case cs of [] \<Rightarrow> True | d # ds \<Rightarrow> d \<noteq> of_char CHR ''d'' \<and> no_decimals ds)
      else no_decimals cs)"

lemma conv_text_no_decimal: "c \<noteq> of_char CHR ''d'' \<Longrightarrow> conv_text dec strs c args = conv_text dec' strs c args"
  by (simp add: conv_text_def split: list.split)

lemma format_text_no_decimals: "no_decimals fmt \<Longrightarrow> format_text dec strs fmt args = format_text dec' strs fmt args"
proof (induction dec strs fmt args rule: format_text.induct)
  case (2 dec strs c cs args)
  show ?case
  proof (cases "c = of_char CHR ''%'' \<and> cs \<noteq> []")
    case True
    then obtain d ds where cs: "cs = d # ds" by (cases cs) auto
    have d: "d \<noteq> of_char CHR ''d''" "no_decimals ds" using 2(3) True cs by simp_all
    have "format_text dec strs ds xs = format_text dec' strs ds xs" if "conv_text dec strs d args = Some (t, xs)" for t xs
      using 2(2) [of d ds "(t, xs)" t xs] True cs that d(2) by simp
    then show ?thesis
      using True cs conv_text_no_decimal [OF d(1), of dec strs args dec']
      by (cases "conv_text dec' strs d args") auto
  next
    case False
    then show ?thesis
      using 2(1,3) conv_text_no_decimal [of 0 dec strs args dec'] by (cases cs) auto
  qed
qed simp

section \<open>Formatting into the buffer\<close>

lemma put_bytes_snoc:
  "(put_bytes m buf out)(buf + of_nat (length out) := c) = put_bytes m buf (out @ [c])"
  by (simp add: put_bytes_append)

lemma vasprintf_str_copy:
  assumes str: "cstr m s t" and dis: "disjoint_regions buf cap s (Suc (length t))"
    and len: "length out + length t \<le> cap" and cap: "cap \<le> 2 ^ 64"
  shows "vasprintf_str (put_bytes m buf out) buf (length out) s =
    Some (put_bytes m buf (out @ t), length out + length t)"
proof -
  have intact: "cstr (put_bytes m buf (out @ take i t)) s t" for i
    using len cap by (intro cstr_put_bytes_disjoint [OF str] disjoint_regions_mono [OF dis]) simp_all
  have "vasprintf_str (put_bytes m buf (out @ take i t)) buf (length out + i) (s + of_nat i) =
      Some (put_bytes m buf (out @ t), length out + length t)" if "i \<le> length t" for i
    using that
  proof (induction "length t - i" arbitrary: i)
    case 0
    then have "i = length t" by simp
    then show ?case using cstr_end [OF intact [of i]] by (subst vasprintf_str.simps) simp
  next
    case (Suc k)
    let ?m = "put_bytes m buf (out @ take i t)"
    have i: "i < length t" using Suc by simp
    have c: "?m (s + of_nat i) = t ! i" using cstr_nth [OF intact i] .
    have nz: "t ! i \<noteq> 0" using cstr_nonzero [OF str] i by (metis nth_mem)
    have upd: "?m(buf + of_nat (length out + i) := t ! i) = put_bytes m buf (out @ take (Suc i) t)"
      using put_bytes_snoc [of m buf "out @ take i t" "t ! i"] i by (simp add: take_Suc_conv_app_nth)
    have "s + of_nat i + 1 = s + of_nat (Suc i)" by simp
    moreover have "vasprintf_str (put_bytes m buf (out @ take (Suc i) t)) buf (length out + Suc i)
        (s + of_nat (Suc i)) = Some (put_bytes m buf (out @ t), length out + length t)"
      using Suc.hyps i by (intro Suc.hyps(1)) simp_all
    ultimately show ?case
      using nz by (subst vasprintf_str.simps) (simp only: c upd if_False add_Suc_right simp_thms)
  qed
  from this [of 0] show ?thesis by simp
qed

lemma hex_text_Suc: "hex_text v (Suc n) = hex_digits ! unat (drop_bit (n * 4) v AND 0xF) # hex_text v n"
  by (simp add: hex_text_def)

lemma vasprintf_hex_put:
  "vasprintf_hex (put_bytes m buf out) buf (length out) v n =
   (put_bytes m buf (out @ hex_text v n), length out + n)"
proof (induction n arbitrary: out)
  case 0
  then show ?case by (simp add: hex_text_def)
next
  case (Suc n)
  let ?c = "hex_digits ! unat (drop_bit (n * 4) v AND 0xF)"
  show ?case
    using Suc.IH [of "out @ [?c]"] by (simp add: put_bytes_snoc hex_text_Suc)
qed

lemma dec_digit: "ucast (v mod 10 :: u64) + 48 = digit_char (unat v mod 10)"
proof -
  have "(ucast (v mod 10) :: u8) = of_nat (unat (v mod 10))" by (simp only: of_nat_unat)
  also have "\<dots> = of_nat (unat v mod 10)" by (simp add: unat_mod)
  finally show ?thesis unfolding digit_char_def by (simp only: of_nat_add of_nat_numeral add.commute)
qed

lemma dec_shown_step: "0 < n \<Longrightarrow> dec_shown n = digit_char (n mod 10) # dec_shown (n div 10)"
  using dec_text.simps [of n] by (cases "n < 10") (simp_all add: dec_shown_def div_eq_0_iff)

lemma vasprintf_dec_put:
  "unat v div 10 < 2 ^ 32 \<Longrightarrow>
   vasprintf_dec (put_bytes m buf out) buf (length out) v =
   (put_bytes m buf (out @ dec_shown (unat v)), length out + length (dec_shown (unat v)))"
proof (induction "unat v" arbitrary: v out rule: less_induct)
  case less
  show ?case
  proof (cases "v = 0")
    case True
    then show ?thesis by (subst vasprintf_dec.simps) (simp add: dec_shown_def)
  next
    case False
    let ?n = "ucast (ucast (v div 10) :: u32) :: u64" and ?c = "digit_char (unat v mod 10)"
    have pos: "0 < unat v" using False by (simp add: unat_gt_0)
    have "unat ?n = take_bit 32 (unat (v div 10))" by (simp add: unsigned_ucast_eq unsigned_take_bit_eq)
    also have "\<dots> = unat v div 10" using less.prems by (simp add: unat_div take_bit_nat_eq_self)
    finally have n: "unat ?n = unat v div 10" .
    have small: "unat ?n div 10 < 2 ^ 32" using less.prems unfolding n by simp
    have "vasprintf_dec (put_bytes m buf out) buf (length out) v =
        vasprintf_dec (put_bytes m buf (out @ [?c])) buf (length (out @ [?c])) ?n"
      using False [symmetric] by (subst vasprintf_dec.simps)
        (simp only: Let_def dec_digit put_bytes_snoc word_gt_0 simp_thms if_True
          length_append_singleton)
    also have "\<dots> = (put_bytes m buf ((out @ [?c]) @ dec_shown (unat ?n)),
        length (out @ [?c]) + length (dec_shown (unat ?n)))"
      using pos small by (intro less.hyps) (simp_all add: n)
    finally show ?thesis using dec_shown_step [OF pos] by (simp add: n)
  qed
qed

definition strings_apart :: "memory \<Rightarrow> u64 \<Rightarrow> nat \<Rightarrow> (u64 \<rightharpoonup> u8 list) \<Rightarrow> bool" where
  "strings_apart m buf cap strs \<longleftrightarrow>
     (\<forall>a t. strs a = Some t \<longrightarrow> cstr m a t \<and> disjoint_regions buf cap a (Suc (length t)))"

lemma vasprintf_conv_put:
  assumes apart: "strings_apart m buf cap strs" and cap: "cap \<le> 2 ^ 64"
    and conv: "conv_text dec_shown strs c args = Some (t, args')" and len: "length out + length t \<le> cap"
  shows "vasprintf_conv (put_bytes m buf out) buf (length out) c args =
    Some (put_bytes m buf (out @ t), length out + length t, args')"
proof (cases "c \<in> set (bytes ''scxdp'')")
  case False
  then show ?thesis
    using conv by (auto simp add: vasprintf_conv_def conv_text_def put_bytes_snoc)
next
  case True
  then obtain v where args: "args = v # args'"
    using conv by (auto simp add: conv_text_def split: list.splits if_splits)
  consider (s) "c = of_char CHR ''s''" | (c) "c = of_char CHR ''c''" | (x) "c = of_char CHR ''x''"
    | (d) "c = of_char CHR ''d''" | (p) "c = of_char CHR ''p''"
    using True by auto
  then show ?thesis
  proof cases
    case s
    then have "strs v = Some t" using conv args by (auto simp add: conv_text_def)
    then have "cstr m v t" "disjoint_regions buf cap v (Suc (length t))"
      using apart by (auto simp add: strings_apart_def)
    then show ?thesis using vasprintf_str_copy len cap s args by (simp add: vasprintf_conv_def)
  next
    case c
    then show ?thesis using conv args by (auto simp add: vasprintf_conv_def conv_text_def put_bytes_snoc)
  next
    case x
    then have "t = hex_text v 8" using conv args by (simp add: conv_text_def)
    then show ?thesis
      using x args vasprintf_hex_put [of m buf out v 8] by (simp add: vasprintf_conv_def hex_text_def)
  next
    case d
    then have "t = dec_shown (unat v)" "unat v div 10 < 2 ^ 32"
      using conv args by (simp_all add: conv_text_def split: if_splits)
    then show ?thesis using d args vasprintf_dec_put by (simp add: vasprintf_conv_def)
  next
    case p
    let ?out = "out @ bytes ''0x''"
    have t: "t = bytes ''0x'' @ hex_text v 8" using p conv args by (simp add: conv_text_def)
    have "(put_bytes m buf out)(buf + of_nat (length out) := of_char CHR ''0'',
        buf + of_nat (Suc (length out)) := of_char CHR ''x'') = put_bytes m buf ?out"
      by (simp add: put_bytes_append algebra_simps)
    then show ?thesis
      using p args t vasprintf_hex_put [of m buf ?out v 8]
      by (simp add: vasprintf_conv_def hex_text_def)
  qed
qed

lemma vasprintf_loop_put:
  assumes "cap \<le> 2 ^ 64" and "strings_apart m buf cap strs"
    and "format_text dec_shown strs fmt args = Some t" and "length out + length t \<le> cap"
  shows "vasprintf_loop (put_bytes m buf out) buf (length out) fmt args =
    Some (put_bytes m buf (out @ t), length out + length t)"
  using assms
proof (induction dec_shown strs fmt args arbitrary: out t rule: format_text.induct)
  case (1 strs args)
  then show ?case by simp
next
  case (2 strs c cs args)
  note conv_put = vasprintf_conv_put [OF "2.prems"(2,1)]
  consider (nul) "c = 0" | (plain) "c \<noteq> 0" "c \<noteq> of_char CHR ''%''"
    | (last) "c = of_char CHR ''%''" "cs = []"
    | (conv) d ds where "c = of_char CHR ''%''" "cs = d # ds"
    by (cases cs) auto
  then show ?case
  proof cases
    case nul
    then show ?thesis using "2.prems" by simp
  next
    case plain
    then obtain t' where t: "t = c # t'" "format_text dec_shown strs cs args = Some t'"
      using "2.prems"(3) by auto
    have "vasprintf_loop (put_bytes m buf (out @ [c])) buf (length (out @ [c])) cs args =
        Some (put_bytes m buf ((out @ [c]) @ t'), length (out @ [c]) + length t')"
      using "2.prems" plain t by (intro "2.hyps"(1)) simp_all
    then show ?thesis using plain t by (simp add: put_bytes_snoc)
  next
    case last
    then obtain args' where "conv_text dec_shown strs 0 args = Some (t, args')"
      using "2.prems"(3) by auto
    from conv_put [OF this "2.prems"(4)] show ?thesis using last by simp
  next
    case (conv d ds)
    then obtain t1 args' t2 where 1: "conv_text dec_shown strs d args = Some (t1, args')"
      and 2: "format_text dec_shown strs ds args' = Some t2" and t: "t = t1 @ t2"
      using "2.prems"(3) by (auto split: Option.bind_splits)
    have first: "vasprintf_conv (put_bytes m buf out) buf (length out) d args =
        Some (put_bytes m buf (out @ t1), length out + length t1, args')"
      using "2.prems"(4) t by (intro conv_put [OF 1]) simp
    have "vasprintf_loop (put_bytes m buf (out @ t1)) buf (length (out @ t1)) ds args' =
        Some (put_bytes m buf ((out @ t1) @ t2), length (out @ t1) + length t2)"
      using "2.prems" conv 1 2 t by (intro "2.hyps"(2)) simp_all
    then show ?thesis using conv first t by (simp add: add.assoc)
  qed
qed

text \<open>With room for the text and its NUL, and the strings among the arguments away from the
  buffer, \<open>vasprintf\<close> leaves exactly the text of the format there.\<close>

lemma vasprintf_put:
  assumes "strings_apart m buf cap strs" and "cap \<le> 2 ^ 64"
    and "format_text dec_shown strs fmt args = Some t" and "length t < cap"
  shows "vasprintf m buf fmt args = Some (put_bytes m buf (t @ [0]))"
  using vasprintf_loop_put [of cap m buf strs fmt args t "[]"] assms
  by (simp add: vasprintf_def put_bytes_snoc)

section \<open>The cursor and the video memory\<close>

definition in_video :: "u64 \<Rightarrow> bool" where
  "in_video a \<longleftrightarrow> unat (a - VIDEO_ADDR) < 4000"

definition screen_ok :: "'a console_scheme \<Rightarrow> bool" where
  "screen_ok s \<longleftrightarrow> 0 \<le> con_x s \<and> con_x s \<le> 80 \<and> 0 \<le> con_y s \<and> con_y s \<le> 24 \<and>
     (con_y s = 24 \<longrightarrow> con_x s < 80)"

text \<open>The one situation in which a step leaves the screen: a backspace at the first cell.\<close>

definition leaves_screen :: "u8 \<Rightarrow> 'a console_scheme \<Rightarrow> bool" where
  "leaves_screen c s \<longleftrightarrow>
     c = char_backspace \<and> con_x (wrap_cursor s) = 0 \<and> con_y (wrap_cursor s) = 0"

lemma video_cell_nat:
  "0 \<le> x \<Longrightarrow> 0 \<le> y \<Longrightarrow> video_cell x y = VIDEO_ADDR + of_nat (2 * nat (y * 80 + x))"
proof -
  assume "0 \<le> x" and "0 \<le> y"
  then have "2 * (y * 80 + x) = int (2 * nat (y * 80 + x))" by simp
  then show ?thesis unfolding video_cell_def by (simp only: of_int_of_nat_eq)
qed

lemma placechar_outside:
  assumes "0 \<le> x" "x < 80" "0 \<le> y" "y \<le> 24" and "\<not> in_video a"
  shows "store (placechar c x y attr s) a = store s a"
proof -
  define k where "k = 2 * nat (y * 80 + x)"
  have k: "k \<le> 3998" using assms unfolding k_def by simp
  have far: "4000 \<le> unat (a - VIDEO_ADDR)" using assms(5) by (simp add: in_video_def)
  have cell: "a - video_cell x y = (a - VIDEO_ADDR) - of_nat k"
    using assms(1,3) unfolding k_def by (simp only: video_cell_nat diff_diff_eq)
  have uk: "unat (of_nat k :: u64) = k" using k by (intro unat_of_nat64) simp
  then have "of_nat k \<le> a - VIDEO_ADDR" using far k unfolding word_le_nat_alt by linarith
  then have "unat (a - video_cell x y) = unat (a - VIDEO_ADDR) - k"
    unfolding cell by (subst unat_sub) (simp_all only: uk)
  then have "2 \<le> unat (a - video_cell x y)" using k far by linarith
  then show ?thesis by (simp add: placechar_def store_outside)
qed

lemma placechar_inside:
  "load16 (store (placechar c x y attr s)) (video_cell x y) = ucast c OR push_bit 8 attr"
  by (simp add: placechar_def load_store_same)

lemma placechar_fields [simp]:
  "con_x (placechar c x y attr s) = con_x s" "con_y (placechar c x y attr s) = con_y s"
  "kprintf_buf (placechar c x y attr s) = kprintf_buf s"
  "timer_buf (placechar c x y attr s) = timer_buf s"
  "print_to_screen (placechar c x y attr s) = print_to_screen s"
  by (simp_all add: placechar_def)

lemma wrap_cursor_ok:
  "screen_ok s \<Longrightarrow> 0 \<le> con_x (wrap_cursor s) \<and> con_x (wrap_cursor s) < 80 \<and>
     0 \<le> con_y (wrap_cursor s) \<and> con_y (wrap_cursor s) < 24"
  by (auto simp add: screen_ok_def wrap_cursor_def Let_def)

lemma wrap_cursor_fields [simp]:
  "store (wrap_cursor s) = store s" "kprintf_buf (wrap_cursor s) = kprintf_buf s"
  by (simp_all add: wrap_cursor_def Let_def)

lemma newline_step_fields [simp]:
  "store (newline_step c s) = store s" "kprintf_buf (newline_step c s) = kprintf_buf s"
  by (simp_all add: newline_step_def)

lemma tab_step_fields [simp]:
  "store (tab_step c s) = store s" "kprintf_buf (tab_step c s) = kprintf_buf s"
  by (simp_all add: tab_step_def Let_def)

lemma emit_char_fields [simp]: "kprintf_buf (emit_char c s) = kprintf_buf s"
  by (simp add: emit_char_def Let_def)

text \<open>Where the cursor may stand when a character is written, after the control characters
  have moved it.\<close>

definition cursor_visible :: "'a console_scheme \<Rightarrow> bool" where
  "cursor_visible s \<longleftrightarrow> 0 \<le> con_x s \<and> con_x s < 80 \<and> 0 \<le> con_y s \<and> con_y s \<le> 24 \<and>
     (con_y s = 24 \<longrightarrow> con_x s < 5)"

lemma cursor_visible_newline: "screen_ok s \<Longrightarrow> cursor_visible (newline_step c (wrap_cursor s))"
  using wrap_cursor_ok [of s] by (auto simp add: cursor_visible_def newline_step_def)

lemma cursor_visible_tab:
  assumes "screen_ok s"
  shows "cursor_visible (tab_step c (newline_step c (wrap_cursor s)))"
proof (cases "c = char_tab")
  case True
  then have "newline_step c (wrap_cursor s) = wrap_cursor s" by (simp add: newline_step_def)
  then show ?thesis
    using True wrap_cursor_ok [OF assms]
    by (auto simp add: cursor_visible_def tab_step_def Let_def)
next
  case False
  then show ?thesis using cursor_visible_newline [OF assms, of c] by (simp add: tab_step_def)
qed

lemma emit_char_outside:
  "cursor_visible s \<Longrightarrow> \<not> in_video a \<Longrightarrow> store (emit_char c s) a = store s a"
  by (simp add: emit_char_def cursor_visible_def Let_def placechar_outside)

lemma emit_char_ok:
  assumes "cursor_visible s" and "c = char_backspace \<longrightarrow> con_y s < 24"
    and "\<not> (c = char_backspace \<and> con_x s = 0 \<and> con_y s = 0)"
  shows "screen_ok (emit_char c s)"
  using assms by (auto simp add: emit_char_def cursor_visible_def screen_ok_def Let_def)

section \<open>The interface of the character devices\<close>

text \<open>
  Three routines write one character: the body of the loop of \<open>kprintf\<close>, \<open>putc\<close> and
  \<open>putch\<close>. What their clients rely on is the same for the three: the cursor stays on the screen
  unless the step is a backspace at the first cell, and only video memory is written.
\<close>

locale char_device =
  fixes step :: "u8 \<Rightarrow> 'a console_scheme \<Rightarrow> 'a console_scheme"
  assumes step_ok: "screen_ok s \<Longrightarrow> \<not> leaves_screen c s \<Longrightarrow> screen_ok (step c s)"
    and step_outside: "screen_ok s \<Longrightarrow> \<not> in_video a \<Longrightarrow> store (step c s) a = store s a"
    and step_buf: "kprintf_buf (step c s) = kprintf_buf s"
begin

lemma run_ok: "screen_ok s \<Longrightarrow> char_backspace \<notin> set cs \<Longrightarrow> screen_ok (fold step cs s)"
  by (induction cs arbitrary: s) (simp_all add: leaves_screen_def step_ok)

lemma run_outside:
  "screen_ok s \<Longrightarrow> char_backspace \<notin> set cs \<Longrightarrow> \<not> in_video a \<Longrightarrow>
   store (fold step cs s) a = store s a"
proof (induction cs arbitrary: s)
  case Nil
  then show ?case by simp
next
  case (Cons c cs)
  have "screen_ok (step c s)" using Cons.prems by (intro step_ok) (auto simp add: leaves_screen_def)
  then show ?case using Cons step_outside [of s a c] by simp
qed

end

interpretation kdev: char_device kprintf_char
proof unfold_locales
  fix s :: "'a console_scheme" and c :: u8 and a :: u64
  let ?s = "newline_step c (wrap_cursor s)"
  show "screen_ok (kprintf_char c s)" if "screen_ok s" "\<not> leaves_screen c s"
    using that cursor_visible_newline [of s c] wrap_cursor_ok [of s] unfolding kprintf_char_def
    by (intro emit_char_ok) (auto simp add: leaves_screen_def newline_step_def)
  show "store (kprintf_char c s) a = store s a" if "screen_ok s" "\<not> in_video a"
    using that cursor_visible_newline [of s c] by (simp add: kprintf_char_def emit_char_outside)
  show "kprintf_buf (kprintf_char c s) = kprintf_buf s" by (simp add: kprintf_char_def)
qed

interpretation tty: char_device putch
proof unfold_locales
  fix s :: "'a console_scheme" and c :: u8 and a :: u64
  show "screen_ok (putch c s)" if "screen_ok s" "\<not> leaves_screen c s"
    using that cursor_visible_tab [of s c] wrap_cursor_ok [of s] unfolding putch_def
    by (intro emit_char_ok) (auto simp add: leaves_screen_def newline_step_def tab_step_def)
  show "store (putch c s) a = store s a" if "screen_ok s" "\<not> in_video a"
    using that cursor_visible_tab [of s c] by (simp add: putch_def emit_char_outside)
  show "kprintf_buf (putch c s) = kprintf_buf s" by (simp add: putch_def)
qed

lemma putc_putch: "putc c s = (sint c, putch c s)"
  by (simp add: putc_def putch_def)

interpretation putc_dev: char_device "\<lambda>c s. snd (putc c s)"
  by unfold_locales (simp_all add: putc_putch tty.step_ok tty.step_outside tty.step_buf)

section \<open>Printing\<close>

lemma kprintf_chars_fold:
  assumes "cstr (store s) c t" and "screen_ok s" and "char_backspace \<notin> set t"
    and "\<And>i. i \<le> length t \<Longrightarrow> \<not> in_video (c + of_nat i)"
  shows "kprintf_chars c s = Some (fold kprintf_char t s)"
  using assms
proof (induction t arbitrary: c s)
  case Nil
  then show ?case by (subst kprintf_chars.simps) simp
next
  case (Cons b t)
  let ?s = "kprintf_char b s"
  have away: "\<not> in_video (c + 1 + of_nat i)" if "i \<le> length t" for i
    using Cons.prems(4) [of "Suc i"] that by (simp only: ptr_Suc length_Cons Suc_le_mono simp_thms)
  have b: "store s c = b" "b \<noteq> 0" and tail: "cstr (store s) (c + 1) t" using Cons.prems(1) by simp_all
  have ok: "screen_ok ?s"
    using Cons.prems by (intro kdev.step_ok) (auto simp add: leaves_screen_def)
  have "cstr (store ?s) (c + 1) t \<longleftrightarrow> cstr (store s) (c + 1) t"
    using away Cons.prems(2) by (intro cstr_cong kdev.step_outside) simp_all
  then have "kprintf_chars (c + 1) ?s = Some (fold kprintf_char t ?s)"
    using tail ok away Cons.prems(3) by (intro Cons.IH) simp_all
  then show ?case using b by (subst kprintf_chars.simps) simp
qed

lemma kprintf_fold:
  assumes ok: "screen_ok s" and on: "print_to_screen s"
    and buf: "disjoint_regions VIDEO_ADDR 4000 (kprintf_buf s) 4096"
    and strs: "strings_apart (store s) (kprintf_buf s) 4096 strs"
    and frm: "format_text dec_shown strs fmt args = Some t" and len: "length t < 4096"
    and chars: "0 \<notin> set t" "char_backspace \<notin> set t"
  shows "kprintf fmt args s =
    Some (fold kprintf_char t (s\<lparr>store := put_bytes (store s) (kprintf_buf s) (t @ [0])\<rparr>))"
proof -
  let ?s = "s\<lparr>store := put_bytes (store s) (kprintf_buf s) (t @ [0])\<rparr>"
  have "vasprintf (store s) (kprintf_buf s) fmt args =
      Some (put_bytes (store s) (kprintf_buf s) (t @ [0]))"
    using strs frm len by (intro vasprintf_put) simp_all
  moreover have "kprintf_chars (kprintf_buf s) ?s = Some (fold kprintf_char t ?s)"
  proof (rule kprintf_chars_fold)
    show "cstr (store ?s) (kprintf_buf s) t" using chars len by (simp add: cstr_put_bytes)
    show "screen_ok ?s" using ok by (simp add: screen_ok_def)
    show "\<not> in_video (kprintf_buf s + of_nat i)" if "i \<le> length t" for i
      using disjoint_offset [OF buf, of i] that len by (simp add: in_video_def)
  qed (rule chars)
  ultimately show ?thesis using on by (simp add: kprintf_def)
qed

lemma kprintf_char_plain:
  assumes "0 \<le> con_x s" "con_x s < 80" "con_y s < 24" "c \<noteq> char_backspace" "c \<noteq> char_newline"
  shows "kprintf_char c s = (placechar c (con_x s) (con_y s) 0x07 s)\<lparr>con_x := con_x s + 1\<rparr>"
  using assms by (simp add: kprintf_char_def wrap_cursor_def newline_step_def emit_char_def)

lemma video_cell_disjoint:
  assumes "0 \<le> x" "x < 80" "0 \<le> x'" "x' < 80" "0 \<le> y" "y \<le> 24" "x \<noteq> x'"
  shows "disjoint_regions (video_cell x y) 2 (video_cell x' y) 2"
proof (rule aligned_disjoint)
  have cell: "unat (video_cell z y) = unat VIDEO_ADDR + 2 * nat (y * 80 + z)" if "0 \<le> z" "z < 80" for z
  proof -
    have "2 * nat (y * 80 + z) \<le> 3998" using that assms(5,6) by simp
    then have "unat VIDEO_ADDR + 2 * nat (y * 80 + z) < 2 ^ 64" by simp
    then show ?thesis unfolding video_cell_nat [OF that(1) assms(5)] by (rule unat_add_of_nat)
  qed
  show "unat (video_cell x y) mod 2 = 0" using cell [OF assms(1,2)] by simp
  show "unat (video_cell x' y) mod 2 = 0" using cell [OF assms(3,4)] by simp
  have "nat (y * 80 + x) \<noteq> nat (y * 80 + x')" using assms by simp
  then have "unat (video_cell x y) \<noteq> unat (video_cell x' y)"
    using cell [OF assms(1,2)] cell [OF assms(3,4)] by simp
  then show "video_cell x y \<noteq> video_cell x' y" by auto
qed simp

lemma load16_placechar_other:
  assumes "0 \<le> x" "x < 80" "0 \<le> x'" "x' < 80" "0 \<le> y" "y \<le> 24" "x \<noteq> x'"
  shows "load16 (store (placechar c x y attr s)) (video_cell x' y) = load16 (store s) (video_cell x' y)"
  using video_cell_disjoint [OF assms]
  by (simp add: placechar_def load16_def store16_def get_put_disjoint)

lemma kprintf_line_fold:
  assumes "0 \<le> con_x s" "con_x s + int (length t) \<le> 80" "0 \<le> con_y s" "con_y s < 24"
    and "char_backspace \<notin> set t" "char_newline \<notin> set t"
  shows "con_x (fold kprintf_char t s) = con_x s + int (length t) \<and>
    con_y (fold kprintf_char t s) = con_y s \<and>
    (\<forall>i < length t. load16 (store (fold kprintf_char t s)) (video_cell (con_x s + int i) (con_y s)) =
      ucast (t ! i) OR 0x700)"
  using assms
proof (induction t rule: rev_induct)
  case Nil
  then show ?case by simp
next
  case (snoc c t)
  let ?r = "fold kprintf_char t s" and ?x = "con_x s + int (length t)"
  have IH: "con_x ?r = ?x" "con_y ?r = con_y s"
    "\<forall>i < length t. load16 (store ?r) (video_cell (con_x s + int i) (con_y s)) = ucast (t ! i) OR 0x700"
    using snoc by simp_all
  have step: "kprintf_char c ?r = (placechar c ?x (con_y s) 0x07 ?r)\<lparr>con_x := ?x + 1\<rparr>"
    using snoc.prems IH(1,2) by (subst kprintf_char_plain) simp_all
  have "load16 (store (kprintf_char c ?r)) (video_cell (con_x s + int i) (con_y s)) =
      ucast ((t @ [c]) ! i) OR 0x700" if "i < Suc (length t)" for i
  proof (cases "i = length t")
    case True
    have "push_bit 8 (0x07 :: u16) = 0x700" by simp
    then show ?thesis using True unfolding step by (simp add: placechar_inside)
  next
    case False
    then show ?thesis
      using snoc.prems IH(3) that unfolding step by (simp add: load16_placechar_other nth_append)
  qed
  then show ?case using step IH(2) by simp
qed

section \<open>Properties\<close>

text \<open>A console in its initial state over the store with three strings.\<close>

definition demo_console :: console where
  "demo_console = \<lparr>store = demo_mem, con_x = 0, con_y = 0, print_to_screen = True,
     kprintf_buf = 0x10000, timer_buf = 0x12000\<rparr>"

definition demo_strs :: "u64 \<rightharpoonup> u8 list" where
  "demo_strs = [0x1000 \<mapsto> bytes ''bin/ls'']"

lemma demo_console_simps:
  "screen_ok demo_console" "print_to_screen demo_console"
  "disjoint_regions VIDEO_ADDR 4000 (kprintf_buf demo_console) 4096"
  "strings_apart (store demo_console) (kprintf_buf demo_console) 4096 demo_strs"
  using demo_strings(1)
  by (simp_all add: demo_console_def screen_ok_def disjoint_regions_def strings_apart_def
      demo_strs_def)



text \<open>The characters of a number are digits, and a number below \<open>10 ^ k\<close> has at most \<open>k\<close> of them.\<close>

lemma dec_text_chars: "c \<in> set (dec_text n) \<Longrightarrow> \<exists>d < 10. c = digit_char d"
proof (induction n rule: dec_text.induct)
  case (1 n)
  show ?case
  proof (cases "n < 10")
    case True
    then show ?thesis using 1 by (auto simp add: dec_text.simps [of n])
  next
    case False
    then have "c \<in> set (dec_text (n div 10)) \<or> c = digit_char (n mod 10)" using 1(2) by (auto simp add: dec_text.simps [of n])
    then show ?thesis using 1(1) [OF False] by (auto intro: exI [of _ "n mod 10"])
  qed
qed

lemma length_dec_text: "n < 10 ^ k \<Longrightarrow> 0 < k \<Longrightarrow> length (dec_text n) \<le> k"
proof (induction k arbitrary: n)
  case (Suc k)
  show ?case
  proof (cases "n < 10")
    case False
    then have "0 < k" using Suc.prems(1) by (cases k) auto
    moreover have "n div 10 < 10 ^ k" using Suc.prems(1) by (simp add: div_less_iff_less_mult)
    ultimately have "length (dec_text (n div 10)) \<le> k" by (rule Suc.IH [rotated])
    then show ?thesis using False by (simp add: dec_text.simps [of n])
  qed (simp add: dec_text.simps [of n])
qed simp

text \<open>\<open>%d\<close> shows a number backwards: the text that reaches the screen is the reverse of the decimal text
  of the number, and for 0 nothing appears at all.\<close>

lemma kprintf_reverses_decimal:
  assumes "screen_ok s" and "print_to_screen s" and "disjoint_regions VIDEO_ADDR 4000 (kprintf_buf s) 4096"
    and "unat v < 2 ^ 32"
  shows "\<exists>t. t = (if v = 0 then [] else rev (dec_text (unat v))) \<and>
    kprintf (bytes ''%d'') [v] s = Some (fold kprintf_char t (s\<lparr>store := put_bytes (store s) (kprintf_buf s) (t @ [0])\<rparr>))"
proof -
  let ?t = "dec_shown (unat v)"
  have t: "?t = (if v = 0 then [] else rev (dec_text (unat v)))" by (simp add: dec_shown_def unat_eq_0)
  have "unat v < 10 ^ 10" using assms(4) by simp
  then have len: "length ?t < 4096" using length_dec_text [of "unat v" 10] by (simp add: dec_shown_def)
  have digits: "\<exists>d < 10. c = digit_char d" if "c \<in> set ?t" for c
    using that dec_text_chars [of c "unat v"] by (simp add: dec_shown_def split: if_splits)
  have small: "d \<in> {0, 1, 2, 3, 4, 5, 6, 7, 8, 9}" if "d < 10" for d :: nat using that by auto
  have "digit_char d \<noteq> 0 \<and> digit_char d \<noteq> char_backspace" if "d < 10" for d
    using small [OF that] by (auto simp add: digit_char_def)
  then have chars: "0 \<notin> set ?t" "char_backspace \<notin> set ?t" using digits by metis+
  have "format_text dec_shown (\<lambda>_. None) (bytes ''%d'') [v] = Some ?t" using assms(4) by (simp add: conv_text_def)
  from kprintf_fold [OF assms(1-3) _ this len chars] show ?thesis unfolding t by (auto simp add: strings_apart_def)
qed

text \<open>A text without control characters that fits on the rest of the cursor's line appears
  there: \<open>kprintf\<close> leaves each of its characters, with the attribute 7, in the cell of the
  cursor's row that belongs to it, and the cursor behind the last one.\<close>

lemma kprintf_line:
  assumes "screen_ok s" and "print_to_screen s"
    and "disjoint_regions VIDEO_ADDR 4000 (kprintf_buf s) 4096"
    and "strings_apart (store s) (kprintf_buf s) 4096 strs"
    and "format_text dec_shown strs fmt args = Some t"
    and "0 \<notin> set t" and "char_backspace \<notin> set t" and "char_newline \<notin> set t"
    and "con_x s + int (length t) \<le> 80" and "con_y s < 24"
  shows "\<exists>s'. kprintf fmt args s = Some s' \<and> con_x s' = con_x s + int (length t) \<and>
    con_y s' = con_y s \<and>
    (\<forall>i < length t. load16 (store s') (video_cell (con_x s + int i) (con_y s)) =
      ucast (t ! i) OR 0x700)"
proof -
  let ?s = "s\<lparr>store := put_bytes (store s) (kprintf_buf s) (t @ [0])\<rparr>"
  have pos: "0 \<le> con_x s" "0 \<le> con_y s" using assms(1) by (simp_all add: screen_ok_def)
  then have "length t < 4096" using assms(9) by simp
  then have run: "kprintf fmt args s = Some (fold kprintf_char t ?s)"
    using assms by (intro kprintf_fold)
  then show ?thesis using kprintf_line_fold [of ?s t] pos assms(7-10) by simp
qed

text \<open>C38. A backspace at the first cell of the screen is not caught: the cursor moves to column
  -1, and the next plain character is stored two bytes below the video memory.\<close>

theorem putch_backspace_underflow:
  assumes "con_x s = 0" and "con_y s = 0"
    and "c \<noteq> char_backspace" and "c \<noteq> char_newline" and "c \<noteq> char_tab"
  shows "con_x (putch char_backspace s) = - 1 \<and> con_y (putch char_backspace s) = 0 \<and>
    load16 (store (putch c (putch char_backspace s))) (VIDEO_ADDR - 2) = ucast c OR 0x700 \<and>
    \<not> in_video (VIDEO_ADDR - 2)"
proof -
  let ?s = "putch char_backspace s"
  have pos: "con_x ?s = - 1" "con_y ?s = 0"
    using assms by (simp_all add: putch_def wrap_cursor_def newline_step_def tab_step_def
        emit_char_def Let_def)
  have "putch c ?s = (placechar c (- 1) 0 0x07 ?s)\<lparr>con_x := 0\<rparr>"
    using assms(3-5) pos by (simp add: putch_def [of c] wrap_cursor_def newline_step_def
        tab_step_def emit_char_def)
  moreover have "video_cell (- 1) 0 = VIDEO_ADDR - 2" by (simp add: video_cell_def)
  ultimately have "load16 (store (putch c ?s)) (VIDEO_ADDR - 2) = ucast c OR push_bit 8 0x07"
    using placechar_inside [of c "- 1" 0 "0x07" ?s] by simp
  then show ?thesis using pos by (simp add: in_video_def)
qed

theorem putch_backspace_underflow_witness:
  "con_x (putch char_backspace demo_console) = - 1 \<and> con_y (putch char_backspace demo_console) = 0 \<and>
    load16 (store (putch 0x61 (putch char_backspace demo_console))) (VIDEO_ADDR - 2) =
      ucast (0x61 :: u8) OR 0x700 \<and> \<not> in_video (VIDEO_ADDR - 2)"
  by (rule putch_backspace_underflow) (simp_all add: demo_console_def)

section \<open>All output together\<close>

text \<open>The operations that write to the screen, in any order: a character of \<open>kprintf\<close>, of \<open>putc\<close> or of
  \<open>putch\<close>, and \<open>clear_screen\<close>, which leaves the cursor where it is.\<close>

datatype screen_op = Print u8 | Putc u8 | Putch u8 | Clear

fun output_step :: "screen_op \<Rightarrow> 'a console_scheme \<Rightarrow> 'a console_scheme" where
  "output_step (Print c) s = kprintf_char c s"
| "output_step (Putc c) s = snd (putc c s)"
| "output_step (Putch c) s = putch c s"
| "output_step Clear s = clear_screen s"

fun output_leaves :: "screen_op \<Rightarrow> 'a console_scheme \<Rightarrow> bool" where
  "output_leaves (Print c) s = leaves_screen c s"
| "output_leaves (Putc c) s = leaves_screen c s"
| "output_leaves (Putch c) s = leaves_screen c s"
| "output_leaves Clear s = False"

fun output_stays :: "screen_op list \<Rightarrow> 'a console_scheme \<Rightarrow> bool" where
  "output_stays [] s \<longleftrightarrow> True"
| "output_stays (x # xs) s \<longleftrightarrow> \<not> output_leaves x s \<and> output_stays xs (output_step x s)"

lemma clear_column_kept:
  assumes "0 \<le> i" "i < 80" "j + k \<le> 25"
  shows "con_x (clear_column i j k s) = con_x s" "con_y (clear_column i j k s) = con_y s"
    and "\<not> in_video a \<Longrightarrow> store (clear_column i j k s) a = store s a"
  using assms by (induction k arbitrary: j s) (simp_all add: placechar_outside)

lemma clear_columns_kept:
  assumes "i + k \<le> 80"
  shows "con_x (clear_columns i k s) = con_x s" "con_y (clear_columns i k s) = con_y s"
    and "\<not> in_video a \<Longrightarrow> store (clear_columns i k s) a = store s a"
  using assms by (induction k arbitrary: i s) (simp_all add: clear_column_kept)

lemma clear_screen_kept:
  "con_x (clear_screen s) = con_x s" "con_y (clear_screen s) = con_y s"
  "\<not> in_video a \<Longrightarrow> store (clear_screen s) a = store s a"
  by (simp_all add: clear_screen_def clear_columns_kept placechar_outside)

lemma output_step_ok:
  assumes "screen_ok s" and "\<not> output_leaves x s"
  shows "screen_ok (output_step x s)" and "\<not> in_video a \<Longrightarrow> store (output_step x s) a = store s a"
proof -
  have "screen_ok (clear_screen s)" using assms(1) by (simp add: screen_ok_def clear_screen_kept)
  then show "screen_ok (output_step x s)"
    using assms by (cases x) (simp_all add: kdev.step_ok putc_dev.step_ok tty.step_ok)
  show "store (output_step x s) a = store s a" if "\<not> in_video a"
    using assms(1) that kdev.step_outside putc_dev.step_outside tty.step_outside
    by (cases x) (simp_all add: clear_screen_kept)
qed

text \<open>C21. The type of the screen is an invariant of all output: whatever characters the three routines and
  \<open>clear_screen\<close> write, in any order, the cursor stays in the 80 by 25 cells and no byte outside of the
  video memory changes, as long as no step is a backspace at the first cell.\<close>

theorem output_keeps_screen:
  assumes "screen_ok s" and "output_stays xs s"
  shows "screen_ok (fold output_step xs s) \<and> (\<forall>a. \<not> in_video a \<longrightarrow> store (fold output_step xs s) a = store s a)"
  using assms
proof (induction xs arbitrary: s)
  case (Cons x xs)
  then have "screen_ok (output_step x s)" by (simp add: output_step_ok)
  then show ?case using Cons output_step_ok(2) [OF Cons.prems(1)] by simp
qed simp

theorem output_keeps_screen_witness:
  "screen_ok (fold output_step [Print char_newline, Putch char_tab, Putc char_backspace, Clear, Putch 0x41] demo_console)"
proof -
  have "output_stays [Print char_newline, Putch char_tab, Putc char_backspace, Clear, Putch 0x41] demo_console"
    by (simp add: leaves_screen_def clear_screen_kept kprintf_char_def putch_def putc_def newline_step_def
        tab_step_def emit_char_def wrap_cursor_def Let_def demo_console_def)
  then show ?thesis using output_keeps_screen [OF demo_console_simps(1)] by blast
qed

section \<open>Calls of kprintf in sequence\<close>

text \<open>One call of \<open>kprintf\<close> whose text is \<open>t\<close>.\<close>

definition print_text :: "u8 list \<Rightarrow> 'a console_scheme \<Rightarrow> 'a console_scheme" where
  "print_text t s = fold kprintf_char t (s\<lparr>store := put_bytes (store s) (kprintf_buf s) (t @ [0])\<rparr>)"

definition printable :: "u8 list \<Rightarrow> bool" where
  "printable t \<longleftrightarrow> length t < 4096 \<and> 0 \<notin> set t \<and> char_backspace \<notin> set t"

definition printer_ready :: "'a console_scheme \<Rightarrow> bool" where
  "printer_ready s \<longleftrightarrow> screen_ok s \<and> print_to_screen s \<and> disjoint_regions VIDEO_ADDR 4000 (kprintf_buf s) 4096"

lemma kprintf_char_kept: "print_to_screen (kprintf_char c s) = print_to_screen s"
  by (simp add: kprintf_char_def emit_char_def newline_step_def wrap_cursor_def placechar_def Let_def)

lemma fold_kept: "(\<And>c s. f (g c s) = f s) \<Longrightarrow> f (fold g cs s) = f s"
  by (induction cs arbitrary: s) simp_all

lemma print_text_kept [simp]:
  "print_to_screen (print_text t s) = print_to_screen s" "kprintf_buf (print_text t s) = kprintf_buf s"
  by (simp_all add: print_text_def fold_kept [where f = print_to_screen] fold_kept [where f = kprintf_buf]
      kprintf_char_kept kdev.step_buf)

lemma print_text_ready:
  assumes "printer_ready s" and "printable t"
  shows "printer_ready (print_text t s)"
  using assms kdev.run_ok [of "s\<lparr>store := put_bytes (store s) (kprintf_buf s) (t @ [0])\<rparr>" t]
  by (auto simp add: printer_ready_def printable_def screen_ok_def) (simp_all add: print_text_def)

lemma print_text_bytes:
  assumes "printer_ready s" and "printable t" and "disjoint_regions VIDEO_ADDR 4000 q k"
    and "disjoint_regions (kprintf_buf s) 4096 q k"
  shows "get_bytes (store (print_text t s)) q k = get_bytes (store s) q k"
proof (rule nth_equalityI)
  fix i assume "i < length (get_bytes (store (print_text t s)) q k)"
  then have i: "i < k" by simp
  have "\<not> in_video (q + of_nat i)" "4096 \<le> unat (q + of_nat i - kprintf_buf s)"
    using disjoint_offset [OF assms(3) i] disjoint_offset [OF assms(4) i] by (simp_all add: in_video_def)
  moreover have "screen_ok (s\<lparr>store := put_bytes (store s) (kprintf_buf s) (t @ [0])\<rparr>)"
    using assms(1) by (simp add: printer_ready_def screen_ok_def)
  ultimately have "store (print_text t s) (q + of_nat i) = store s (q + of_nat i)"
    using kdev.run_outside [of "s\<lparr>store := put_bytes (store s) (kprintf_buf s) (t @ [0])\<rparr>" t "q + of_nat i"] assms(2)
    by (simp add: print_text_def printable_def put_bytes_outside)
  then show "get_bytes (store (print_text t s)) q k ! i = get_bytes (store s) q k ! i" using i by simp
qed simp

lemma kprintf_text:
  assumes "printer_ready s" and "format_text dec_shown (\<lambda>_. None) fmt args = Some t" and "printable t"
  shows "kprintf fmt args s = Some (print_text t s)"
  using assms kprintf_fold [of s "\<lambda>_. None" fmt args t]
  by (simp add: printer_ready_def printable_def print_text_def strings_apart_def)

lemma hex_chars: "set (hex_text v n) \<subseteq> set (bytes ''0123456789abcdef'')"
proof -
  have "hex_digits ! unat (drop_bit k v AND 0xF) \<in> set hex_digits" for k
  proof (rule nth_mem)
    have "drop_bit k v AND 0xF \<le> 0xF" by (rule word_and_le1)
    then have "unat (drop_bit k v AND 0xF) \<le> 15" by (simp add: word_le_nat_alt)
    then show "unat (drop_bit k v AND 0xF) < length hex_digits" by (simp add: hex_digits_def)
  qed
  then show ?thesis by (auto simp add: hex_text_def hex_digits_def)
qed

end
