(* ===== verification/Paging.thy ===== *)
theory Paging
  imports Console
begin

text \<open>
  The page allocator and the kernel's page tables: \<open>sys/paging.c\<close> with the constants and types
  of \<open>include/sys/page_alloc.h\<close>.

  Tables and pages live in the byte store. Up to \<open>load_cr3\<close> the code runs on the identity map
  of the boot loader and uses physical addresses; afterwards it uses the addresses above
  \<open>VIRT_BASE\<close>. The store is indexed by the addresses the code uses. The variable \<open>_pdesc\<close> of the
  source is the field \<open>pdesc_phys\<close>. The fields \<open>counter\<close> and \<open>flag\<close> are also the variables of
  these names of \<open>sys/keyboard.c\<close>: both files define them without an initialiser, so the linker
  merges them; there, \<open>counter\<close> is a 16 bit variable, the low half of the one here.
\<close>

section \<open>Constants and state\<close>

abbreviation VIRT_BASE :: u64 where
  "VIRT_BASE \<equiv> 0xFFFFFFFF80000000"

abbreviation NUMBER_OF_PAGES :: nat where
  "NUMBER_OF_PAGES \<equiv> 24576"

abbreviation NUM_PT :: nat where
  "NUM_PT \<equiv> 47"

abbreviation TABLE_SIZE :: nat where
  "TABLE_SIZE \<equiv> 512"

abbreviation KERN_PERM_BITS :: u64 where
  "KERN_PERM_BITS \<equiv> 0x3"

abbreviation USR_PERM_BITS :: u64 where
  "USR_PERM_BITS \<equiv> 0x7"

abbreviation COW_PERM_BITS :: u64 where
  "COW_PERM_BITS \<equiv> 0x5"

abbreviation PDESC_PG_INC :: u64 where
  "PDESC_PG_INC \<equiv> 0x100"

abbreviation PADDING :: u64 where
  "PADDING \<equiv> 0x1FF"

abbreviation BASE_ADDR :: u64 where
  "BASE_ADDR \<equiv> 0x0"

record paging = console +
  pdesc :: u64
  pdesc_phys :: u64
  virt_to_phy_flag :: bool
  freelist :: u64
  virt_base :: u64
  end_addr :: u64
  counter :: u32
  flag :: bool
  end_base_addr :: u64
  global_pdp :: u64
  global_pml4 :: u64
  global_pd :: u64
  pml4_shared :: u64
  pdp_shared :: u64
  pd_shared :: u64
  pt_shared :: u64
  kpt :: u64
  physfree :: u64
  physbase :: u64
  cr3 :: u64
  cr0 :: u64

text \<open>\<open>init_virt_base\<close> is never assigned.\<close>

abbreviation init_virt_base :: u64 where
  "init_virt_base \<equiv> VIRT_BASE"

section \<open>The page descriptor\<close>

text \<open>A \<open>struct page_desc\<close> is 16 bytes: the bit \<open>pd_free\<close> in its first byte, \<open>next\<close> at offset 8.
  Adding \<open>PDESC_PG_INC\<close> to a pointer to it adds one page.\<close>

datatype pd_status_t = FREE | IN_USE

definition set_pd_free :: "memory \<Rightarrow> u64 \<Rightarrow> pd_status_t \<Rightarrow> memory" where
  "set_pd_free m p st = m(p := (m p AND NOT 1) OR (case st of FREE \<Rightarrow> 0 | IN_USE \<Rightarrow> 1))"

definition pd_next :: "memory \<Rightarrow> u64 \<Rightarrow> u64" where
  "pd_next m p = load64 m (p + 8)"

definition set_pd_next :: "memory \<Rightarrow> u64 \<Rightarrow> u64 \<Rightarrow> memory" where
  "set_pd_next m p q = store64 m (p + 8) q"

definition pdesc_add :: "u64 \<Rightarrow> u64 \<Rightarrow> u64" where
  "pdesc_add p n = p + 16 * n"

section \<open>Control registers\<close>

definition enable_paging :: "u64 \<Rightarrow> u64" where
  "enable_paging r = ucast ((ucast r :: u32) OR 0x80000001)"

definition load_cr3 :: "u64 \<Rightarrow> 'a paging_scheme \<Rightarrow> 'a paging_scheme" where
  "load_cr3 lcr3 s = s\<lparr>pml4_shared := lcr3, cr3 := lcr3, cr0 := enable_paging (cr0 s)\<rparr>"

section \<open>Table offsets\<close>

definition get_pt_offset :: "u64 \<Rightarrow> u64" where
  "get_pt_offset v = drop_bit 12 v AND PADDING"

definition get_pd_offset :: "u64 \<Rightarrow> u64" where
  "get_pd_offset v = drop_bit 21 v AND PADDING"

definition get_pdp_offset :: "u64 \<Rightarrow> u64" where
  "get_pdp_offset v = drop_bit 30 v AND PADDING"

definition get_pml4_offset :: "u64 \<Rightarrow> u64" where
  "get_pml4_offset v = drop_bit 39 v AND PADDING"

section \<open>Allocation\<close>

text \<open>\<open>freelist[counter++] = 0\<close> with an \<open>int\<close> counter and 4-byte elements.\<close>

definition clear_freelist_slot :: "'a paging_scheme \<Rightarrow> 'a paging_scheme" where
  "clear_freelist_slot s =
     s\<lparr>store := store32 (store s) (freelist s + 4 * scast (counter s)) 0, counter := counter s + 1\<rparr>"

definition page_alloc :: "'a paging_scheme \<Rightarrow> u64 \<times> 'a paging_scheme" where
  "page_alloc s =
     (let s0 = (if \<not> virt_to_phy_flag s then s\<lparr>pdesc_phys := pdesc s, virt_to_phy_flag := True\<rparr> else s);
          head = pdesc_phys s0 + VIRT_BASE;
          m1 = set_pd_free (store s0) head IN_USE;
          m2 = set_pd_next m1 head (pdesc_phys s0 + VIRT_BASE + PAGE_SIZE);
          s1 = s0\<lparr>store := m2, pdesc := pd_next m2 head,
                  pdesc_phys := pdesc_add (pdesc_phys s0) PDESC_PG_INC\<rparr>;
          s2 = clear_freelist_slot s1
      in (head, s2\<lparr>store := memset (store s2) head 0 0x1000\<rparr>))"

fun kmalloc_loop :: "nat \<Rightarrow> 'a paging_scheme \<Rightarrow> 'a paging_scheme" where
  "kmalloc_loop 0 s = s"
| "kmalloc_loop (Suc n) s = kmalloc_loop n (snd (page_alloc s))"

definition kmalloc :: "u64 \<Rightarrow> 'a paging_scheme \<Rightarrow> u64 \<times> 'a paging_scheme" where
  "kmalloc sz s =
     (let pages = ucast (sz div PAGE_SIZE) :: u32;
          modulo = ucast (sz mod PAGE_SIZE) :: u32;
          pages' = (if modulo > 0 then pages + 1 else pages);
          (head, s1) = page_alloc s
      in (head, kmalloc_loop (unat (pages' - 1)) s1))"

definition get_page :: "'a paging_scheme \<Rightarrow> u64 \<times> 'a paging_scheme" where
  "get_page s =
     (let head = pdesc s;
          m1 = set_pd_free (store s) head IN_USE;
          s1 = s\<lparr>store := m1, pdesc := pd_next m1 head\<rparr>
      in (head, clear_freelist_slot s1))"

section \<open>The tables of the kernel\<close>

text \<open>The two statements \<open>*(t + off) = v; *(t + off) |= perm;\<close>.\<close>

definition put_entry :: "memory \<Rightarrow> u64 \<Rightarrow> u64 \<Rightarrow> u64 \<Rightarrow> u64 \<Rightarrow> memory" where
  "put_entry m t off v perm =
     (let m1 = store64 m (t + 8 * off) v
      in store64 m1 (t + 8 * off) (load64 m1 (t + 8 * off) OR perm))"

text \<open>The loop that fills one page table, with the iterations left: it occurs in
  \<open>set_end_addr\<close>, \<open>set_kpage_tables\<close> and \<open>set_new_kpts\<close>.\<close>

fun fill_table :: "memory \<Rightarrow> u64 \<Rightarrow> u64 \<Rightarrow> u64 \<Rightarrow> nat \<Rightarrow> memory" where
  "fill_table m pt virt phys 0 = m"
| "fill_table m pt virt phys (Suc n) =
     fill_table (put_entry m pt (get_pt_offset virt) phys KERN_PERM_BITS) pt
       (virt + PAGE_SIZE) (phys + PAGE_SIZE) n"

definition set_end_addr :: "u64 \<Rightarrow> 'a paging_scheme \<Rightarrow> 'a paging_scheme" where
  "set_end_addr pt s =
     (let s0 = (if \<not> flag s then s\<lparr>end_base_addr := end_addr s, flag := True\<rparr> else s);
          pml = global_pml4 s0; pdp = global_pdp s0; pd = global_pd s0;
          virt = init_virt_base + end_base_addr s0;
          m1 = fill_table (store s0) pt virt (end_base_addr s0) TABLE_SIZE;
          m2 = put_entry m1 pd (get_pd_offset virt) pt KERN_PERM_BITS;
          m3 = put_entry m2 pdp (get_pdp_offset virt) pd KERN_PERM_BITS;
          m4 = put_entry m3 pml (get_pml4_offset virt) pdp KERN_PERM_BITS;
          (page, s1) = get_page (s0\<lparr>store := m4,
            end_base_addr := end_base_addr s0 + of_nat TABLE_SIZE * PAGE_SIZE,
            pml4_shared := pml, pdp_shared := pdp, pd_shared := pd\<rparr>)
      in s1\<lparr>pt_shared := page\<rparr>)"

partial_function (option) set_initial_loop ::
  "memory \<Rightarrow> u64 \<Rightarrow> u64 \<Rightarrow> u64 \<Rightarrow> u64 \<Rightarrow> memory option" where
  "set_initial_loop m pt virt base_addr limit =
     (if base_addr \<le> limit
      then set_initial_loop (put_entry m pt (get_pt_offset virt) base_addr KERN_PERM_BITS) pt
        (virt + PAGE_SIZE) (base_addr + PAGE_SIZE) limit
      else Some m)"

definition set_initial_addr :: "u64 \<Rightarrow> 'a paging_scheme \<Rightarrow> 'a paging_scheme option" where
  "set_initial_addr pt s =
     (let pml = global_pml4 s; virt = init_virt_base; pdp = global_pdp s; pd = global_pd s
      in do {
        m1 \<leftarrow> set_initial_loop (store s) pt virt BASE_ADDR (physbase s - PAGE_SIZE);
        let m2 = put_entry m1 pd (get_pd_offset virt) pt KERN_PERM_BITS;
        let m3 = put_entry m2 pdp (get_pdp_offset virt) pd KERN_PERM_BITS;
        let m4 = put_entry m3 pml (get_pml4_offset virt) pdp KERN_PERM_BITS;
        Some (s\<lparr>store := m4\<rparr>)
      })"

fun get_pages :: "nat \<Rightarrow> 'a paging_scheme \<Rightarrow> u64 list \<times> 'a paging_scheme" where
  "get_pages 0 s = ([], s)"
| "get_pages (Suc n) s =
     (let (p, s1) = get_page s; (ps, s2) = get_pages n s1 in (p # ps, s2))"

definition set_kpage_tables :: "u64 \<Rightarrow> 'a paging_scheme \<Rightarrow> (u64 \<times> 'a paging_scheme) option" where
  "set_kpage_tables pml s =
     (let base_addr = physbase s; virt = virt_base s;
          (pdp, s1) = get_page s; (pd, s2) = get_page s1; (pt, s3) = get_page s2;
          (pt_init_addr, s4) = get_page s3; (pt_max, s5) = get_pages NUM_PT s4
      in do {
        s6 \<leftarrow> set_initial_addr pt_init_addr
          (s5\<lparr>global_pml4 := pml, global_pdp := pdp, global_pd := pd, kpt := pt\<rparr>);
        let s7 = fold set_end_addr pt_max
          (s6\<lparr>end_addr := physbase s6 + of_nat TABLE_SIZE * PAGE_SIZE\<rparr>);
        let m1 = fill_table (store s7) pt virt base_addr TABLE_SIZE;
        let m2 = put_entry m1 pd (get_pd_offset virt) (kpt s7) KERN_PERM_BITS;
        let m3 = put_entry m2 pdp (get_pdp_offset virt) pd KERN_PERM_BITS;
        let m4 = put_entry m3 pml (get_pml4_offset virt) pdp KERN_PERM_BITS;
        Some (pml, s7\<lparr>store := m4\<rparr>)
      })"

definition set_kernel_pages :: "'a paging_scheme \<Rightarrow> (u64 \<times> 'a paging_scheme) option" where
  "set_kernel_pages s =
     (let (pml4, s1) = get_page s
      in set_kpage_tables pml4 (s1\<lparr>virt_base := virt_base s1 + physbase s1\<rparr>))"

definition set_pml4 :: "'a paging_scheme \<Rightarrow> 'a paging_scheme option" where
  "set_pml4 s = do {
     (base_addr, s1) \<leftarrow> set_kernel_pages s;
     Some (load_cr3 base_addr s1)
   }"

fun set_pages_loop :: "nat \<Rightarrow> memory \<Rightarrow> u64 \<Rightarrow> memory" where
  "set_pages_loop 0 m p = m"
| "set_pages_loop (Suc 0) m p = set_pd_next m p 0"
| "set_pages_loop (Suc (Suc n)) m p =
     (let m1 = set_pd_next m p (pdesc_add p PDESC_PG_INC);
          m2 = set_pd_free m1 p FREE
      in set_pages_loop (Suc n) m2 (pd_next m2 p))"

definition set_pages :: "u64 \<Rightarrow> 'a paging_scheme \<Rightarrow> 'a paging_scheme" where
  "set_pages page_addr s =
     s\<lparr>store := set_pages_loop NUMBER_OF_PAGES (store s) page_addr, pdesc := page_addr\<rparr>"

fun init_freelist :: "nat \<Rightarrow> memory \<Rightarrow> u64 \<Rightarrow> memory \<times> u64" where
  "init_freelist 0 m p = (m, p)"
| "init_freelist (Suc n) m p = init_freelist n (store32 m p 1) (p + 4)"

definition set_free_list :: "'a paging_scheme \<Rightarrow> 'a paging_scheme option" where
  "set_free_list s =
     (let address = physfree s;
          (m1, end_list) = init_freelist NUMBER_OF_PAGES (store s) address;
          s1 = set_pages end_list (s\<lparr>store := m1, freelist := end_list\<rparr>)
      in do {
        s2 \<leftarrow> set_pml4 s1;
        Some (s2\<lparr>pml4_shared := pml4_shared s2 + VIRT_BASE,
                 pdp_shared := pdp_shared s2 + VIRT_BASE,
                 pd_shared := pd_shared s2 + VIRT_BASE,
                 freelist := init_virt_base + address\<rparr>)
      })"

section \<open>Allocation hands out zeroed pages in order\<close>

text \<open>The physical address of the page that the next call of \<open>page_alloc\<close> hands out, and the
  slot of the free list that it clears.\<close>

definition next_frame :: "'a paging_scheme \<Rightarrow> u64" where
  "next_frame s = (if virt_to_phy_flag s then pdesc_phys s else pdesc s)"

definition freelist_slot :: "'a paging_scheme \<Rightarrow> u64" where
  "freelist_slot s = freelist s + 4 * scast (counter s)"

lemma le_bytes_zero: "le_bytes n 0 = replicate n 0"
  by (rule nth_equalityI) (simp_all add: le_bytes_def)

lemma store32_zero: "store32 m a 0 b = (if unat (b - a) < 4 then 0 else m b)"
  by (simp add: store32_def put_bytes_apply le_bytes_zero)

lemma set_pd_outside:
  "8 \<le> unat (a - p) \<Longrightarrow> set_pd_free m p st a = m a"
  "16 \<le> unat (a - p) \<Longrightarrow> set_pd_next m p q a = m a"
proof -
  show "8 \<le> unat (a - p) \<Longrightarrow> set_pd_free m p st a = m a"
    by (auto simp add: set_pd_free_def)
  assume far: "16 \<le> unat (a - p)"
  have "a - (p + 8) = (a - p) - 8" by simp
  moreover have "8 \<le> a - p" using far by (simp add: word_le_nat_alt)
  ultimately have "unat (a - (p + 8)) = unat (a - p) - 8" by (simp only: unat_sub) simp
  then show "set_pd_next m p q a = m a" using far by (simp add: set_pd_next_def store_outside)
qed

lemma page_alloc_head: "fst (page_alloc s) = next_frame s + VIRT_BASE"
  by (simp add: page_alloc_def next_frame_def Let_def)

lemma page_alloc_fields:
  "next_frame (snd (page_alloc s)) = next_frame s + PAGE_SIZE"
  "virt_to_phy_flag (snd (page_alloc s))"
  "pdesc (snd (page_alloc s)) = next_frame s + VIRT_BASE + PAGE_SIZE"
  "counter (snd (page_alloc s)) = counter s + 1"
  "freelist (snd (page_alloc s)) = freelist s"
  "pml4_shared (snd (page_alloc s)) = pml4_shared s"
  "cr3 (snd (page_alloc s)) = cr3 s"
  by (simp_all add: page_alloc_def next_frame_def clear_freelist_slot_def pdesc_add_def pd_next_def
      set_pd_next_def load_store_same Let_def)

lemma page_alloc_store:
  "store (snd (page_alloc s)) a =
   (if unat (a - (next_frame s + VIRT_BASE)) < 4096 \<or> unat (a - freelist_slot s) < 4 then 0
    else store s a)"
proof -
  let ?p = "next_frame s + VIRT_BASE" and ?q = "next_frame s + VIRT_BASE + PAGE_SIZE"
  let ?m = "set_pd_next (set_pd_free (store s) ?p IN_USE) ?p ?q"
  have store: "store (snd (page_alloc s)) = memset (store32 ?m (freelist_slot s) 0) ?p 0 0x1000"
    by (simp add: page_alloc_def next_frame_def clear_freelist_slot_def freelist_slot_def Let_def)
  have "?m a = store s a" if "\<not> unat (a - ?p) < 4096"
    using that by (simp add: set_pd_outside)
  then show ?thesis
    unfolding store by (auto simp add: memset_apply store32_zero)
qed

lemma unat_pages: "n \<le> 2 ^ 32 \<Longrightarrow> unat (of_nat n * PAGE_SIZE) = n * 4096"
proof -
  assume "n \<le> 2 ^ 32"
  then have "n * 4096 < 2 ^ 64" by simp
  moreover have "of_nat n * PAGE_SIZE = of_nat (n * 4096)" by simp
  ultimately show ?thesis by (metis unat_of_nat64)
qed

text \<open>
  The interface of a page provider, on which \<open>kmalloc\<close> and the table lookups of
  \<open>sys/user_paging.c\<close> rely: one call hands out one page, the page reads as zero, successive
  calls hand out successive pages, and besides the page only four bytes of bookkeeping change.
\<close>

locale page_provider =
  fixes alloc :: "'s \<Rightarrow> u64 \<times> 's" and mem :: "'s \<Rightarrow> memory" and slot :: "'s \<Rightarrow> u64"
  assumes alloc_next: "fst (alloc (snd (alloc s))) = fst (alloc s) + PAGE_SIZE"
    and alloc_mem: "mem (snd (alloc s)) a =
      (if unat (a - fst (alloc s)) < 4096 \<or> unat (a - slot s) < 4 then 0 else mem s a)"
begin

lemma alloc_zero: "unat (a - fst (alloc s)) < 4096 \<Longrightarrow> mem (snd (alloc s)) a = 0"
  by (simp add: alloc_mem)

lemma alloc_keep:
  "4096 \<le> unat (a - fst (alloc s)) \<Longrightarrow> 4 \<le> unat (a - slot s) \<Longrightarrow> mem (snd (alloc s)) a = mem s a"
  by (simp add: alloc_mem)

lemma alloc_pages_head:
  "fst (alloc (((\<lambda>s. snd (alloc s)) ^^ n) s)) = fst (alloc s) + of_nat n * PAGE_SIZE"
  by (induction n) (simp_all add: alloc_next algebra_simps)

lemma alloc_pages_mono: "mem s a = 0 \<Longrightarrow> mem (((\<lambda>s. snd (alloc s)) ^^ n) s) a = 0"
  by (induction n) (simp_all add: alloc_mem)

lemma alloc_pages_zero:
  assumes "unat (a - fst (alloc s)) < 4096 * n" and "n \<le> 2 ^ 32"
  shows "mem (((\<lambda>s. snd (alloc s)) ^^ n) s) a = 0"
  using assms
proof (induction n)
  case 0
  then show ?case by simp
next
  case (Suc n)
  let ?s = "((\<lambda>s. snd (alloc s)) ^^ n) s" and ?d = "a - fst (alloc s)"
  show ?case
  proof (cases "unat ?d < 4096 * n")
    case True
    then show ?thesis using Suc by (simp add: alloc_mem)
  next
    case False
    have un: "unat (of_nat n * PAGE_SIZE) = n * 4096" using Suc.prems(2) by (intro unat_pages) simp
    have "a - fst (alloc ?s) = ?d - of_nat n * PAGE_SIZE" by (simp add: alloc_pages_head)
    moreover have "of_nat n * PAGE_SIZE \<le> ?d" using False un by (simp only: word_le_nat_alt)
    ultimately have "unat (a - fst (alloc ?s)) = unat ?d - n * 4096" by (simp only: unat_sub un)
    then have "mem (snd (alloc ?s)) a = 0" using Suc.prems(1) by (intro alloc_zero) simp
    then show ?thesis by simp
  qed
qed

lemma alloc_pages_keep:
  assumes "4096 * n \<le> unat (a - fst (alloc s))" and "n \<le> 2 ^ 32"
    and "\<And>i. i < n \<Longrightarrow> 4 \<le> unat (a - slot (((\<lambda>s. snd (alloc s)) ^^ i) s))"
  shows "mem (((\<lambda>s. snd (alloc s)) ^^ n) s) a = mem s a"
  using assms
proof (induction n)
  case 0
  then show ?case by simp
next
  case (Suc n)
  let ?s = "((\<lambda>s. snd (alloc s)) ^^ n) s" and ?d = "a - fst (alloc s)"
  have un: "unat (of_nat n * PAGE_SIZE) = n * 4096" using Suc.prems(2) by (intro unat_pages) simp
  have "a - fst (alloc ?s) = ?d - of_nat n * PAGE_SIZE" by (simp add: alloc_pages_head)
  moreover have "of_nat n * PAGE_SIZE \<le> ?d" unfolding word_le_nat_alt un using Suc.prems(1) by simp
  ultimately have "unat (a - fst (alloc ?s)) = unat ?d - n * 4096" by (simp only: unat_sub un)
  then have "mem (snd (alloc ?s)) a = mem ?s a" using Suc.prems by (intro alloc_keep) simp_all
  then show ?case using Suc by simp
qed

end

interpretation frames: page_provider page_alloc store freelist_slot
proof unfold_locales
  fix s :: "'a paging_scheme" and a :: u64
  show "fst (page_alloc (snd (page_alloc s))) = fst (page_alloc s) + PAGE_SIZE"
    by (simp add: page_alloc_head page_alloc_fields)
  show "store (snd (page_alloc s)) a =
      (if unat (a - fst (page_alloc s)) < 4096 \<or> unat (a - freelist_slot s) < 4 then 0 else store s a)"
    by (simp add: page_alloc_head page_alloc_store)
qed

lemma kmalloc_loop_pow: "kmalloc_loop n s = ((\<lambda>s. snd (page_alloc s)) ^^ n) s"
  by (induction n arbitrary: s) (simp, simp add: funpow_Suc_right del: funpow.simps)

text \<open>The number of pages that a request needs.\<close>

definition pages_for :: "u64 \<Rightarrow> nat" where
  "pages_for sz = (unat sz + 4095) div 4096"

lemma kmalloc_pages:
  assumes "0 < sz" and "unat sz < 2 ^ 32 * 4096 - 4096"
  shows "kmalloc sz s = (next_frame s + VIRT_BASE, ((\<lambda>s. snd (page_alloc s)) ^^ pages_for sz) s)"
proof -
  let ?q = "unat sz div 4096" and ?r = "unat sz mod 4096"
  have q: "?q < 2 ^ 32 - 1" using assms(2) by (simp add: less_mult_imp_div_less)
  have pos: "0 < unat sz" using assms(1) by (simp add: unat_gt_0)
  have upages: "unat (ucast (sz div PAGE_SIZE) :: u32) = ?q"
    using q by (simp add: unsigned_ucast_eq unsigned_take_bit_eq unat_div take_bit_nat_eq_self)
  have umod: "unat (ucast (sz mod PAGE_SIZE) :: u32) = ?r"
    by (simp add: unsigned_ucast_eq unsigned_take_bit_eq unat_mod take_bit_nat_eq_self)
  let ?p = "if 0 < (ucast (sz mod PAGE_SIZE) :: u32) then ucast (sz div PAGE_SIZE) + 1
    else (ucast (sz div PAGE_SIZE) :: u32)"
  have less: "0 < (ucast (sz mod PAGE_SIZE) :: u32) \<longleftrightarrow> 0 < ?r"
    unfolding word_less_nat_alt umod by simp
  have up1: "unat (ucast (sz div PAGE_SIZE) + 1 :: u32) = ?q + 1"
    using q upages by (subst unat_word_ariths) simp
  have n: "unat ?p = pages_for sz" "0 < pages_for sz"
  proof -
    have split: "4096 * ?q + ?r = unat sz" by (rule mult_div_mod_eq)
    have r: "?r < 4096" by simp
    have up: "(4096 * q + k + 4095) div 4096 = (if 0 < k then q + 1 else q)" if "k < 4096" for q k :: nat
      using that by (auto intro!: div_nat_eqI)
    have "pages_for sz = (if 0 < ?r then ?q + 1 else ?q)"
      using up [OF r, of ?q] unfolding split pages_for_def .
    then show "unat ?p = pages_for sz" using up1 upages less by simp
    show "0 < pages_for sz" using pos by (simp add: pages_for_def div_greater_zero_iff)
  qed
  have "unat (?p - 1) = pages_for sz - 1"
    using n by (subst unat_minus_one) (auto simp add: unat_eq_0)
  then have "kmalloc sz s = (fst (page_alloc s), kmalloc_loop (pages_for sz - 1) (snd (page_alloc s)))"
    by (simp add: kmalloc_def Let_def case_prod_beta)
  moreover have "kmalloc_loop (pages_for sz - 1) (snd (page_alloc s)) = kmalloc_loop (pages_for sz) s"
    using n(2) by (cases "pages_for sz") simp_all
  ultimately show ?thesis by (simp add: page_alloc_head kmalloc_loop_pow)
qed

lemma next_frame_pages:
  "next_frame (((\<lambda>s. snd (page_alloc s)) ^^ n) s) = next_frame s + of_nat n * PAGE_SIZE"
  by (induction n) (simp_all add: page_alloc_fields algebra_simps)

section \<open>Properties\<close>

text \<open>\<open>page_alloc\<close> hands out the page above \<open>VIRT_BASE\<close> at its frame pointer, advances the
  pointer by one page, leaves the whole page zero and changes nothing else of the store but the
  four bytes of one free-list slot.\<close>

lemma page_alloc_zeroed:
  "fst (page_alloc s) = next_frame s + VIRT_BASE \<and>
   next_frame (snd (page_alloc s)) = next_frame s + PAGE_SIZE \<and>
   store (snd (page_alloc s)) =
     (\<lambda>a. if unat (a - fst (page_alloc s)) < 4096 \<or> unat (a - freelist_slot s) < 4 then 0
          else store s a)"
  by (rule conjI, rule page_alloc_head, rule conjI, rule page_alloc_fields, rule ext)
    (simp only: page_alloc_head page_alloc_store)

text \<open>C18. \<open>kmalloc\<close> of a positive size returns the frame pointer's page, the requested bytes all
  read as zero, the frame pointer moves behind them (so that no later allocation overlaps them),
  and bytes outside the pages and the cleared free-list slots are unchanged.\<close>

theorem kmalloc_block:
  assumes "0 < sz" and "unat sz < 2 ^ 44 - 4096"
  shows "fst (kmalloc sz s) = next_frame s + VIRT_BASE \<and>
    unat sz \<le> 4096 * pages_for sz \<and>
    next_frame (snd (kmalloc sz s)) = next_frame s + of_nat (pages_for sz) * PAGE_SIZE \<and>
    (\<forall>a. unat (a - fst (kmalloc sz s)) < 4096 * pages_for sz \<longrightarrow> store (snd (kmalloc sz s)) a = 0) \<and>
    (\<forall>a. 4096 * pages_for sz \<le> unat (a - fst (kmalloc sz s)) \<longrightarrow>
      (\<forall>i < pages_for sz. 4 \<le> unat (a - freelist_slot (((\<lambda>s. snd (page_alloc s)) ^^ i) s))) \<longrightarrow>
      store (snd (kmalloc sz s)) a = store s a)"
proof -
  have run: "kmalloc sz s = (next_frame s + VIRT_BASE, ((\<lambda>s. snd (page_alloc s)) ^^ pages_for sz) s)"
    using assms by (intro kmalloc_pages) simp_all
  have n: "pages_for sz \<le> 2 ^ 32" using assms(2) by (simp add: pages_for_def)
  have "unat sz \<le> 4096 * pages_for sz"
    unfolding pages_for_def using mult_div_mod_eq [of 4096 "unat sz + 4095"]
      mod_less_divisor [of 4096 "unat sz + 4095"] by linarith
  moreover have "store (((\<lambda>s. snd (page_alloc s)) ^^ pages_for sz) s) a = 0"
    if "unat (a - (next_frame s + VIRT_BASE)) < 4096 * pages_for sz" for a
    using frames.alloc_pages_zero [of a s "pages_for sz"] that n by (simp only: page_alloc_head)
  moreover have "store (((\<lambda>s. snd (page_alloc s)) ^^ pages_for sz) s) a = store s a"
    if "4096 * pages_for sz \<le> unat (a - (next_frame s + VIRT_BASE))"
      "\<forall>i < pages_for sz. 4 \<le> unat (a - freelist_slot (((\<lambda>s. snd (page_alloc s)) ^^ i) s))" for a
    using frames.alloc_pages_keep [of "pages_for sz" a s] that n by (simp only: page_alloc_head)
  ultimately show ?thesis unfolding run fst_conv snd_conv using next_frame_pages by blast
qed

definition demo_paging :: paging where
  "demo_paging = \<lparr>store = (\<lambda>_. 7), con_x = 0, con_y = 0, print_to_screen = True,
     kprintf_buf = 0xFFFFFFFF80210000, timer_buf = 0xFFFFFFFF80212000,
     pdesc = 0x300000, pdesc_phys = 0, virt_to_phy_flag = False, freelist = 0xFFFFFFFF80250000,
     virt_base = 0xFFFFFFFF80200000, end_addr = 0x400000, counter = 0, flag = True,
     end_base_addr = 0x6200000, global_pdp = 0x269000, global_pml4 = 0x268000,
     global_pd = 0x26a000, pml4_shared = 0xFFFFFFFF80268000, pdp_shared = 0xFFFFFFFF80269000,
     pd_shared = 0xFFFFFFFF8026a000, pt_shared = 0x2ca000, kpt = 0x26b000, physfree = 0x250000,
     physbase = 0x200000, cr3 = 0x268000, cr0 = 0x80000001\<rparr>"

theorem kmalloc_block_witness:
  "fst (kmalloc 0x1800 demo_paging) = 0xFFFFFFFF80300000 \<and>
    next_frame (snd (kmalloc 0x1800 demo_paging)) = 0x302000 \<and>
    store demo_paging 0xFFFFFFFF80301FFF = 7 \<and>
    store (snd (kmalloc 0x1800 demo_paging)) 0xFFFFFFFF80301FFF = 0"
proof -
  have n: "pages_for 0x1800 = 2" "next_frame demo_paging = 0x300000"
    by (simp_all add: pages_for_def next_frame_def demo_paging_def)
  have head: "fst (kmalloc 0x1800 demo_paging) = 0xFFFFFFFF80300000"
    using kmalloc_block [of "0x1800" demo_paging] by (simp add: n)
  moreover have "next_frame (snd (kmalloc 0x1800 demo_paging)) = 0x302000"
    using kmalloc_block [of "0x1800" demo_paging] by (simp add: n)
  moreover have "store (snd (kmalloc 0x1800 demo_paging)) 0xFFFFFFFF80301FFF = 0"
    using kmalloc_block [of "0x1800" demo_paging] head by (simp add: n)
  ultimately show ?thesis by (simp add: demo_paging_def)
qed

text \<open>\<open>kmalloc(0)\<close> is not an empty allocation: the 32 bit page count wraps when it is
  decremented, and 2^32 pages are taken.\<close>

lemma kmalloc_zero_wraps:
  "kmalloc 0 s = (next_frame s + VIRT_BASE, ((\<lambda>s. snd (page_alloc s)) ^^ 2 ^ 32) s)"
proof -
  have "unat (0 - 1 :: u32) = 2 ^ 32 - 1"
    by (simp add: unsigned_minus_1_eq_mask mask_eq_exp_minus_1)
  then have "kmalloc 0 s = (fst (page_alloc s), kmalloc_loop (2 ^ 32 - 1) (snd (page_alloc s)))"
    by (simp add: kmalloc_def Let_def case_prod_beta)
  also have "kmalloc_loop (2 ^ 32 - 1) (snd (page_alloc s)) = kmalloc_loop (Suc (2 ^ 32 - 1)) s"
    by (rule kmalloc_loop.simps(2) [symmetric])
  also have "\<dots> = ((\<lambda>s. snd (page_alloc s)) ^^ 2 ^ 32) s"
    unfolding kmalloc_loop_pow by (rule arg_cong [of _ _ "\<lambda>n. ((\<lambda>s. snd (page_alloc s)) ^^ n) s"]) simp
  finally show ?thesis by (simp only: page_alloc_head)
qed

end
