(* ===== verification/Page_Walk.thy ===== *)
theory Page_Walk
  imports Paging
begin

text \<open>
  What page tables mean. The processor translates an address by a walk through four tables; the
  definition here is the one of the processor for 4 KiB pages, with the tables at a fixed distance
  from their physical addresses in the store (0 on the boot loader's identity map, \<open>VIRT_BASE\<close>
  afterwards). The lemmas relate table entries, cells of the store and the offset functions of
  \<open>sys/paging.c\<close>.
\<close>

section \<open>The walk\<close>

definition entry_base :: "u64 \<Rightarrow> u64" where
  "entry_base e = e AND 0x000FFFFFFFFFF000"

definition entry_present :: "u64 \<Rightarrow> bool" where
  "entry_present e \<longleftrightarrow> bit e 0"

text \<open>An entry of an upper level refers to a table when it is present and not a large page.\<close>

definition table_at :: "u64 \<Rightarrow> u64 option" where
  "table_at e = (if bit e 0 \<and> \<not> bit e 7 then Some (entry_base e) else None)"

text \<open>The result is the physical address and the permissions that all four levels grant: bit 0
  present, bit 1 writable, bit 2 accessible to user mode.\<close>

definition walk :: "u64 \<Rightarrow> memory \<Rightarrow> u64 \<Rightarrow> u64 \<Rightarrow> (u64 \<times> u64) option" where
  "walk dist m root va =
     (let e4 = load64 m (dist + entry_base root + 8 * get_pml4_offset va) in
      do { pdp \<leftarrow> table_at e4;
        let e3 = load64 m (dist + pdp + 8 * get_pdp_offset va);
        pd \<leftarrow> table_at e3;
        let e2 = load64 m (dist + pd + 8 * get_pd_offset va);
        pt \<leftarrow> table_at e2;
        let e1 = load64 m (dist + pt + 8 * get_pt_offset va);
        if entry_present e1
        then Some (entry_base e1 + (va AND 0xFFF), e4 AND e3 AND e2 AND e1 AND 7)
        else None
      })"

section \<open>Offsets\<close>

lemma unat_offset: "unat (drop_bit n v AND PADDING) = unat (v :: u64) div 2 ^ n mod 512"
proof -
  have "PADDING = mask 9" by (simp add: mask_eq_exp_minus_1)
  then have "drop_bit n v AND PADDING = take_bit 9 (drop_bit n v)" by (simp add: take_bit_eq_mask)
  then have "unat (drop_bit n v AND PADDING) = take_bit 9 (drop_bit n (unat v))"
    by (simp only: unsigned_take_bit_eq unat_drop_bit_eq)
  then show ?thesis by (simp add: take_bit_eq_mod drop_bit_eq_div)
qed

lemma unat_offsets:
  "unat (get_pt_offset v) = unat v div 2 ^ 12 mod 512"
  "unat (get_pd_offset v) = unat v div 2 ^ 21 mod 512"
  "unat (get_pdp_offset v) = unat v div 2 ^ 30 mod 512"
  "unat (get_pml4_offset v) = unat v div 2 ^ 39 mod 512"
  unfolding get_pt_offset_def get_pd_offset_def get_pdp_offset_def get_pml4_offset_def
  by (rule unat_offset)+

lemma offset_less:
  "unat (get_pt_offset v) < 512" "unat (get_pd_offset v) < 512"
  "unat (get_pdp_offset v) < 512" "unat (get_pml4_offset v) < 512"
  unfolding unat_offsets by simp_all

section \<open>Pages and cells\<close>

definition page_aligned :: "u64 \<Rightarrow> bool" where
  "page_aligned p \<longleftrightarrow> unat p mod 4096 = 0"

lemma page_aligned_bound: "page_aligned p \<Longrightarrow> unat p + 4096 \<le> 2 ^ 64"
proof -
  assume "page_aligned p"
  then obtain k where k: "unat p = 4096 * k" by (auto simp add: page_aligned_def elim: dvdE)
  then have "4096 * k < 2 ^ 64" using unat_bound64 [of p] by simp
  then show ?thesis unfolding k by simp
qed

lemma page_aligned_iff: "page_aligned p \<longleftrightarrow> take_bit 12 p = 0"
proof -
  have "unat (take_bit 12 p) = take_bit 12 (unat p)" by (rule unsigned_take_bit_eq)
  also have "\<dots> = unat p mod 4096" by (simp add: take_bit_eq_mod)
  finally have "unat (take_bit 12 p) = unat p mod 4096" .
  then show ?thesis unfolding page_aligned_def by (metis unat_eq_0)
qed

lemma page_aligned_diff:
  assumes "page_aligned p" and "page_aligned q"
  shows "page_aligned (p - q)"
  using unat_diff_mod [of 4096 p q] assms by (simp add: page_aligned_def)

lemma page_aligned_add:
  assumes "page_aligned p" and "page_aligned q"
  shows "page_aligned (p + q)"
proof -
  have "page_aligned 0" by (simp add: page_aligned_def)
  then have "page_aligned (p - (0 - q))" using assms by (intro page_aligned_diff)
  then show ?thesis by simp
qed

lemma page_aligned_mult: "page_aligned (n * PAGE_SIZE)"
proof -
  have "n * PAGE_SIZE = push_bit 12 n" by (simp add: push_bit_eq_mult mult.commute)
  then show ?thesis unfolding page_aligned_iff by (simp add: take_bit_push_bit)
qed

lemma page_aligned_VIRT_BASE [simp]: "page_aligned VIRT_BASE" "page_aligned PAGE_SIZE" "page_aligned 0"
  by (simp_all add: page_aligned_def)

lemma ROUNDDOWN_aligned: "page_aligned (ROUNDDOWN a PAGE_SIZE)"
  by (simp add: page_aligned_def)

lemma unat_cell:
  assumes "page_aligned t" and "unat i < 512"
  shows "unat (t + 8 * i) = unat t + 8 * unat i"
proof -
  have "unat t + 8 * unat i < 2 ^ 64" using page_aligned_bound [OF assms(1)] assms(2) by simp
  moreover have "t + 8 * i = t + of_nat (8 * unat i)" by simp
  ultimately show ?thesis by (metis unat_add_of_nat)
qed

lemma cell_aligned8:
  assumes "page_aligned t" and "unat i < 512"
  shows "aligned8 (t + 8 * i)"
proof -
  have "4096 dvd unat t" using assms(1) by (simp add: page_aligned_def dvd_eq_mod_eq_0)
  then have "8 dvd unat t" by (rule dvd_trans [rotated]) simp
  then have "8 dvd unat (t + 8 * i)" using assms by (simp add: unat_cell)
  then show ?thesis by (simp add: aligned8_def dvd_eq_mod_eq_0)
qed

lemma cell_eq_iff:
  assumes "page_aligned t" "unat i < 512" "page_aligned u" "unat j < 512"
  shows "t + 8 * i = u + 8 * j \<longleftrightarrow> t = u \<and> i = j"
proof
  assume "t + 8 * i = u + 8 * j"
  then have sum: "unat t + 8 * unat i = unat u + 8 * unat j" using assms by (metis unat_cell)
  have "unat t mod 4096 = 0" "unat u mod 4096 = 0" using assms by (simp_all add: page_aligned_def)
  then obtain k l where "unat t = 4096 * k" "unat u = 4096 * l" by (auto elim!: dvdE)
  moreover from this have "512 * k + unat i = 512 * l + unat j" using sum by linarith
  then have "(512 * k + unat i) div 512 = (512 * l + unat j) div 512" by simp
  then have "k = l" using assms(2,4) by simp
  ultimately have "unat t = unat u" "unat i = unat j" using sum by simp_all
  then show "t = u \<and> i = j" by (simp add: word_unat_eq_iff)
qed simp

lemma load64_put_entry:
  assumes "page_aligned t" "unat i < 512" "aligned8 b"
  shows "load64 (put_entry m t i v perm) b = (if b = t + 8 * i then v OR perm else load64 m b)"
  using assms cell_aligned8 [of t i]
  by (auto simp add: put_entry_def Let_def load_store_same cells.ld_st)

lemma put_entry_outside:
  assumes "page_aligned t" "unat i < 512" "4096 \<le> unat (a - t)"
  shows "put_entry m t i v perm a = m a"
proof -
  have "a - (t + 8 * i) = (a - t) - of_nat (8 * unat i)" by simp
  moreover have u: "unat (of_nat (8 * unat i) :: u64) = 8 * unat i"
    using assms(2) by (intro unat_of_nat64) simp
  moreover have "of_nat (8 * unat i) \<le> a - t" unfolding word_le_nat_alt u using assms(2,3) by linarith
  ultimately have "unat (a - (t + 8 * i)) = unat (a - t) - 8 * unat i" by (metis unat_sub)
  then have "8 \<le> unat (a - (t + 8 * i))" using assms(2,3) by linarith
  then show ?thesis by (simp add: put_entry_def Let_def store_outside)
qed

section \<open>Entries made of a page address and permissions\<close>

definition perm_ok :: "u64 \<Rightarrow> bool" where
  "perm_ok q \<longleftrightarrow> bit q 0 \<and> q < 8"

lemma perm_ok_simps [simp]: "perm_ok KERN_PERM_BITS" "perm_ok USR_PERM_BITS" "perm_ok COW_PERM_BITS"
  by (simp_all add: perm_ok_def)

text \<open>A physical address that an entry can hold: page aligned and below 2^52.\<close>

definition frame_ok :: "u64 \<Rightarrow> bool" where
  "frame_ok p \<longleftrightarrow> page_aligned p \<and> unat p < 2 ^ 52"

lemma less_bits: "unat (q :: u64) < 2 ^ n \<Longrightarrow> n \<le> i \<Longrightarrow> \<not> bit q i"
proof -
  assume "unat q < 2 ^ n" and i: "n \<le> i"
  then have "take_bit n (unat q) = unat q" by (simp add: take_bit_nat_eq_self)
  then have "take_bit n q = q" by (metis unsigned_take_bit_eq word_unat_eq_iff)
  then show "\<not> bit q i" using i by (metis bit_take_bit_iff not_le)
qed

lemma perm_bits: "perm_ok q \<Longrightarrow> 3 \<le> i \<Longrightarrow> \<not> bit q i"
  using less_bits [of q 3 i] by (simp add: perm_ok_def word_less_nat_alt)

lemma frame_bits: "frame_ok p \<Longrightarrow> i < 12 \<or> 52 \<le> i \<Longrightarrow> \<not> bit p i"
proof -
  assume ok: "frame_ok p" and i: "i < 12 \<or> 52 \<le> i"
  have "take_bit 12 p = 0" using ok by (simp add: frame_ok_def flip: page_aligned_iff)
  then have "i < 12 \<Longrightarrow> \<not> bit p i" by (metis bit_0_eq bit_take_bit_iff bot_apply bot_bool_def)
  then show "\<not> bit p i" using less_bits [of p 52 i] ok i by (auto simp add: frame_ok_def)
qed

lemma entry_mask_bit: "bit (0x000FFFFFFFFFF000 :: u64) i \<longleftrightarrow> 12 \<le> i \<and> i < 52"
proof -
  have "(0x000FFFFFFFFFF000 :: u64) = push_bit 12 (mask 40)" by (simp add: mask_eq_exp_minus_1)
  then have "bit (0x000FFFFFFFFFF000 :: u64) i = bit (push_bit 12 (mask 40) :: u64) i" by (rule arg_cong)
  then show ?thesis unfolding bit_push_bit_iff bit_mask_iff by (simp, linarith)
qed

lemma entry_base_or:
  assumes "frame_ok p" and "perm_ok q"
  shows "entry_base (p OR q) = p"
proof (rule bit_word_eqI)
  fix n
  have "bit (entry_base (p OR q)) n \<longleftrightarrow> (bit p n \<or> bit q n) \<and> 12 \<le> n \<and> n < 52"
    by (simp only: entry_base_def bit_and_iff bit_or_iff entry_mask_bit)
  then show "bit (entry_base (p OR q)) n = bit p n"
    using frame_bits [OF assms(1), of n] perm_bits [OF assms(2), of n] by linarith
qed

lemma entry_base_frame: "frame_ok p \<Longrightarrow> entry_base p = p"
proof (rule bit_word_eqI)
  fix n
  assume ok: "frame_ok p"
  have "bit (entry_base p) n \<longleftrightarrow> bit p n \<and> 12 \<le> n \<and> n < 52"
    by (simp only: entry_base_def bit_and_iff entry_mask_bit)
  then show "bit (entry_base p) n = bit p n" using frame_bits [OF ok, of n] by linarith
qed

lemma table_at_or: "frame_ok p \<Longrightarrow> perm_ok q \<Longrightarrow> table_at (p OR q) = Some p"
  using perm_bits [of q 7] frame_bits [of p 7]
  by (simp add: table_at_def entry_base_or bit_or_iff perm_ok_def)

lemma perms_and:
  assumes "frame_ok p4" "frame_ok p3" "frame_ok p2" "frame_ok p1"
    and "perm_ok q4" "perm_ok q3" "perm_ok q2" "perm_ok q1"
  shows "(p4 OR q4) AND (p3 OR q3) AND (p2 OR q2) AND (p1 OR q1) AND 7 =
    q4 AND q3 AND q2 AND q1"
proof (rule bit_word_eqI)
  fix n
  have seven: "bit (7 :: u64) n \<longleftrightarrow> n < 3"
  proof -
    have "(7 :: u64) = mask 3" by (simp add: mask_eq_exp_minus_1)
    then have "bit (7 :: u64) n = bit (mask 3 :: u64) n" by (rule arg_cong)
    then show ?thesis unfolding bit_mask_iff by (simp, linarith)
  qed
  show "bit ((p4 OR q4) AND (p3 OR q3) AND (p2 OR q2) AND (p1 OR q1) AND 7) n =
      bit (q4 AND q3 AND q2 AND q1) n"
  proof (cases "n < 3")
    case True
    then have "\<not> bit p4 n" "\<not> bit p3 n" "\<not> bit p2 n" "\<not> bit p1 n"
      using assms(1-4) by (simp_all add: frame_bits)
    then show ?thesis using True by (simp only: bit_and_iff bit_or_iff seven simp_thms)
  next
    case False
    then have "\<not> bit q1 n" using assms(8) by (simp add: perm_bits)
    then show ?thesis using False by (simp only: bit_and_iff bit_or_iff seven simp_thms)
  qed
qed

text \<open>Four entries that lead from the root to a page make the walk succeed.\<close>

lemma walk_path:
  assumes "load64 m (dist + entry_base root + 8 * get_pml4_offset va) = pdp OR q4"
    and "load64 m (dist + pdp + 8 * get_pdp_offset va) = pd OR q3"
    and "load64 m (dist + pd + 8 * get_pd_offset va) = pt OR q2"
    and "load64 m (dist + pt + 8 * get_pt_offset va) = page OR q1"
    and "frame_ok pdp" "frame_ok pd" "frame_ok pt" "frame_ok page"
    and "perm_ok q4" "perm_ok q3" "perm_ok q2" "perm_ok q1"
  shows "walk dist m root va = Some (page + (va AND 0xFFF), q4 AND q3 AND q2 AND q1)"
proof -
  have "entry_present (page OR q1)" using assms(12) by (simp add: entry_present_def perm_ok_def bit_or_iff)
  then show ?thesis
    using assms perms_and [OF assms(5-12)]
    by (simp add: walk_def table_at_or entry_base_or Let_def)
qed

section \<open>Filling a page table\<close>

lemma unat_pt_offset_add:
  "unat (get_pt_offset (virt + of_nat i * PAGE_SIZE)) = (unat virt div 4096 + i) mod 512"
proof -
  have "virt + of_nat i * PAGE_SIZE = of_nat (unat virt + i * 4096)" by simp
  then have "unat (virt + of_nat i * PAGE_SIZE) = take_bit 64 (unat virt + i * 4096)"
    by (simp only: unsigned_of_nat) simp
  then have "unat (get_pt_offset (virt + of_nat i * PAGE_SIZE)) =
      take_bit 9 (drop_bit 12 (take_bit 64 (unat virt + i * 4096)))"
    by (simp only: unat_offsets take_bit_eq_mod drop_bit_eq_div) simp
  also have "\<dots> = take_bit 9 (drop_bit 12 (unat virt + i * 4096))"
    by (simp add: drop_bit_take_bit take_bit_take_bit)
  also have "\<dots> = (unat virt div 4096 + i) mod 512"
    by (simp add: take_bit_eq_mod drop_bit_eq_div add.commute)
  finally show ?thesis .
qed

lemma pt_offset_inj:
  assumes "0 < j" and "j < 512"
  shows "get_pt_offset (virt + of_nat j * PAGE_SIZE) \<noteq> get_pt_offset virt"
proof
  assume "get_pt_offset (virt + of_nat j * PAGE_SIZE) = get_pt_offset virt"
  then have "(unat virt div 4096 + j) mod 512 = (unat virt div 4096 + 0) mod 512"
    using unat_pt_offset_add [of virt j] unat_pt_offset_add [of virt 0] by simp
  then have "512 dvd j" using mod_eq_dvd_iff_nat [of "unat virt div 4096" "unat virt div 4096 + j" 512] by simp
  then show False using assms by (auto dest: dvd_imp_le)
qed

lemma virt_Suc: "virt + of_nat (Suc i) * PAGE_SIZE = virt + PAGE_SIZE + of_nat i * (PAGE_SIZE :: u64)"
  by (simp add: algebra_simps)

lemma fill_table_other:
  assumes "page_aligned pt" and "aligned8 b"
    and "\<And>j. j < n \<Longrightarrow> b \<noteq> pt + 8 * get_pt_offset (virt + of_nat j * PAGE_SIZE)"
  shows "load64 (fill_table m pt virt phys n) b = load64 m b"
  using assms(3)
proof (induction n arbitrary: m virt phys)
  case 0
  then show ?case by simp
next
  case (Suc n)
  have first: "b \<noteq> pt + 8 * get_pt_offset virt" using Suc.prems [of 0] by simp
  have "b \<noteq> pt + 8 * get_pt_offset (virt + PAGE_SIZE + of_nat j * PAGE_SIZE)" if "j < n" for j
    using Suc.prems [of "Suc j"] that unfolding virt_Suc by simp
  then show ?case
    using Suc.IH first assms(1,2) by (simp add: load64_put_entry offset_less)
qed

lemma fill_table_entry:
  assumes "page_aligned pt" and "n \<le> 512" and "i < n"
  shows "load64 (fill_table m pt virt phys n) (pt + 8 * get_pt_offset (virt + of_nat i * PAGE_SIZE)) =
    (phys + of_nat i * PAGE_SIZE) OR KERN_PERM_BITS"
  using assms(2,3)
proof (induction n arbitrary: m virt phys i)
  case 0
  then show ?case by simp
next
  case (Suc n)
  let ?m = "put_entry m pt (get_pt_offset virt) phys KERN_PERM_BITS"
  show ?case
  proof (cases i)
    case 0
    let ?b = "pt + 8 * get_pt_offset virt"
    have b: "aligned8 ?b" using assms(1) by (intro cell_aligned8 offset_less)
    have "?b \<noteq> pt + 8 * get_pt_offset (virt + PAGE_SIZE + of_nat j * PAGE_SIZE)" if "j < n" for j
    proof -
      have "get_pt_offset (virt + of_nat (Suc j) * PAGE_SIZE) \<noteq> get_pt_offset virt"
        using that Suc.prems by (intro pt_offset_inj) simp_all
      then show ?thesis
        unfolding virt_Suc using assms(1) by (simp only: cell_eq_iff offset_less) metis
    qed
    then have "load64 (fill_table ?m pt (virt + PAGE_SIZE) (phys + PAGE_SIZE) n) ?b = load64 ?m ?b"
      using assms(1) b by (intro fill_table_other)
    then show ?thesis using 0 assms(1) b by (simp add: load64_put_entry offset_less)
  next
    case (Suc j)
    have "load64 (fill_table ?m pt (virt + PAGE_SIZE) (phys + PAGE_SIZE) n)
        (pt + 8 * get_pt_offset (virt + PAGE_SIZE + of_nat j * PAGE_SIZE)) =
        (phys + PAGE_SIZE + of_nat j * PAGE_SIZE) OR KERN_PERM_BITS"
      using Suc Suc.prems by (intro Suc.IH) simp_all
    then show ?thesis unfolding Suc virt_Suc by simp
  qed
qed

lemma fill_table_outside:
  assumes "page_aligned pt" and "4096 \<le> unat (a - pt)"
  shows "fill_table m pt virt phys n a = m a"
  using assms by (induction n arbitrary: m virt phys) (simp_all add: put_entry_outside offset_less)

section \<open>Addresses of the kernel\<close>

lemma kernel_offsets:
  assumes "unat p < 2 ^ 30"
  shows "get_pml4_offset (VIRT_BASE + p) = 511" "get_pdp_offset (VIRT_BASE + p) = 510"
    "unat (get_pd_offset (VIRT_BASE + p)) = unat p div 2 ^ 21"
    "unat (get_pt_offset (VIRT_BASE + p)) = unat p div 2 ^ 12 mod 512"
proof -
  have "VIRT_BASE + p = VIRT_BASE + of_nat (unat p)" by simp
  moreover have "unat VIRT_BASE + unat p < 2 ^ 64" using assms by simp
  ultimately have u: "unat (VIRT_BASE + p) = 0xFFFFFFFF80000000 + unat p"
    using unat_add_of_nat [of VIRT_BASE "unat p"] by simp
  have split: "0xFFFFFFFF80000000 + unat p = unat p + 2 ^ 30 * (2 ^ 34 - 2)" by simp
  show pt: "unat (get_pt_offset (VIRT_BASE + p)) = unat p div 2 ^ 12 mod 512"
  proof -
    have *: "(unat p + 2 ^ 30 * (2 ^ 34 - 2)) div 2 ^ 12 = unat p div 2 ^ 12 + 512 * (2 ^ 9 * (2 ^ 34 - 2))"
      using div_mult_self2 [of "2 ^ 12" "unat p" "2 ^ 18 * (2 ^ 34 - 2)"] by simp
    show ?thesis unfolding unat_offsets u split * by (rule mod_mult_self2)
  qed
  show "unat (get_pd_offset (VIRT_BASE + p)) = unat p div 2 ^ 21"
  proof -
    have *: "(unat p + 2 ^ 30 * (2 ^ 34 - 2)) div 2 ^ 21 = unat p div 2 ^ 21 + 512 * (2 ^ 34 - 2)"
      using div_mult_self2 [of "2 ^ 21" "unat p" "2 ^ 9 * (2 ^ 34 - 2)"] by simp
    have "unat p div 2 ^ 21 < 512" using assms by (simp add: less_mult_imp_div_less)
    then show ?thesis unfolding unat_offsets u split * mod_mult_self2 by (rule mod_less)
  qed
  have "unat (get_pdp_offset (VIRT_BASE + p)) = 510"
  proof -
    have "(unat p + 2 ^ 30 * (2 ^ 34 - 2)) div 2 ^ 30 = 2 ^ 34 - 2" using assms by simp
    then show ?thesis unfolding unat_offsets u split by simp
  qed
  then show "get_pdp_offset (VIRT_BASE + p) = 510" by (simp add: word_unat_eq_iff)
  have "unat (get_pml4_offset (VIRT_BASE + p)) = 511"
  proof -
    have *: "0xFFFFFFFF80000000 + unat p = (unat p + 2 ^ 30 * 510) + 2 ^ 39 * (2 ^ 25 - 1)" by simp
    have "unat p + 2 ^ 30 * 510 < 2 ^ 39" using assms by simp
    then have "((unat p + 2 ^ 30 * 510) + 2 ^ 39 * (2 ^ 25 - 1)) div 2 ^ 39 = 2 ^ 25 - 1"
      by (subst div_mult_self2) simp_all
    then show ?thesis unfolding unat_offsets u * by (simp only:) simp
  qed
  then show "get_pml4_offset (VIRT_BASE + p) = 511" by (simp add: word_unat_eq_iff)
qed

end
