(* ===== verification/User_Paging.thy ===== *)
theory User_Paging
  imports Page_Walk
begin

text \<open>
  The mappings of user addresses: the compiled part of \<open>sys/user_paging.c\<close>. An operation that
  may print (\<open>increment_pml\<close>, and through it \<open>memmap\<close>) has an optional result, the others are
  total. \<open>virt_base_for_user\<close> is never assigned and stands for \<open>VIRT_BASE\<close>. The counters
  \<open>pt_count\<close>, \<open>pd_count\<close>, \<open>pdp_count\<close> and the variables \<open>knl_pt1\<close>, \<open>knl_pt2\<close> are not used by
  compiled code.
\<close>

section \<open>State\<close>

abbreviation virt_base_for_user :: u64 where
  "virt_base_for_user \<equiv> VIRT_BASE"

abbreviation START_PADDR_FOR_USRS :: u64 where
  "START_PADDR_FOR_USRS \<equiv> 0x5000000"

abbreviation START_VADDR_FOR_USRS :: u64 where
  "START_VADDR_FOR_USRS \<equiv> 0x8eee70000"

abbreviation PML_SAME_CTXT :: u64 where
  "PML_SAME_CTXT \<equiv> 0x0"

abbreviation PML_INC :: u64 where
  "PML_INC \<equiv> 0x0000008000000000"

abbreviation PML_MAX_INC :: u64 where
  "PML_MAX_INC \<equiv> 0x0000FF8000000000"

abbreviation ACCESSED_NOT_PRESENT :: u64 where
  "ACCESSED_NOT_PRESENT \<equiv> 0"

abbreviation SET_COW_RW :: u64 where
  "SET_COW_RW \<equiv> 1"

abbreviation RW_TO_COW :: u64 where
  "RW_TO_COW \<equiv> 2"

abbreviation NEW_PAGE :: u64 where
  "NEW_PAGE \<equiv> 3"

abbreviation GROWS_DOWN :: u64 where
  "GROWS_DOWN \<equiv> 5"

record user_paging = paging +
  usr_phys_addr :: u64
  user_addr :: u64
  usr_pml :: u64
  usr_pdp :: u64
  usr_pd :: u64
  usr_pt :: u64
  dif_ctxt :: bool
  pml_same_ctxt :: u64

section \<open>Operations\<close>

text \<open>The first two instructions of \<open>tlb_flush\<close> are not modelled: \<open>invlpg\<close> acts on the processor's cache of translations
  only, and the store to \<open>8(%rsp)\<close> goes to the frame of the calling C function, and such frames are not part of
  the store.\<close>

definition tlb_flush :: "u64 \<Rightarrow> 'a paging_scheme \<Rightarrow> 'a paging_scheme" where
  "tlb_flush pt s = s\<lparr>cr3 := pt, cr0 := enable_paging (cr0 s)\<rparr>"

definition get_user_virt_addr :: "bool \<Rightarrow> 'a user_paging_scheme \<Rightarrow> u64 \<times> 'a user_paging_scheme" where
  "get_user_virt_addr mapped s =
     (let buf_addr = user_addr s
      in if \<not> mapped
         then (buf_addr,
           if user_addr s + PAGE_SIZE < physbase s + virt_base_for_user
           then s\<lparr>user_addr := user_addr s + PAGE_SIZE\<rparr>
           else s\<lparr>user_addr := START_VADDR_FOR_USRS\<rparr>)
         else (buf_addr - PAGE_SIZE, s))"

definition get_user_phys_addr :: "bool \<Rightarrow> 'a user_paging_scheme \<Rightarrow> u64 \<times> 'a user_paging_scheme" where
  "get_user_phys_addr mapped s =
     (let buf_addr = usr_phys_addr s
      in if \<not> mapped
         then (buf_addr,
           if usr_phys_addr s + PAGE_SIZE < 0x6000000
           then s\<lparr>usr_phys_addr := usr_phys_addr s + PAGE_SIZE\<rparr>
           else s\<lparr>usr_phys_addr := START_PADDR_FOR_USRS\<rparr>)
         else (buf_addr - PAGE_SIZE, s))"

definition increment_pml :: "'a user_paging_scheme \<Rightarrow> (u64 \<times> 'a user_paging_scheme) option" where
  "increment_pml s =
     (let s1 = s\<lparr>pml_same_ctxt := pml_same_ctxt s + PML_INC\<rparr>
      in if pml_same_ctxt s1 = PML_MAX_INC
         then do {
           s2 \<leftarrow> kprintf (bytes ''Run out of PML offsets'' @ [char_newline] @
             bytes '' PMLs will be flushed'' @ [char_newline]) [] s1;
           let s3 = s2\<lparr>pml_same_ctxt := PML_SAME_CTXT\<rparr>;
           Some (pml_same_ctxt s3, s3)
         }
         else Some (pml_same_ctxt s1, s1))"

definition add_user_page ::
  "u64 \<Rightarrow> u64 \<Rightarrow> u64 \<Rightarrow> u64 \<Rightarrow> u64 \<Rightarrow> 'a user_paging_scheme \<Rightarrow> 'a user_paging_scheme" where
  "add_user_page virt pdp pd ptu perm s =
     (let (local_phys_addr, s1) = get_user_phys_addr False s;
          pml = pml4_shared s1;
          m1 = put_entry (store s1) ptu (get_pt_offset virt) local_phys_addr perm;
          m2 = put_entry m1 pd (get_pd_offset virt) (ptu - virt_base_for_user) perm;
          m3 = put_entry m2 pdp (get_pdp_offset virt) (pd - virt_base_for_user) perm;
          m4 = put_entry m3 pml (get_pml4_offset virt) (pdp - virt_base_for_user) perm
      in s1\<lparr>store := m4, usr_pt := ptu, usr_pd := pd, usr_pdp := pdp, usr_pml := pml,
           pml4_shared := pml\<rparr>)"

definition set_new_kpts ::
  "u64 \<Rightarrow> u64 \<Rightarrow> u64 \<Rightarrow> u64 \<Rightarrow> u64 \<Rightarrow> u64 \<Rightarrow> 'a paging_scheme \<Rightarrow> 'a paging_scheme" where
  "set_new_kpts ptk virt pdp pd pml phys_addr s =
     (let m1 = fill_table (store s) ptk virt phys_addr TABLE_SIZE;
          m2 = put_entry m1 pd (get_pd_offset virt) (ptk - virt_base_for_user) KERN_PERM_BITS;
          m3 = put_entry m2 pdp (get_pdp_offset virt) (pd - virt_base_for_user) KERN_PERM_BITS;
          m4 = put_entry m3 pml (get_pml4_offset virt) (pdp - virt_base_for_user) KERN_PERM_BITS
      in s\<lparr>store := m4, pd_shared := pd, pdp_shared := pdp, pml4_shared := pml\<rparr>)"

definition get_pt :: "u64 \<Rightarrow> u64 \<Rightarrow> 'a paging_scheme \<Rightarrow> u64 \<times> 'a paging_scheme" where
  "get_pt addr pd_lkup s =
     (let e = load64 (store s) (pd_lkup + 8 * get_pd_offset addr)
      in if e \<noteq> 0 then (e + VIRT_BASE, s) else page_alloc s)"

definition get_pd :: "u64 \<Rightarrow> u64 \<Rightarrow> 'a paging_scheme \<Rightarrow> u64 \<times> 'a paging_scheme" where
  "get_pd addr pdp_lkup s =
     (let e = load64 (store s) (pdp_lkup + 8 * get_pdp_offset addr)
      in if e \<noteq> 0 then (e + VIRT_BASE, s) else page_alloc s)"

definition get_pdp :: "u64 \<Rightarrow> u64 \<Rightarrow> 'a paging_scheme \<Rightarrow> u64 \<times> 'a paging_scheme" where
  "get_pdp addr pml_lkup s =
     (let e = load64 (store s) (pml_lkup + 8 * get_pml4_offset addr)
      in if e \<noteq> 0 then (e + VIRT_BASE, s) else page_alloc s)"

text \<open>The three lookups with their roundings, as \<open>set_kernel_page_user\<close>, \<open>change_permissions\<close>
  and the branches of \<open>memmap\<close> perform them.\<close>

definition lookup_tables ::
  "u64 \<Rightarrow> 'a user_paging_scheme \<Rightarrow> u64 \<times> u64 \<times> u64 \<times> 'a user_paging_scheme" where
  "lookup_tables addr s =
     (let (pdp, s1) = get_pdp addr (pml4_shared s) s; pdp = ROUNDDOWN pdp PAGE_SIZE;
          (pd, s2) = get_pd addr pdp s1; pd = ROUNDDOWN pd PAGE_SIZE;
          (pt, s3) = get_pt addr pd s2; pt = ROUNDDOWN pt PAGE_SIZE
      in (pdp, pd, pt, s3))"

definition page_floor :: "u64 \<Rightarrow> u64" where
  "page_floor v = push_bit 12 (drop_bit 12 v)"

text \<open>\<open>*(t + off) = v; *(t + off) = (*(t + off) >> 12) << 12; *(t + off) |= perm;\<close>\<close>

definition put_entry_floor :: "memory \<Rightarrow> u64 \<Rightarrow> u64 \<Rightarrow> u64 \<Rightarrow> u64 \<Rightarrow> memory" where
  "put_entry_floor m t off v perm =
     (let m1 = store64 m (t + 8 * off) v;
          m2 = store64 m1 (t + 8 * off) (page_floor (load64 m1 (t + 8 * off)))
      in store64 m2 (t + 8 * off) (load64 m2 (t + 8 * off) OR perm))"

definition set_kernel_page_user :: "u64 \<Rightarrow> 'a user_paging_scheme \<Rightarrow> 'a user_paging_scheme" where
  "set_kernel_page_user addr s =
     (let addr = page_floor addr;
          pml = pml4_shared s;
          (pdp, pd, pt, s1) = lookup_tables addr s;
          phys_addr = load64 (store s1) (pt + 8 * get_pt_offset addr);
          m1 = put_entry (store s1) pt (get_pt_offset addr) phys_addr USR_PERM_BITS;
          m2 = put_entry_floor m1 pd (get_pd_offset addr) (pt - virt_base_for_user) USR_PERM_BITS;
          m3 = put_entry_floor m2 pdp (get_pdp_offset addr) (pd - virt_base_for_user) USR_PERM_BITS;
          m4 = put_entry_floor m3 pml (get_pml4_offset addr) (pml - virt_base_for_user) USR_PERM_BITS
      in tlb_flush (pml4_shared s1 - virt_base_for_user) (s1\<lparr>store := m4\<rparr>))"

definition change_permissions ::
  "u64 \<Rightarrow> u64 \<Rightarrow> 'a user_paging_scheme \<Rightarrow> 'a user_paging_scheme" where
  "change_permissions addr perm s =
     (let pml = pml4_shared s;
          (pdp, pd, pt, s1) = lookup_tables addr s;
          pte = pt + 8 * get_pt_offset addr;
          m1 = store64 (store s1) pte (page_floor (load64 (store s1) pte) OR perm);
          m2 = store64 m1 (pd + 8 * get_pd_offset addr) (pt - virt_base_for_user);
          m3 = store64 m2 (pdp + 8 * get_pdp_offset addr) (pd - virt_base_for_user);
          m4 = store64 m3 (pml + 8 * get_pml4_offset addr) (pdp - virt_base_for_user)
      in s1\<lparr>store := m4, usr_pt := pt, usr_pd := pd, usr_pdp := pdp, usr_pml := pml\<rparr>)"

text \<open>The loop \<open>while (pages--)\<close> of \<open>memmap\<close> with the iterations left. The branches differ in
  the address that they map, as a function of \<open>addr\<close>.\<close>

fun memmap_loop ::
  "(u64 \<Rightarrow> u64) \<Rightarrow> u64 \<Rightarrow> u64 \<Rightarrow> u64 \<Rightarrow> u64 \<Rightarrow> nat \<Rightarrow> u64 \<Rightarrow> 'a user_paging_scheme \<Rightarrow>
   u64 \<times> 'a user_paging_scheme" where
  "memmap_loop va_of pdp pd ptu perm 0 addr s = (addr, s)"
| "memmap_loop va_of pdp pd ptu perm (Suc pages) addr s =
     memmap_loop va_of pdp pd ptu perm pages (if pages \<noteq> 0 then addr + PAGE_SIZE else addr)
       (add_user_page (va_of addr) pdp pd ptu perm s)"

fun cow_loop :: "nat \<Rightarrow> nat \<Rightarrow> u64 \<Rightarrow> u64 \<Rightarrow> 'a user_paging_scheme \<Rightarrow> 'a user_paging_scheme" where
  "cow_loop i 0 addr prot s = s"
| "cow_loop i (Suc n) addr prot s =
     cow_loop (Suc i) n addr prot
       (change_permissions (ROUNDDOWN (addr + of_nat i * PAGE_SIZE) PAGE_SIZE) prot s)"

text \<open>The lookups of the page-fault and allocation branches, which record the tables.\<close>

definition memmap_tables ::
  "u64 \<Rightarrow> 'a user_paging_scheme \<Rightarrow> u64 \<times> u64 \<times> u64 \<times> 'a user_paging_scheme" where
  "memmap_tables addr s =
     (let (pdp, pd, ptu, s1) = lookup_tables addr s
      in (pdp, pd, ptu, s1\<lparr>usr_pdp := pdp, usr_pd := pd, usr_pt := ptu\<rparr>))"

definition memmap_context_switch ::
  "nat \<Rightarrow> 'a user_paging_scheme \<Rightarrow> u64 \<times> 'a user_paging_scheme" where
  "memmap_context_switch pages s =
     (let base_addr = physbase s;
          kern_end = physbase s + of_nat TABLE_SIZE * PAGE_SIZE;
          kern_extra = physbase s + 2 * of_nat TABLE_SIZE * PAGE_SIZE;
          (init_ptk, s) = page_alloc s; (ptkern, s) = page_alloc s;
          (ptk1, s) = page_alloc s; (ptk2, s) = page_alloc s;
          (ptu, s) = page_alloc s; (pd, s) = page_alloc s;
          (pdp, s) = page_alloc s; (pml, s) = page_alloc s;
          (addr, s) = get_user_virt_addr False s;
          s = set_new_kpts init_ptk VIRT_BASE pdp pd pml 0 s;
          s = set_new_kpts ptkern (VIRT_BASE + base_addr) pdp pd pml base_addr s;
          s = set_new_kpts ptk1 (VIRT_BASE + kern_end) pdp pd pml kern_end s;
          s = set_new_kpts ptk2 (VIRT_BASE + kern_extra) pdp pd pml kern_extra s
      in memmap_loop (\<lambda>a. a) pdp pd ptu USR_PERM_BITS pages addr s)"

definition memmap ::
  "u64 \<Rightarrow> u64 \<Rightarrow> u64 \<Rightarrow> u64 \<Rightarrow> 'a user_paging_scheme \<Rightarrow> (u64 \<times> 'a user_paging_scheme) option" where
  "memmap addr len prot flags s =
     (let pages = ucast (len div PAGE_SIZE) :: u32;
          pages = (if len mod PAGE_SIZE \<noteq> 0 then pages + 1 else pages)
      in do {
        (addr', s') \<leftarrow>
          (if flags = ACCESSED_NOT_PRESENT then
             (let (pdp, pd, ptu, s1) = memmap_tables addr s
              in Some (memmap_loop (\<lambda>a. ROUNDDOWN a PAGE_SIZE) pdp pd ptu prot (unat pages) addr s1))
           else if flags = SET_COW_RW then
             (let (addr, s0) = get_user_virt_addr False s;
                  (pdp, pd, ptu, s1) = memmap_tables addr s0
              in Some (addr, add_user_page (ROUNDDOWN addr PAGE_SIZE) pdp pd ptu prot s1))
           else if flags = RW_TO_COW then
             Some (addr, cow_loop 0 (nat (sint pages)) addr prot s)
           else if flags = NEW_PAGE then
             do {
               (addr, s0) \<leftarrow>
                 (if \<not> dif_ctxt s
                  then (let (virt, s0) = get_user_virt_addr False s
                    in do { (inc, s1) \<leftarrow> increment_pml s0; Some (virt + inc, s1) })
                  else Some (get_user_virt_addr False s));
               let (pdp, pd, ptu, s1) = memmap_tables addr s0;
               Some (memmap_loop (\<lambda>a. a) pdp pd ptu USR_PERM_BITS (unat pages) addr s1)
             }
           else if flags = GROWS_DOWN then
             (let (addr, s0) = get_user_virt_addr False s;
                  (pdp, pd, ptu, s1) = memmap_tables addr s0
              in Some (memmap_loop (\<lambda>a. a - PAGE_SIZE) pdp pd ptu USR_PERM_BITS (unat pages) addr s1))
           else Some (memmap_context_switch (unat pages) s));
        Some (addr', tlb_flush (pml4_shared s' - VIRT_BASE) s')
      })"

section \<open>Distances from the base of the kernel\<close>

definition koff :: "u64 \<Rightarrow> nat" where
  "koff a = unat (a - VIRT_BASE)"

lemma koff_diff:
  assumes "koff b \<le> koff a"
  shows "unat (a - b) = koff a - koff b"
proof -
  have "b - VIRT_BASE \<le> a - VIRT_BASE" using assms by (simp add: koff_def word_le_nat_alt)
  then have "unat ((a - VIRT_BASE) - (b - VIRT_BASE)) = koff a - koff b"
    by (simp only: unat_sub koff_def)
  then show ?thesis by simp
qed

lemma koff_diff_neg:
  assumes "koff a < koff b"
  shows "unat (a - b) = 2 ^ 64 - (koff b - koff a)"
proof -
  have "a \<noteq> b" using assms by auto
  then have "unat (a - b) + unat (b - a) = 2 ^ 64" by (rule unat_diff_neg)
  then show ?thesis using koff_diff [of a b] assms by simp
qed

lemma koff_add: "koff a + k < 2 ^ 64 \<Longrightarrow> koff (a + of_nat k) = koff a + k"
proof -
  assume "koff a + k < 2 ^ 64"
  moreover have "a + of_nat k - VIRT_BASE = (a - VIRT_BASE) + of_nat k" by simp
  ultimately show ?thesis unfolding koff_def by (simp only: unat_add_of_nat)
qed

lemma koff_eq: "koff a = koff b \<Longrightarrow> a = b"
proof -
  assume "koff a = koff b"
  then have "a - VIRT_BASE = b - VIRT_BASE" by (simp add: koff_def word_unat_eq_iff)
  then show "a = b" by simp
qed

section \<open>The layout of the page pool\<close>

text \<open>
  The free list is followed by the pool, and all tables are pages of the pool below the frame
  pointer. \<open>layout_ok n s\<close> says that \<open>n\<close> more pages can be handed out below 2 GiB and that the
  free list has \<open>n\<close> more slots; \<open>pool_page s p\<close> that \<open>p\<close> is the address of a page handed out.
\<close>

definition layout_ok :: "nat \<Rightarrow> 'a paging_scheme \<Rightarrow> bool" where
  "layout_ok n s \<longleftrightarrow> page_aligned (next_frame s) \<and>
     koff (freelist s) + 98304 \<le> unat (next_frame s) \<and>
     unat (next_frame s) + n * 4096 \<le> 2 ^ 31 \<and> unat (counter s) + n \<le> 24576"

definition pool_page :: "'a paging_scheme \<Rightarrow> u64 \<Rightarrow> bool" where
  "pool_page s p \<longleftrightarrow> page_aligned p \<and> koff (freelist s) + 98304 \<le> koff p \<and>
     koff p + 4096 \<le> unat (next_frame s)"

definition in_pool :: "'a paging_scheme \<Rightarrow> u64 \<Rightarrow> bool" where
  "in_pool s a \<longleftrightarrow> koff (freelist s) + 98304 \<le> koff a \<and> koff a < unat (next_frame s)"

lemma koff_head: "koff (fst (page_alloc s)) = unat (next_frame s)"
  by (simp add: koff_def page_alloc_head)

lemma koff_slot:
  assumes "layout_ok (Suc n) s"
  shows "koff (freelist_slot s) = koff (freelist s) + 4 * unat (counter s)"
proof -
  have c: "unat (counter s) < 24576" using assms by (simp add: layout_ok_def)
  then have "(scast (counter s) :: u64) = of_nat (unat (counter s))" by (intro scast_nonneg) simp
  then have "freelist_slot s = freelist s + of_nat (4 * unat (counter s))"
    by (simp add: freelist_slot_def)
  moreover have "koff (freelist s) + 4 * unat (counter s) < 2 ^ 64"
    using assms c by (simp add: layout_ok_def)
  ultimately show ?thesis by (simp only: koff_add)
qed

lemma unat_next_frame:
  "layout_ok (Suc n) s \<Longrightarrow> unat (next_frame s + PAGE_SIZE) = unat (next_frame s) + 4096"
  using unat_add_of_nat [of "next_frame s" 4096] by (simp add: layout_ok_def)

lemma page_alloc_in_pool:
  assumes "layout_ok (Suc n) s" and "in_pool s a"
  shows "store (snd (page_alloc s)) a = store s a"
proof (rule frames.alloc_keep)
  have "koff a < koff (fst (page_alloc s))" using assms(2) by (simp add: in_pool_def koff_head)
  moreover have "koff (fst (page_alloc s)) \<le> 2 ^ 31" using assms(1) by (simp add: layout_ok_def koff_head)
  ultimately show "4096 \<le> unat (a - fst (page_alloc s))" by (subst koff_diff_neg) simp_all
  have "koff (freelist_slot s) + 4 \<le> koff a"
    using assms koff_slot [OF assms(1)] by (simp add: layout_ok_def in_pool_def)
  then show "4 \<le> unat (a - freelist_slot s)" by (subst koff_diff) simp_all
qed

lemma layout_ok_alloc:
  assumes "layout_ok (Suc n) s"
  shows "layout_ok n (snd (page_alloc s))"
proof -
  have "unat (counter s + 1) = unat (counter s) + 1"
    using assms by (subst unat_word_ariths) (simp add: layout_ok_def)
  then show ?thesis
    using assms unat_next_frame [OF assms]
    by (simp add: layout_ok_def page_alloc_fields page_aligned_add)
qed

lemma layout_ok_mono: "layout_ok n s \<Longrightarrow> k \<le> n \<Longrightarrow> layout_ok k s"
  by (simp add: layout_ok_def)

lemma pool_page_alloc: "layout_ok (Suc n) s \<Longrightarrow> pool_page s p \<Longrightarrow> pool_page (snd (page_alloc s)) p"
  by (simp add: pool_page_def page_alloc_fields unat_next_frame)

lemma pool_page_fresh:
  assumes "layout_ok (Suc n) s"
  shows "pool_page (snd (page_alloc s)) (fst (page_alloc s))" and "\<not> pool_page s (fst (page_alloc s))"
  using assms unat_next_frame [OF assms] koff_head [of s]
  by (simp_all add: pool_page_def layout_ok_def page_alloc_fields page_alloc_head page_aligned_add)

lemma in_pool_cell:
  assumes "pool_page s p" and "unat i < 512" and "j < 8"
  shows "in_pool s (p + 8 * i + of_nat j)"
proof -
  have "p + 8 * i + of_nat j = p + of_nat (8 * unat i + j)" by simp
  moreover have "koff p + (8 * unat i + j) < 2 ^ 64"
    using assms unat_bound64 [of "next_frame s"] by (simp add: pool_page_def)
  ultimately have "koff (p + 8 * i + of_nat j) = koff p + (8 * unat i + j)" by (simp only: koff_add)
  then show ?thesis using assms by (simp add: pool_page_def in_pool_def)
qed

lemma load64_page_alloc:
  "layout_ok (Suc n) s \<Longrightarrow> pool_page s p \<Longrightarrow> unat i < 512 \<Longrightarrow>
   load64 (store (snd (page_alloc s))) (p + 8 * i) = load64 (store s) (p + 8 * i)"
  by (rule load64_cong) (simp add: page_alloc_in_pool in_pool_cell)

lemma load64_fresh:
  assumes "unat i < 512"
  shows "load64 (store (snd (page_alloc s))) (fst (page_alloc s) + 8 * i) = 0"
proof (rule load64_zero, rule frames.alloc_zero)
  fix j :: nat
  assume "j < 8"
  then have "unat (of_nat (8 * unat i + j) :: u64) = 8 * unat i + j"
    using assms by (intro unat_of_nat64) simp
  moreover have "fst (page_alloc s) + 8 * i + of_nat j - fst (page_alloc s) = of_nat (8 * unat i + j)"
    by simp
  ultimately show "unat (fst (page_alloc s) + 8 * i + of_nat j - fst (page_alloc s)) < 4096"
    using assms \<open>j < 8\<close> by simp
qed

text \<open>One state extends another when the tables of the first are still there with their
  entries.\<close>

definition extends :: "'a paging_scheme \<Rightarrow> 'a paging_scheme \<Rightarrow> bool" where
  "extends s s' \<longleftrightarrow> (\<forall>p. pool_page s p \<longrightarrow> pool_page s' p \<and>
     (\<forall>i. unat i < 512 \<longrightarrow> load64 (store s') (p + 8 * i) = load64 (store s) (p + 8 * i)))"

lemma extends_refl [simp]: "extends s s"
  by (simp add: extends_def)

lemma extends_trans: "extends s s' \<Longrightarrow> extends s' s'' \<Longrightarrow> extends s s''"
  by (simp add: extends_def)

lemma extends_alloc: "layout_ok (Suc n) s \<Longrightarrow> extends s (snd (page_alloc s))"
  by (simp add: extends_def pool_page_alloc load64_page_alloc)

section \<open>The interface of a table level\<close>

text \<open>The address of the table that an entry refers to, in the arithmetic of the code.\<close>

definition table_of :: "u64 \<Rightarrow> u64" where
  "table_of e = ROUNDDOWN (e + VIRT_BASE) PAGE_SIZE"

text \<open>
  The functions \<open>get_pdp\<close>, \<open>get_pd\<close> and \<open>get_pt\<close> are one operation at three levels: they take
  the table that an entry refers to, or a fresh page when the entry is zero.
\<close>

locale page_level =
  fixes get :: "u64 \<Rightarrow> u64 \<Rightarrow> 'a paging_scheme \<Rightarrow> u64 \<times> 'a paging_scheme"
    and off :: "u64 \<Rightarrow> u64"
  assumes get_used: "load64 (store s) (lkup + 8 * off addr) \<noteq> 0 \<Longrightarrow>
      get addr lkup s = (load64 (store s) (lkup + 8 * off addr) + VIRT_BASE, s)"
    and get_free: "load64 (store s) (lkup + 8 * off addr) = 0 \<Longrightarrow> get addr lkup s = page_alloc s"
    and off_less: "unat (off v) < 512"
begin

lemma get_table:
  assumes "layout_ok (Suc n) s" and "pool_page s lkup"
    and used: "load64 (store s) (lkup + 8 * off addr) \<noteq> 0 \<Longrightarrow>
      pool_page s (table_of (load64 (store s) (lkup + 8 * off addr)))"
  obtains t s' where "get addr lkup s = (t, s')" and "layout_ok n s'" and "extends s s'"
    and "pool_page s' (ROUNDDOWN t PAGE_SIZE)" and "s' = s \<or> s' = snd (page_alloc s)"
    and "load64 (store s) (lkup + 8 * off addr) \<noteq> 0 \<and> s' = s \<and>
        ROUNDDOWN t PAGE_SIZE = table_of (load64 (store s) (lkup + 8 * off addr)) \<or>
      load64 (store s) (lkup + 8 * off addr) = 0 \<and> \<not> pool_page s (ROUNDDOWN t PAGE_SIZE) \<and>
        (\<forall>i. unat i < 512 \<longrightarrow> load64 (store s') (ROUNDDOWN t PAGE_SIZE + 8 * i) = 0)"
proof (cases "load64 (store s) (lkup + 8 * off addr) = 0")
  case True
  let ?t = "fst (page_alloc s)" and ?s = "snd (page_alloc s)"
  have round: "ROUNDDOWN ?t PAGE_SIZE = ?t"
    using pool_page_fresh(1) [OF assms(1)]
    by (simp add: word_unat_eq_iff unat_ROUNDDOWN pool_page_def page_aligned_def)
  show thesis
  proof (rule that [of ?t ?s])
    show "get addr lkup s = (?t, ?s)" using get_free [OF True] by simp
    show "layout_ok n ?s" using assms(1) by (rule layout_ok_alloc)
    show "extends s ?s" using assms(1) by (rule extends_alloc)
    show "pool_page ?s (ROUNDDOWN ?t PAGE_SIZE)" using pool_page_fresh(1) [OF assms(1)] by (simp only: round)
  qed (use True pool_page_fresh(2) [OF assms(1)] load64_fresh in \<open>auto simp only: round\<close>)
next
  case False
  show thesis
  proof (rule that [of "load64 (store s) (lkup + 8 * off addr) + VIRT_BASE" s])
    show "get addr lkup s = (load64 (store s) (lkup + 8 * off addr) + VIRT_BASE, s)"
      using False by (rule get_used)
    show "layout_ok n s" using assms(1) by (rule layout_ok_mono) simp
    show "pool_page s (ROUNDDOWN (load64 (store s) (lkup + 8 * off addr) + VIRT_BASE) PAGE_SIZE)"
      using used [OF False] by (simp add: table_of_def)
  qed (use False in \<open>simp_all add: table_of_def\<close>)
qed

end

interpretation pdp_level: page_level get_pdp get_pml4_offset
  by unfold_locales (simp_all add: get_pdp_def offset_less)

interpretation pd_level: page_level get_pd get_pdp_offset
  by unfold_locales (simp_all add: get_pd_def offset_less)

interpretation pt_level: page_level get_pt get_pd_offset
  by unfold_locales (simp_all add: get_pt_def offset_less)

section \<open>Finding or making the tables of an address\<close>

text \<open>The part of the tables that an address uses so far is in order: the entries on its path are
  zero or refer to pages of the pool, and no table occurs twice on the path.\<close>

definition path_ok :: "'a user_paging_scheme \<Rightarrow> u64 \<Rightarrow> bool" where
  "path_ok s addr \<longleftrightarrow>
     (let pml = pml4_shared s;
          e4 = load64 (store s) (pml + 8 * get_pml4_offset addr); pdp = table_of e4;
          e3 = load64 (store s) (pdp + 8 * get_pdp_offset addr); pd = table_of e3;
          e2 = load64 (store s) (pd + 8 * get_pd_offset addr); pt = table_of e2
      in pool_page s pml \<and>
         (e4 \<noteq> 0 \<longrightarrow> pool_page s pdp \<and> pdp \<noteq> pml \<and>
           (e3 \<noteq> 0 \<longrightarrow> pool_page s pd \<and> pd \<notin> {pml, pdp} \<and>
             (e2 \<noteq> 0 \<longrightarrow> pool_page s pt \<and> pt \<notin> {pml, pdp, pd}))))"

lemma page_alloc_user_fields [simp]:
  "usr_phys_addr (snd (page_alloc s)) = usr_phys_addr s"
  "user_addr (snd (page_alloc s)) = user_addr s"
  "pml4_shared (snd (page_alloc s)) = pml4_shared s"
  by (simp_all add: page_alloc_def clear_freelist_slot_def Let_def)

lemma lookup_tables_ok:
  assumes layout: "layout_ok 3 s" and path: "path_ok s addr"
  obtains pdp pd pt s' where "lookup_tables addr s = (pdp, pd, pt, s')" and "extends s s'"
    and "pool_page s' (pml4_shared s)" "pool_page s' pdp" "pool_page s' pd" "pool_page s' pt"
    and "distinct [pml4_shared s, pdp, pd, pt]"
    and "pml4_shared s' = pml4_shared s" and "usr_phys_addr s' = usr_phys_addr s"
    and "unat (next_frame s') \<le> 2 ^ 31"
proof -
  let ?pml = "pml4_shared s"
  let ?e4 = "load64 (store s) (?pml + 8 * get_pml4_offset addr)"
  have pml: "pool_page s ?pml" using path by (simp add: path_ok_def Let_def)
  obtain t1 s1 where 1: "get_pdp addr ?pml s = (t1, s1)" "layout_ok 2 s1" "extends s s1"
      "pool_page s1 (ROUNDDOWN t1 PAGE_SIZE)" "s1 = s \<or> s1 = snd (page_alloc s)"
    and alt1: "?e4 \<noteq> 0 \<and> s1 = s \<and> ROUNDDOWN t1 PAGE_SIZE = table_of ?e4 \<or>
      ?e4 = 0 \<and> \<not> pool_page s (ROUNDDOWN t1 PAGE_SIZE) \<and>
      (\<forall>i. unat i < 512 \<longrightarrow> load64 (store s1) (ROUNDDOWN t1 PAGE_SIZE + 8 * i) = 0)"
    by (rule pdp_level.get_table [of 2 s ?pml addr]) (use layout pml path in \<open>auto simp add: path_ok_def Let_def\<close>)
  define pdp where "pdp = ROUNDDOWN t1 PAGE_SIZE"
  note alt1 = alt1 [folded pdp_def]
  have pool1: "pool_page s1 ?pml" "pool_page s1 pdp" using 1 pml by (simp_all add: extends_def pdp_def)
  have ne1: "pdp \<noteq> ?pml" using alt1 path pml by (auto simp add: path_ok_def Let_def)
  let ?e3 = "load64 (store s1) (pdp + 8 * get_pdp_offset addr)"
  have used3: "s1 = s \<and> pdp = table_of ?e4 \<and> ?e4 \<noteq> 0" if "?e3 \<noteq> 0"
    using alt1 that offset_less by auto
  obtain t2 s2 where 2: "get_pd addr pdp s1 = (t2, s2)" "layout_ok 1 s2" "extends s1 s2"
      "pool_page s2 (ROUNDDOWN t2 PAGE_SIZE)" "s2 = s1 \<or> s2 = snd (page_alloc s1)"
    and alt2: "?e3 \<noteq> 0 \<and> s2 = s1 \<and> ROUNDDOWN t2 PAGE_SIZE = table_of ?e3 \<or>
      ?e3 = 0 \<and> \<not> pool_page s1 (ROUNDDOWN t2 PAGE_SIZE) \<and>
      (\<forall>i. unat i < 512 \<longrightarrow> load64 (store s2) (ROUNDDOWN t2 PAGE_SIZE + 8 * i) = 0)"
    by (rule pd_level.get_table [of 1 s1 pdp addr])
      (use 1 pool1 path used3 in \<open>auto simp add: path_ok_def Let_def numeral_2_eq_2\<close>)
  define pd where "pd = ROUNDDOWN t2 PAGE_SIZE"
  note alt2 = alt2 [folded pd_def]
  have pool2: "pool_page s2 ?pml" "pool_page s2 pdp" "pool_page s2 pd"
    using 2 pool1 by (simp_all add: extends_def pd_def)
  have ne2: "pd \<notin> {?pml, pdp}" using alt2 path pool1 used3 by (auto simp add: path_ok_def Let_def)
  let ?e2 = "load64 (store s2) (pd + 8 * get_pd_offset addr)"
  have used2: "s2 = s \<and> ?e3 \<noteq> 0 \<and> pd = table_of ?e3" if "?e2 \<noteq> 0"
    using alt2 that offset_less used3 by auto
  obtain t3 s3 where 3: "get_pt addr pd s2 = (t3, s3)" "layout_ok 0 s3" "extends s2 s3"
      "pool_page s3 (ROUNDDOWN t3 PAGE_SIZE)" "s3 = s2 \<or> s3 = snd (page_alloc s2)"
    and alt3: "?e2 \<noteq> 0 \<and> s3 = s2 \<and> ROUNDDOWN t3 PAGE_SIZE = table_of ?e2 \<or>
      ?e2 = 0 \<and> \<not> pool_page s2 (ROUNDDOWN t3 PAGE_SIZE) \<and>
      (\<forall>i. unat i < 512 \<longrightarrow> load64 (store s3) (ROUNDDOWN t3 PAGE_SIZE + 8 * i) = 0)"
    by (rule pt_level.get_table [of 0 s2 pd addr])
      (use 2 pool2 path used2 used3 in \<open>auto simp add: path_ok_def Let_def\<close>)
  define pt where "pt = ROUNDDOWN t3 PAGE_SIZE"
  note alt3 = alt3 [folded pt_def]
  have ne3: "pt \<notin> {?pml, pdp, pd}"
    using alt3 path pool2 used2 used3 by (auto simp add: path_ok_def Let_def)
  show thesis
  proof (rule that [of pdp pd pt s3])
    show "lookup_tables addr s = (pdp, pd, pt, s3)"
      using 1(1) 2(1) 3(1) by (simp add: lookup_tables_def pdp_def pd_def pt_def)
    show "extends s s3" using 1(3) 2(3) 3(3) by (metis extends_trans)
    show "pool_page s3 ?pml" "pool_page s3 pdp" "pool_page s3 pd" "pool_page s3 pt"
      using 3 pool2 by (simp_all add: extends_def pt_def)
    show "distinct [?pml, pdp, pd, pt]" using ne1 ne2 ne3 by auto
    show "pml4_shared s3 = ?pml" "usr_phys_addr s3 = usr_phys_addr s" using 1(5) 2(5) 3(5) by auto
    show "unat (next_frame s3) \<le> 2 ^ 31" using 3(2) by (simp add: layout_ok_def)
  qed
qed

section \<open>Mapping one page\<close>

lemma frame_ok_pool: "pool_page s p \<Longrightarrow> unat (next_frame s) \<le> 2 ^ 31 \<Longrightarrow> frame_ok (p - VIRT_BASE)"
  by (simp add: pool_page_def frame_ok_def page_aligned_diff koff_def)

text \<open>The four cells that describe the translation of an address, given its tables.\<close>

definition path_cells :: "u64 \<Rightarrow> u64 \<Rightarrow> u64 \<Rightarrow> u64 \<Rightarrow> u64 \<Rightarrow> u64 set" where
  "path_cells pml pdp pd pt va =
     {pml + 8 * get_pml4_offset va, pdp + 8 * get_pdp_offset va,
      pd + 8 * get_pd_offset va, pt + 8 * get_pt_offset va}"

text \<open>The entries that lead to the page: all four carry the permissions of the page.\<close>

definition path_entries :: "memory \<Rightarrow> u64 \<Rightarrow> u64 \<Rightarrow> u64 \<Rightarrow> u64 \<Rightarrow> u64 \<Rightarrow> u64 \<Rightarrow> u64 \<Rightarrow> bool" where
  "path_entries m pml pdp pd pt frame perm va \<longleftrightarrow>
     load64 m (pml + 8 * get_pml4_offset va) = (pdp - VIRT_BASE) OR perm \<and>
     load64 m (pdp + 8 * get_pdp_offset va) = (pd - VIRT_BASE) OR perm \<and>
     load64 m (pd + 8 * get_pd_offset va) = (pt - VIRT_BASE) OR perm \<and>
     load64 m (pt + 8 * get_pt_offset va) = frame OR perm"

lemma store_add_user_page:
  "store (add_user_page virt pdp pd ptu perm s) =
     put_entry (put_entry (put_entry (put_entry (store s)
       ptu (get_pt_offset virt) (usr_phys_addr s) perm)
       pd (get_pd_offset virt) (ptu - VIRT_BASE) perm)
       pdp (get_pdp_offset virt) (pd - VIRT_BASE) perm)
       (pml4_shared s) (get_pml4_offset virt) (pdp - VIRT_BASE) perm"
  by (simp add: add_user_page_def get_user_phys_addr_def Let_def)

lemma add_user_page_cells:
  fixes virt perm :: u64
  assumes aligned: "page_aligned (pml4_shared s)" "page_aligned pdp" "page_aligned pd" "page_aligned pt"
    and dist: "distinct [pml4_shared s, pdp, pd, pt]"
  defines "m \<equiv> store (add_user_page virt pdp pd pt perm s)"
  shows "load64 m (pml4_shared s + 8 * get_pml4_offset virt) = (pdp - VIRT_BASE) OR perm"
    and "load64 m (pdp + 8 * get_pdp_offset virt) = (pd - VIRT_BASE) OR perm"
    and "load64 m (pd + 8 * get_pd_offset virt) = (pt - VIRT_BASE) OR perm"
    and "load64 m (pt + 8 * get_pt_offset virt) = usr_phys_addr s OR perm"
    and "aligned8 b \<Longrightarrow> b \<notin> path_cells (pml4_shared s) pdp pd pt virt \<Longrightarrow> load64 m b = load64 (store s) b"
proof -
  have ne: "pdp \<noteq> pml4_shared s" "pd \<noteq> pml4_shared s" "pt \<noteq> pml4_shared s"
    "pd \<noteq> pdp" "pt \<noteq> pdp" "pt \<noteq> pd"
    using dist by auto
  note simps = load64_put_entry aligned offset_less cell_aligned8 cell_eq_iff ne
  show "load64 m (pml4_shared s + 8 * get_pml4_offset virt) = (pdp - VIRT_BASE) OR perm"
    "load64 m (pdp + 8 * get_pdp_offset virt) = (pd - VIRT_BASE) OR perm"
    "load64 m (pd + 8 * get_pd_offset virt) = (pt - VIRT_BASE) OR perm"
    "load64 m (pt + 8 * get_pt_offset virt) = usr_phys_addr s OR perm"
    unfolding m_def store_add_user_page by (simp_all add: simps)
  show "aligned8 b \<Longrightarrow> b \<notin> path_cells (pml4_shared s) pdp pd pt virt \<Longrightarrow>
      load64 m b = load64 (store s) b"
    unfolding m_def store_add_user_page path_cells_def by (simp add: simps)
qed

lemma add_user_page_walk:
  assumes pool: "pool_page s (pml4_shared s)" "pool_page s pdp" "pool_page s pd" "pool_page s pt"
    and dist: "distinct [pml4_shared s, pdp, pd, pt]" and top: "unat (next_frame s) \<le> 2 ^ 31"
    and page: "frame_ok (usr_phys_addr s)" and perm: "perm_ok perm"
    and offs: "get_pml4_offset va = get_pml4_offset virt" "get_pdp_offset va = get_pdp_offset virt"
      "get_pd_offset va = get_pd_offset virt" "get_pt_offset va = get_pt_offset virt"
  shows "walk VIRT_BASE (store (add_user_page virt pdp pd pt perm s)) (pml4_shared s - VIRT_BASE) va =
    Some (usr_phys_addr s + (va AND 0xFFF), perm)"
proof -
  have aligned: "page_aligned (pml4_shared s)" "page_aligned pdp" "page_aligned pd" "page_aligned pt"
    using pool by (simp_all add: pool_page_def)
  note frames_ok = pool [THEN frame_ok_pool, OF top]
  have "VIRT_BASE + entry_base (pml4_shared s - VIRT_BASE) = pml4_shared s"
    using frames_ok(1) by (simp add: entry_base_frame)
  then have "walk VIRT_BASE (store (add_user_page virt pdp pd pt perm s)) (pml4_shared s - VIRT_BASE) va =
      Some (usr_phys_addr s + (va AND 0xFFF), perm AND perm AND perm AND perm)"
    using add_user_page_cells [OF aligned dist, of virt perm] frames_ok page perm
    by (intro walk_path [where pdp = "pdp - VIRT_BASE" and pd = "pd - VIRT_BASE" and pt = "pt - VIRT_BASE"])
      (simp_all add: offs)
  then show ?thesis by simp
qed

lemma offsets_ROUNDDOWN:
  "get_pml4_offset (ROUNDDOWN v PAGE_SIZE) = get_pml4_offset v"
  "get_pdp_offset (ROUNDDOWN v PAGE_SIZE) = get_pdp_offset v"
  "get_pd_offset (ROUNDDOWN v PAGE_SIZE) = get_pd_offset v"
  "get_pt_offset (ROUNDDOWN v PAGE_SIZE) = get_pt_offset v"
proof -
  have u: "unat (ROUNDDOWN v PAGE_SIZE) = 4096 * (unat v div 4096)"
    by (simp add: unat_ROUNDDOWN minus_mod_eq_mult_div)
  have d: "4096 * (unat v div 4096) div (4096 * k) = unat v div (4096 * k)" for k
    by (simp add: div_mult2_eq)
  show "get_pt_offset (ROUNDDOWN v PAGE_SIZE) = get_pt_offset v"
    unfolding word_unat_eq_iff unat_offsets u using d [of 1] by simp
  show "get_pd_offset (ROUNDDOWN v PAGE_SIZE) = get_pd_offset v"
    unfolding word_unat_eq_iff unat_offsets u using d [of 512] by simp
  show "get_pdp_offset (ROUNDDOWN v PAGE_SIZE) = get_pdp_offset v"
    unfolding word_unat_eq_iff unat_offsets u using d [of 262144] by simp
  show "get_pml4_offset (ROUNDDOWN v PAGE_SIZE) = get_pml4_offset v"
    unfolding word_unat_eq_iff unat_offsets u using d [of 134217728] by simp
qed

lemma offsets_same_page:
  assumes "ROUNDDOWN va PAGE_SIZE = ROUNDDOWN addr PAGE_SIZE"
  shows "get_pml4_offset va = get_pml4_offset addr" "get_pdp_offset va = get_pdp_offset addr"
    "get_pd_offset va = get_pd_offset addr" "get_pt_offset va = get_pt_offset addr"
  using assms by (metis offsets_ROUNDDOWN)+

lemma pool_page_usr_update [simp]:
  "pool_page (s\<lparr>usr_pdp := a, usr_pd := b, usr_pt := c\<rparr>) p = pool_page s p"
  "next_frame (s\<lparr>usr_pdp := a, usr_pd := b, usr_pt := c\<rparr>) = next_frame s"
  by (simp_all add: pool_page_def next_frame_def)

lemma pool_cell_aligned8: "pool_page s p \<Longrightarrow> unat i < 512 \<Longrightarrow> aligned8 (p + 8 * i)"
  by (simp add: pool_page_def cell_aligned8)

lemma memmap_one_page:
  "lookup_tables addr s = (pdp, pd, pt, s1) \<Longrightarrow>
   memmap addr PAGE_SIZE prot ACCESSED_NOT_PRESENT s =
     (let s2 = add_user_page (ROUNDDOWN addr PAGE_SIZE) pdp pd pt prot
        (s1\<lparr>usr_pdp := pdp, usr_pd := pd, usr_pt := pt\<rparr>)
      in Some (addr, tlb_flush (pml4_shared s2 - VIRT_BASE) s2))"
  by (simp add: memmap_def memmap_tables_def Let_def)

lemma add_user_page_pml [simp]: "pml4_shared (add_user_page virt pdp pd pt perm s) = pml4_shared s"
  by (simp add: add_user_page_def get_user_phys_addr_def Let_def)

lemma tlb_flush_fields [simp]: "store (tlb_flush pt s) = store s" "cr3 (tlb_flush pt s) = pt"
  by (simp_all add: tlb_flush_def)

section \<open>The interface of an address window\<close>

text \<open>
  \<open>get_user_virt_addr\<close> and \<open>get_user_phys_addr\<close> step through the pages of a window and start
  over at its end. The clients get from this that the pages of one round are different and that
  the next round hands out the same pages again.
\<close>

lemma unat_page_index:
  assumes "unat lo + i * 4096 < 2 ^ 64"
  shows "unat (lo + of_nat i * PAGE_SIZE) = unat lo + i * 4096"
proof -
  have "lo + of_nat i * PAGE_SIZE = lo + of_nat (i * 4096)" by simp
  then show ?thesis using unat_add_of_nat [OF assms] by (simp only:)
qed

locale window_cursor =
  fixes cur :: "'s \<Rightarrow> u64" and step :: "'s \<Rightarrow> 's" and ok :: "'s \<Rightarrow> bool"
    and lo :: u64 and n :: nat
  assumes window: "unat lo + n * 4096 < 2 ^ 64"
    and step_ok: "ok s \<Longrightarrow> ok (step s)"
    and step_cur: "ok s \<Longrightarrow> i < n \<Longrightarrow> cur s = lo + of_nat i * PAGE_SIZE \<Longrightarrow>
      cur (step s) = lo + of_nat (if Suc i < n then Suc i else 0) * PAGE_SIZE"
begin

lemma run_cur:
  assumes "ok s" and "i < n" and "cur s = lo + of_nat i * PAGE_SIZE"
  shows "ok ((step ^^ k) s) \<and> cur ((step ^^ k) s) = lo + of_nat ((i + k) mod n) * PAGE_SIZE"
proof (induction k)
  case 0
  then show ?case using assms by simp
next
  case (Suc k)
  have less: "(i + k) mod n < n" using assms(2) by simp
  have wrap: "(if Suc ((i + k) mod n) < n then Suc ((i + k) mod n) else 0) = (i + Suc k) mod n"
    using less by (auto simp add: mod_Suc)
  have "cur (step ((step ^^ k) s)) =
      lo + of_nat (if Suc ((i + k) mod n) < n then Suc ((i + k) mod n) else 0) * PAGE_SIZE"
    using Suc less by (intro step_cur) simp_all
  then have "cur (step ((step ^^ k) s)) = lo + of_nat ((i + Suc k) mod n) * PAGE_SIZE"
    by (simp only: wrap)
  then show ?case using Suc step_ok by (simp only: funpow.simps comp_apply simp_thms)
qed

lemma page_inj: "i < n \<Longrightarrow> j < n \<Longrightarrow> lo + of_nat i * PAGE_SIZE = lo + of_nat j * PAGE_SIZE \<Longrightarrow> i = j"
proof -
  assume ij: "i < n" "j < n" and eq: "lo + of_nat i * PAGE_SIZE = lo + of_nat j * PAGE_SIZE"
  have u: "unat (lo + of_nat k * PAGE_SIZE) = unat lo + k * 4096" if "k < n" for k
  proof -
    have "k * 4096 < n * 4096" using that by simp
    then show ?thesis using window by (intro unat_page_index) linarith
  qed
  have "unat lo + i * 4096 = unat lo + j * 4096" using u [OF ij(1)] u [OF ij(2)] eq by (simp only:)
  then show "i = j" by simp
qed

lemma run_distinct:
  assumes "ok s" and "i < n" and "cur s = lo + of_nat i * PAGE_SIZE" and "j < n" "k < n" "j \<noteq> k"
  shows "cur ((step ^^ j) s) \<noteq> cur ((step ^^ k) s)"
proof
  assume "cur ((step ^^ j) s) = cur ((step ^^ k) s)"
  then have "lo + of_nat ((i + j) mod n) * PAGE_SIZE = lo + of_nat ((i + k) mod n) * PAGE_SIZE"
    using run_cur [OF assms(1-3), of j] run_cur [OF assms(1-3), of k] by simp
  then have eq: "(i + j) mod n = (i + k) mod n" using assms(2) by (intro page_inj) simp_all
  show False
  proof (cases "j \<le> k")
    case True
    then have "n dvd k - j" using eq mod_eq_dvd_iff_nat [of "i + j" "i + k" n] by simp
    then show False using True assms(4-6) by (auto dest: dvd_imp_le)
  next
    case False
    then have "n dvd j - k" using eq mod_eq_dvd_iff_nat [of "i + k" "i + j" n] by simp
    then show False using False assms(4-6) by (auto dest: dvd_imp_le)
  qed
qed

lemma run_recur:
  assumes "ok s" and "i < n" and "cur s = lo + of_nat i * PAGE_SIZE"
  shows "cur ((step ^^ n) s) = cur s"
  using run_cur [OF assms, of n] assms by simp

end

lemma window_step:
  assumes "i < n" and "unat lo + n * 4096 < 2 ^ 64" and "hi = lo + of_nat n * PAGE_SIZE"
  shows "(if lo + of_nat i * PAGE_SIZE + PAGE_SIZE < hi then lo + of_nat i * PAGE_SIZE + PAGE_SIZE else lo) =
    lo + of_nat (if Suc i < n then Suc i else 0) * PAGE_SIZE"
proof -
  have next_page: "lo + of_nat i * PAGE_SIZE + PAGE_SIZE = lo + of_nat (Suc i) * PAGE_SIZE"
    by (simp add: algebra_simps)
  have "Suc i * 4096 \<le> n * 4096" using assms(1) by simp
  then have "unat (lo + of_nat (Suc i) * PAGE_SIZE) = unat lo + Suc i * 4096"
    using assms(2) by (intro unat_page_index) linarith
  moreover have "unat hi = unat lo + n * 4096" unfolding assms(3) using assms(2) by (rule unat_page_index)
  ultimately have "lo + of_nat (Suc i) * PAGE_SIZE < hi \<longleftrightarrow> Suc i < n"
    unfolding word_less_nat_alt by (simp only: add_less_cancel_left mult_less_cancel2) simp
  then show ?thesis unfolding next_page by simp
qed

interpretation user_frames: window_cursor usr_phys_addr "\<lambda>s. snd (get_user_phys_addr False s)"
  "\<lambda>_. True" START_PADDR_FOR_USRS 4096
proof unfold_locales
  fix s :: "'a user_paging_scheme" and i :: nat
  assume "i < 4096" and cur: "usr_phys_addr s = START_PADDR_FOR_USRS + of_nat i * PAGE_SIZE"
  then have "(if usr_phys_addr s + PAGE_SIZE < 0x6000000 then usr_phys_addr s + PAGE_SIZE
      else START_PADDR_FOR_USRS) = START_PADDR_FOR_USRS + of_nat (if Suc i < 4096 then Suc i else 0) * PAGE_SIZE"
    unfolding cur by (intro window_step) simp_all
  then show "usr_phys_addr (snd (get_user_phys_addr False s)) =
      START_PADDR_FOR_USRS + of_nat (if Suc i < 4096 then Suc i else 0) * PAGE_SIZE"
    by (simp add: get_user_phys_addr_def split: if_splits)
qed simp_all

interpretation user_pages: window_cursor user_addr "\<lambda>s. snd (get_user_virt_addr False s)"
  "\<lambda>s. physbase s = 0x200000" START_VADDR_FOR_USRS "0xFFFFFFF691390"
proof unfold_locales
  fix s :: "'a user_paging_scheme" and i :: nat
  assume i: "i < 0xFFFFFFF691390" and base: "physbase s = 0x200000"
    and cur: "user_addr s = START_VADDR_FOR_USRS + of_nat i * PAGE_SIZE"
  have "(if user_addr s + PAGE_SIZE < physbase s + virt_base_for_user then user_addr s + PAGE_SIZE
      else START_VADDR_FOR_USRS) =
      START_VADDR_FOR_USRS + of_nat (if Suc i < 0xFFFFFFF691390 then Suc i else 0) * PAGE_SIZE"
    unfolding cur base using i by (intro window_step) simp_all
  then show "user_addr (snd (get_user_virt_addr False s)) =
      START_VADDR_FOR_USRS + of_nat (if Suc i < 0xFFFFFFF691390 then Suc i else 0) * PAGE_SIZE"
    by (simp add: get_user_virt_addr_def split: if_splits)
qed (simp_all add: get_user_virt_addr_def)

section \<open>Properties\<close>

text \<open>A state after boot with empty tables: one page table page, no user mapping.\<close>

definition demo_user :: user_paging where
  "demo_user = \<lparr>store = (\<lambda>_. 0), con_x = 0, con_y = 0, print_to_screen = True,
     kprintf_buf = 0xFFFFFFFF80210000, timer_buf = 0xFFFFFFFF80212000,
     pdesc = 0x300000, pdesc_phys = 0, virt_to_phy_flag = False, freelist = 0xFFFFFFFF80250000,
     virt_base = 0xFFFFFFFF80200000, end_addr = 0x400000, counter = 0, flag = True,
     end_base_addr = 0x6200000, global_pdp = 0x269000, global_pml4 = 0x268000,
     global_pd = 0x26a000, pml4_shared = 0xFFFFFFFF80268000, pdp_shared = 0xFFFFFFFF80269000,
     pd_shared = 0xFFFFFFFF8026a000, pt_shared = 0x2ca000, kpt = 0x26b000, physfree = 0x250000,
     physbase = 0x200000, cr3 = 0x268000, cr0 = 0x80000001,
     usr_phys_addr = 0x5000000, user_addr = 0x8eee70000, usr_pml = 0, usr_pdp = 0, usr_pd = 0,
     usr_pt = 0, dif_ctxt = True, pml_same_ctxt = 0\<rparr>"

lemma demo_user_ok:
  "layout_ok 3 demo_user" "path_ok demo_user addr" "frame_ok (usr_phys_addr demo_user)"
proof -
  have "load64 (\<lambda>_. 0) a = 0" for a by (simp add: load64_zero)
  then show "path_ok demo_user addr"
    by (simp add: path_ok_def demo_user_def pool_page_def page_aligned_def koff_def next_frame_def)
qed (simp_all add: demo_user_def layout_ok_def page_aligned_def koff_def next_frame_def frame_ok_def)

lemma memmap_fault_page:
  assumes "layout_ok 3 s" and "path_ok s addr" and "frame_ok (usr_phys_addr s)" and "perm_ok prot"
  shows "\<exists>s' pdp pd pt. memmap addr PAGE_SIZE prot ACCESSED_NOT_PRESENT s = Some (addr, s') \<and>
    cr3 s' = pml4_shared s - VIRT_BASE \<and>
    (\<forall>va. ROUNDDOWN va PAGE_SIZE = ROUNDDOWN addr PAGE_SIZE \<longrightarrow>
      walk VIRT_BASE (store s') (cr3 s') va = Some (usr_phys_addr s + (va AND 0xFFF), prot)) \<and>
    path_entries (store s') (pml4_shared s) pdp pd pt (usr_phys_addr s) prot addr \<and>
    (\<forall>p i. pool_page s p \<and> unat i < 512 \<and>
        p + 8 * i \<notin> path_cells (pml4_shared s) pdp pd pt addr \<longrightarrow>
      load64 (store s') (p + 8 * i) = load64 (store s) (p + 8 * i))"
proof -
  obtain pdp pd pt s1 where look: "lookup_tables addr s = (pdp, pd, pt, s1)" and ext: "extends s s1"
    and pool: "pool_page s1 (pml4_shared s)" "pool_page s1 pdp" "pool_page s1 pd" "pool_page s1 pt"
    and dist: "distinct [pml4_shared s, pdp, pd, pt]"
    and keep: "pml4_shared s1 = pml4_shared s" "usr_phys_addr s1 = usr_phys_addr s"
    and top: "unat (next_frame s1) \<le> 2 ^ 31"
    using lookup_tables_ok [OF assms(1,2)] by metis
  let ?s1 = "s1\<lparr>usr_pdp := pdp, usr_pd := pd, usr_pt := pt\<rparr>"
  let ?s2 = "add_user_page (ROUNDDOWN addr PAGE_SIZE) pdp pd pt prot ?s1"
  let ?s3 = "tlb_flush (pml4_shared ?s2 - VIRT_BASE) ?s2"
  have run: "memmap addr PAGE_SIZE prot ACCESSED_NOT_PRESENT s = Some (addr, ?s3)"
    using memmap_one_page [OF look] by (simp add: Let_def)
  have root: "cr3 ?s3 = pml4_shared s - VIRT_BASE" using keep by simp
  have "walk VIRT_BASE (store ?s3) (cr3 ?s3) va = Some (usr_phys_addr s + (va AND 0xFFF), prot)"
    if "ROUNDDOWN va PAGE_SIZE = ROUNDDOWN addr PAGE_SIZE" for va
    using add_user_page_walk [of ?s1 pdp pd pt prot va "ROUNDDOWN addr PAGE_SIZE"]
      pool dist top keep assms(3,4) offsets_same_page [OF that] root
    by (simp add: offsets_ROUNDDOWN)
  moreover have "load64 (store ?s3) (p + 8 * i) = load64 (store s) (p + 8 * i)"
    if "pool_page s p" "unat i < 512" "p + 8 * i \<notin> path_cells (pml4_shared s) pdp pd pt addr" for p i
  proof -
    have "load64 (store ?s2) (p + 8 * i) = load64 (store ?s1) (p + 8 * i)"
      using pool dist keep that pool_cell_aligned8 [OF that(1,2)]
      by (intro add_user_page_cells(5))
        (simp_all add: pool_page_def path_cells_def offsets_ROUNDDOWN)
    then show ?thesis using ext that by (simp add: extends_def)
  qed
  moreover have "path_entries (store ?s3) (pml4_shared s) pdp pd pt (usr_phys_addr s) prot addr"
    using add_user_page_cells(1-4) [of ?s1 pdp pd pt "ROUNDDOWN addr PAGE_SIZE" prot] pool dist keep
    by (simp add: path_entries_def pool_page_def offsets_ROUNDDOWN)
  ultimately show ?thesis using run root by blast
qed

text \<open>C11. A page fault on a missing page is repaired: \<open>memmap\<close> for a page that was accessed but
  not present finds or makes the tables of the address, and afterwards the processor's walk, from
  the page table base that the call loads, takes every address of the page to the user frame that
  was next in line, with exactly the requested permissions. The four entries on the way there are written with
  these permissions, also where they existed before, so the rights of other pages below them may change; no
  entry of an existing table that is off the way changes.\<close>

theorem memmap_maps_page:
  assumes "layout_ok 3 s" and "path_ok s addr" and "frame_ok (usr_phys_addr s)" and "perm_ok prot"
  shows "\<exists>s' pdp pd pt. memmap addr PAGE_SIZE prot ACCESSED_NOT_PRESENT s = Some (addr, s') \<and>
    cr3 s' = pml4_shared s - VIRT_BASE \<and>
    (\<forall>va. ROUNDDOWN va PAGE_SIZE = ROUNDDOWN addr PAGE_SIZE \<longrightarrow>
      walk VIRT_BASE (store s') (cr3 s') va = Some (usr_phys_addr s + (va AND 0xFFF), prot)) \<and>
    path_entries (store s') (pml4_shared s) pdp pd pt (usr_phys_addr s) prot addr \<and>
    (\<forall>p i. pool_page s p \<and> unat i < 512 \<and>
        p + 8 * i \<notin> path_cells (pml4_shared s) pdp pd pt addr \<longrightarrow>
      load64 (store s') (p + 8 * i) = load64 (store s) (p + 8 * i))"
  by (rule memmap_fault_page [OF assms])

theorem memmap_maps_page_witness:
  "\<exists>s' pdp pd pt. memmap 0x8eee71234 PAGE_SIZE USR_PERM_BITS ACCESSED_NOT_PRESENT demo_user =
      Some (0x8eee71234, s') \<and>
    cr3 s' = pml4_shared demo_user - VIRT_BASE \<and>
    (\<forall>va. ROUNDDOWN va PAGE_SIZE = ROUNDDOWN 0x8eee71234 PAGE_SIZE \<longrightarrow>
      walk VIRT_BASE (store s') (cr3 s') va =
        Some (usr_phys_addr demo_user + (va AND 0xFFF), USR_PERM_BITS)) \<and>
    path_entries (store s') (pml4_shared demo_user) pdp pd pt (usr_phys_addr demo_user) USR_PERM_BITS 0x8eee71234 \<and>
    (\<forall>p i. pool_page demo_user p \<and> unat i < 512 \<and>
        p + 8 * i \<notin> path_cells (pml4_shared demo_user) pdp pd pt 0x8eee71234 \<longrightarrow>
      load64 (store s') (p + 8 * i) = load64 (store demo_user) (p + 8 * i))"
  by (rule memmap_maps_page [OF demo_user_ok]) simp


lemma page_floor_ROUNDDOWN: "page_floor v = ROUNDDOWN v PAGE_SIZE"
proof -
  have "push_bit 12 (drop_bit 12 v) + take_bit 12 v = v" by (rule bits_ident)
  then have "push_bit 12 (drop_bit 12 v) = v - take_bit 12 v" by (simp add: eq_diff_eq)
  moreover have "v mod PAGE_SIZE = take_bit 12 v" by (simp add: take_bit_eq_mod)
  ultimately show ?thesis by (simp only: page_floor_def ROUNDDOWN_def)
qed

lemma ROUNDDOWN_page_aligned: "page_aligned p \<Longrightarrow> ROUNDDOWN p PAGE_SIZE = p"
  by (simp add: word_unat_eq_iff unat_ROUNDDOWN page_aligned_def)

lemma path_ok_ROUNDDOWN: "path_ok s (ROUNDDOWN addr PAGE_SIZE) = path_ok s addr"
  by (simp only: path_ok_def offsets_ROUNDDOWN)

text \<open>C37. Turning a page to copy-on-write loses the mapping: after \<open>memmap\<close> with \<open>RW_TO_COW\<close> the
  walk fails for every address under the same entry of the top table, because the entries of the
  upper levels are rewritten without their permission bits.\<close>

theorem rw_to_cow_unmaps:
  assumes "layout_ok 3 s" and "path_ok s addr"
  shows "\<exists>s'. memmap addr PAGE_SIZE prot RW_TO_COW s = Some (addr, s') \<and>
    cr3 s' = pml4_shared s - VIRT_BASE \<and>
    (\<forall>va. get_pml4_offset va = get_pml4_offset addr \<longrightarrow> walk VIRT_BASE (store s') (cr3 s') va = None)"
proof -
  let ?addr = "ROUNDDOWN addr PAGE_SIZE" and ?pml = "pml4_shared s"
  obtain pdp pd pt s1 where look: "lookup_tables ?addr s = (pdp, pd, pt, s1)"
    and pool: "pool_page s1 ?pml" "pool_page s1 pdp" and keep: "pml4_shared s1 = ?pml"
    and top: "unat (next_frame s1) \<le> 2 ^ 31"
    using lookup_tables_ok [OF assms(1)] assms(2) path_ok_ROUNDDOWN by metis
  define s2 where "s2 = change_permissions ?addr prot s"
  have pml: "pml4_shared s2 = ?pml"
    unfolding s2_def change_permissions_def by (simp add: look keep Let_def)
  have "memmap addr PAGE_SIZE prot RW_TO_COW s = Some (addr, tlb_flush (?pml - VIRT_BASE) s2)"
    using pml by (simp add: memmap_def Let_def s2_def)
  moreover have "load64 (store s2) (?pml + 8 * get_pml4_offset addr) = pdp - VIRT_BASE"
    unfolding s2_def change_permissions_def
    by (simp add: look Let_def load_store_same offsets_ROUNDDOWN)
  then have "walk VIRT_BASE (store s2) (?pml - VIRT_BASE) va = None"
    if "get_pml4_offset va = get_pml4_offset addr" for va
    using that frame_ok_pool [OF pool(1) top] frame_bits [OF frame_ok_pool [OF pool(2) top], of 0]
    by (simp add: walk_def entry_base_frame table_at_def Let_def)
  ultimately show ?thesis by simp
qed

theorem rw_to_cow_unmaps_witness:
  "\<exists>s'. memmap 0x8eee71000 PAGE_SIZE COW_PERM_BITS RW_TO_COW demo_user = Some (0x8eee71000, s') \<and>
    cr3 s' = pml4_shared demo_user - VIRT_BASE \<and>
    (\<forall>va. get_pml4_offset va = get_pml4_offset 0x8eee71000 \<longrightarrow>
      walk VIRT_BASE (store s') (cr3 s') va = None)"
  by (rule rw_to_cow_unmaps [OF demo_user_ok(1,2)])

text \<open>\<open>set_kernel_page_user\<close> breaks the top table: instead of the table of the next level it
  enters the top table itself under the index of the address, for a kernel address the entry
  that holds all kernel mappings.\<close>

lemma set_kernel_page_user_self_map:
  assumes "page_aligned (pml4_shared s)"
  shows "load64 (store (set_kernel_page_user addr s)) (pml4_shared s + 8 * get_pml4_offset addr) =
    (pml4_shared s - VIRT_BASE) OR USR_PERM_BITS"
proof -
  have "page_floor (pml4_shared s - VIRT_BASE) = pml4_shared s - VIRT_BASE"
    unfolding page_floor_ROUNDDOWN using assms by (simp add: ROUNDDOWN_page_aligned page_aligned_diff)
  then show ?thesis
    by (simp add: set_kernel_page_user_def put_entry_floor_def page_floor_ROUNDDOWN
        offsets_ROUNDDOWN load_store_same case_prod_beta Let_def)
qed

text \<open>The frames of user pages are recycled without a check: from any position in the window,
  4096 consecutive calls of \<open>get_user_phys_addr\<close> hand out pairwise different frames, and the call
  after them hands out the first frame again.\<close>

lemma user_frames_recur:
  assumes "i < 4096" and "usr_phys_addr s = START_PADDR_FOR_USRS + of_nat i * PAGE_SIZE"
  shows "(\<forall>j < 4096. \<forall>k < 4096. j \<noteq> k \<longrightarrow>
      fst (get_user_phys_addr False (((\<lambda>s. snd (get_user_phys_addr False s)) ^^ j) s)) \<noteq>
      fst (get_user_phys_addr False (((\<lambda>s. snd (get_user_phys_addr False s)) ^^ k) s))) \<and>
    fst (get_user_phys_addr False (((\<lambda>s. snd (get_user_phys_addr False s)) ^^ 4096) s)) =
      fst (get_user_phys_addr False s)"
proof -
  have handed: "fst (get_user_phys_addr False t) = usr_phys_addr t" for t :: "'a user_paging_scheme"
    by (simp add: get_user_phys_addr_def)
  show ?thesis
    unfolding handed using user_frames.run_distinct [where s = s and i = i]
      user_frames.run_recur [where s = s and i = i] assms
    by blast
qed

text \<open>The kernel's page pool runs into the frames of user pages: starting below them,
  \<open>page_alloc\<close> hands out the first user frame as a kernel page after at most 20480 calls, before
  the 24576 pages of the pool are used up.\<close>

lemma pool_reaches_user_frames:
  assumes "page_aligned (next_frame s)" and "unat (next_frame s) \<le> unat START_PADDR_FOR_USRS"
  shows "\<exists>n \<le> 20480. n < NUMBER_OF_PAGES \<and>
    fst (page_alloc (((\<lambda>s. snd (page_alloc s)) ^^ n) s)) = START_PADDR_FOR_USRS + VIRT_BASE"
proof -
  let ?d = "unat START_PADDR_FOR_USRS - unat (next_frame s)"
  have "4096 dvd ?d" using assms(1) by (auto simp add: page_aligned_def intro!: dvd_diff_nat)
  then have n: "?d div 4096 * 4096 = ?d" by simp
  have small: "?d div 4096 \<le> 20480" by (simp add: div_le_mono [of _ "0x5000000" 4096, simplified])
  have "unat (next_frame s) + ?d div 4096 * 4096 < 2 ^ 64" using n assms(2) by simp
  then have "unat (next_frame s + of_nat (?d div 4096) * PAGE_SIZE) = unat (next_frame s) + ?d div 4096 * 4096"
    by (rule unat_page_index)
  then have "unat (next_frame s + of_nat (?d div 4096) * PAGE_SIZE) = unat START_PADDR_FOR_USRS"
    using n assms(2) by linarith
  then have "next_frame s + of_nat (?d div 4096) * PAGE_SIZE = START_PADDR_FOR_USRS"
    by (simp only: word_unat_eq_iff)
  then have "fst (page_alloc (((\<lambda>s. snd (page_alloc s)) ^^ (?d div 4096)) s)) =
      START_PADDR_FOR_USRS + VIRT_BASE"
    by (simp only: page_alloc_head next_frame_pages)
  then show ?thesis using small by (intro exI [of _ "?d div 4096"]) linarith
qed

end
