(* ===== verification/Boot_Paging.thy ===== *)
theory Boot_Paging
  imports User_Paging
begin

text \<open>
  The kernel's own mapping. \<open>set_free_list\<close> builds a list of free pages, takes the tables from it
  and fills them; the result is that the 98 MiB from \<open>VIRT_BASE\<close> on are mapped to the physical
  memory from 0 on. During this the free-list pointer stands behind the list, at the first page
  of the pool, which is the top table: the bookkeeping of \<open>get_page\<close> clears the head of that
  table.

  The tables are described by regions of 2 MiB: region \<open>x\<close> has its page table in page
  \<open>region_page x\<close> of the pool.
\<close>

section \<open>The pages of the pool\<close>

definition pool_at :: "u64 \<Rightarrow> nat \<Rightarrow> u64" where
  "pool_at B i = B + of_nat i * PAGE_SIZE"

definition pool_ok :: "u64 \<Rightarrow> bool" where
  "pool_ok B \<longleftrightarrow> page_aligned B \<and> unat B + 24576 * 4096 < 2 ^ 52"

lemma pool_at_aligned: "pool_ok B \<Longrightarrow> page_aligned (pool_at B i)"
  by (simp add: pool_ok_def pool_at_def page_aligned_add page_aligned_mult)

lemma unat_pool_at:
  assumes "pool_ok B" and "i < 24576"
  shows "unat (pool_at B i) = unat B + i * 4096"
proof -
  have "unat B + i * 4096 < 2 ^ 64" using assms by (simp add: pool_ok_def)
  then show ?thesis unfolding pool_at_def by (rule unat_page_index)
qed

lemma pool_at_inj:
  assumes "pool_ok B" and "i < 24576" and "j < 24576"
  shows "pool_at B i = pool_at B j \<longleftrightarrow> i = j"
proof
  assume "pool_at B i = pool_at B j"
  then have "unat B + i * 4096 = unat B + j * 4096"
    using unat_pool_at [OF assms(1,2)] unat_pool_at [OF assms(1,3)] by (simp only:)
  then show "i = j" by simp
qed simp

lemma pool_at_frame: "pool_ok B \<Longrightarrow> i < 24576 \<Longrightarrow> frame_ok (pool_at B i)"
  using unat_pool_at [of B i] by (simp add: frame_ok_def pool_at_aligned pool_ok_def)

lemma pool_cell_eq:
  assumes "pool_ok B" "i < 24576" "j < 24576" "unat a < 512" "unat b < 512"
  shows "pool_at B i + 8 * a = pool_at B j + 8 * b \<longleftrightarrow> i = j \<and> a = b"
  using assms by (simp add: cell_eq_iff pool_at_aligned pool_at_inj)

text \<open>An entry of a table in the pool.\<close>

definition pool_cell :: "u64 \<Rightarrow> nat \<Rightarrow> u64 \<Rightarrow> u64" where
  "pool_cell B i a = pool_at B i + 8 * a"

lemma boot_cell_aligned8: "pool_ok B \<Longrightarrow> unat a < 512 \<Longrightarrow> aligned8 (pool_cell B i a)"
  by (simp add: pool_cell_def cell_aligned8 pool_at_aligned)

lemma pool_cell_inj:
  assumes "pool_ok B" "i < 24576" "j < 24576" "unat a < 512" "unat b < 512"
  shows "pool_cell B i a = pool_cell B j b \<longleftrightarrow> i = j \<and> a = b"
  unfolding pool_cell_def using assms by (rule pool_cell_eq)

lemma put_entry_cell:
  assumes "pool_ok B" "i < 24576" "j < 24576" "unat a < 512" "unat b < 512"
  shows "load64 (put_entry m (pool_at B j) b v q) (pool_cell B i a) =
    (if i = j \<and> a = b then v OR q else load64 m (pool_cell B i a))"
proof -
  have "load64 (put_entry m (pool_at B j) b v q) (pool_cell B i a) =
      (if pool_cell B i a = pool_cell B j b then v OR q else load64 m (pool_cell B i a))"
    unfolding pool_cell_def [of B j b]
    using assms by (intro load64_put_entry pool_at_aligned boot_cell_aligned8)
  then show ?thesis by (simp only: pool_cell_inj [OF assms])
qed

section \<open>The list of free pages\<close>

lemma init_freelist_end: "snd (init_freelist n m p) = p + of_nat n * 4"
  by (induction n arbitrary: m p) (simp_all add: algebra_simps)

lemma pd_next_set: "pd_next (set_pd_free (set_pd_next m p q) p st) p = q"
proof -
  have "load64 (set_pd_free (store64 m (p + 8) q) p st) (p + 8) = load64 (store64 m (p + 8) q) (p + 8)"
  proof (rule load64_cong)
    fix i :: nat
    assume "i < 8"
    then have "unat (8 + of_nat i :: u64) = 8 + i" using unat_of_nat64 [of "8 + i"] by simp
    then have "unat (8 + of_nat i :: u64) \<noteq> 0" by simp
    then have "8 + of_nat i \<noteq> (0 :: u64)" unfolding unat_eq_0 .
    then show "set_pd_free (store64 m (p + 8) q) p st (p + 8 + of_nat i) = store64 m (p + 8) q (p + 8 + of_nat i)"
      by (simp add: set_pd_free_def add.assoc)
  qed
  then show ?thesis by (simp add: pd_next_def set_pd_next_def load_store_same)
qed

lemma set_pages_step:
  "set_pages_loop (Suc (Suc n)) m p =
   set_pages_loop (Suc n) (set_pd_free (set_pd_next m p (p + PAGE_SIZE)) p FREE) (p + PAGE_SIZE)"
  by (simp add: Let_def pd_next_set pdesc_add_def)

lemma set_pages_below:
  assumes "unat p + n * 4096 < 2 ^ 64" and "unat a < unat p"
  shows "set_pages_loop n m p a = m a"
  using assms
proof (induction n arbitrary: m p)
  case 0
  then show ?case by simp
next
  case (Suc n)
  have far: "16 \<le> unat (a - p)" using Suc.prems by (simp add: unat_sub_if')
  show ?case
  proof (cases n)
    case 0
    then show ?thesis using far by (simp add: set_pd_outside)
  next
    case (Suc k)
    have "unat (p + PAGE_SIZE) = unat p + 4096"
      using unat_add_of_nat [of p 4096] Suc.prems by simp
    then have "set_pages_loop n (set_pd_free (set_pd_next m p (p + PAGE_SIZE)) p FREE) (p + PAGE_SIZE) a =
        set_pd_free (set_pd_next m p (p + PAGE_SIZE)) p FREE a"
      using Suc.prems by (intro Suc.IH) simp_all
    then show ?thesis using far by (simp only: Suc set_pages_step) (simp add: set_pd_outside)
  qed
qed

lemma set_pages_links:
  assumes "unat p + n * 4096 < 2 ^ 64" and "Suc j < n"
  shows "pd_next (set_pages_loop n m p) (p + of_nat j * PAGE_SIZE) = p + of_nat (Suc j) * PAGE_SIZE"
  using assms
proof (induction n arbitrary: m p j)
  case 0
  then show ?case by simp
next
  case (Suc n)
  then obtain k where n: "n = Suc k" by (cases n) simp_all
  let ?m = "set_pd_free (set_pd_next m p (p + PAGE_SIZE)) p FREE"
  have next_p: "unat (p + PAGE_SIZE) = unat p + 4096"
    using unat_add_of_nat [of p 4096] Suc.prems by simp
  have loop: "set_pages_loop (Suc n) m p = set_pages_loop n ?m (p + PAGE_SIZE)"
    unfolding n by (rule set_pages_step)
  show ?case
  proof (cases j)
    case 0
    have "load64 (set_pages_loop n ?m (p + PAGE_SIZE)) (p + 8) = load64 ?m (p + 8)"
    proof (rule load64_cong, rule set_pages_below)
      fix i :: nat
      assume i: "i < 8"
      have "p + 8 + of_nat i = p + of_nat (8 + i)" by simp
      moreover have "unat (p + of_nat (8 + i)) = unat p + (8 + i)"
        using i Suc.prems by (intro unat_add_of_nat) simp
      ultimately show "unat (p + 8 + of_nat i) < unat (p + PAGE_SIZE)"
        unfolding next_p using i by (simp only:)
      show "unat (p + PAGE_SIZE) + n * 4096 < 2 ^ 64" using Suc.prems next_p by simp
    qed
    then show ?thesis using pd_next_set [of m p "p + PAGE_SIZE" FREE] unfolding loop 0
      by (simp add: pd_next_def)
  next
    case (Suc i)
    have "pd_next (set_pages_loop n ?m (p + PAGE_SIZE)) (p + PAGE_SIZE + of_nat i * PAGE_SIZE) =
        p + PAGE_SIZE + of_nat (Suc i) * PAGE_SIZE"
      using Suc Suc.prems next_p by (intro Suc.IH) simp_all
    then show ?thesis unfolding loop Suc virt_Suc by (simp only: virt_Suc add.assoc)
  qed
qed

section \<open>Taking pages during boot\<close>

definition chain :: "memory \<Rightarrow> u64 \<Rightarrow> nat \<Rightarrow> bool" where
  "chain m B k \<longleftrightarrow> (\<forall>j. k \<le> j \<and> j < 24575 \<longrightarrow> load64 m (pool_cell B j 1) = pool_at B (Suc j))"

text \<open>After \<open>k\<close> pages have been taken: the next one is page \<open>k\<close>, the rest of the list is intact,
  and the first \<open>4 k\<close> bytes of the pool are zero.\<close>

definition boot_ok :: "u64 \<Rightarrow> nat \<Rightarrow> 'a paging_scheme \<Rightarrow> bool" where
  "boot_ok B k s \<longleftrightarrow> pdesc s = pool_at B k \<and> counter s = of_nat k \<and> freelist s = B \<and>
     chain (store s) B k \<and> (\<forall>x < 4 * k. store s (B + of_nat x) = 0)"

lemma load64_set_pd_free:
  assumes "aligned8 p" and "aligned8 b" and "b \<noteq> p"
  shows "load64 (set_pd_free m p st) b = load64 m b"
proof (rule load64_cong)
  fix i :: nat
  assume "i < 8"
  have "disjoint_regions p 8 b 8" using assms by (intro aligned8_disjoint) simp_all
  then have "8 \<le> unat (b + of_nat i - p)" using \<open>i < 8\<close> by (rule disjoint_offset)
  then show "set_pd_free m p st (b + of_nat i) = m (b + of_nat i)" by (rule set_pd_outside)
qed

lemma load64_store32_zero:
  assumes "aligned8 c" and "aligned8 b" and "b \<noteq> c" and "d \<le> 4"
  shows "load64 (store32 m (c + of_nat d) 0) b = load64 m b"
proof (rule load64_cong)
  fix i :: nat
  assume "i < 8"
  have "disjoint_regions c 8 b 8" using assms by (intro aligned8_disjoint) simp_all
  then have far: "8 \<le> unat (b + of_nat i - c)" using \<open>i < 8\<close> by (rule disjoint_offset)
  have "of_nat d \<le> b + of_nat i - c" using far assms(4) by (simp add: word_le_nat_alt unat_of_nat64)
  moreover have "b + of_nat i - (c + of_nat d) = (b + of_nat i - c) - of_nat d" by simp
  ultimately have "unat (b + of_nat i - (c + of_nat d)) = unat (b + of_nat i - c) - d"
    using assms(4) by (simp only: unat_sub) (simp add: unat_of_nat64)
  then have "\<not> unat (b + of_nat i - (c + of_nat d)) < 4" using far assms(4) by linarith
  then show "store32 m (c + of_nat d) 0 (b + of_nat i) = m (b + of_nat i)"
    by (simp only: store32_zero if_False)
qed

text \<open>One call of \<open>get_page\<close> during boot.\<close>

definition boot_step_mem :: "u64 \<Rightarrow> nat \<Rightarrow> memory \<Rightarrow> memory" where
  "boot_step_mem B k m = store32 (set_pd_free m (pool_at B k) IN_USE) (B + of_nat (4 * k)) 0"

lemma boot_step_cell:
  assumes ok: "pool_ok B" and k: "k < 99" and i: "i < 24576" and a: "unat a < 512"
    and other: "\<not> (i = k \<and> a = 0)" "\<not> (i = 0 \<and> unat a < 50)"
  shows "load64 (boot_step_mem B k m) (pool_cell B i a) = load64 m (pool_cell B i a)"
proof -
  let ?b = "pool_cell B i a" and ?h = "of_nat (k div 2) :: u64" and ?d = "4 * (k mod 2)"
  have B0: "pool_at B 0 = B" by (simp add: pool_at_def)
  have h: "unat ?h = k div 2" using k by (intro unat_of_nat64) simp
  have "4 * k = 8 * (k div 2) + ?d" using mult_div_mod_eq [of 2 k] by linarith
  then have "of_nat (4 * k) = (8 * ?h + of_nat ?d :: u64)" by (metis of_nat_add of_nat_mult of_nat_numeral)
  then have slot: "B + of_nat (4 * k) = (B + 8 * ?h) + of_nat ?d" by (simp only: add.assoc)
  have b: "aligned8 ?b" using ok a by (rule boot_cell_aligned8)
  have c: "aligned8 (B + 8 * ?h)" using cell_aligned8 [of B ?h] ok h k by (simp add: pool_ok_def)
  have "?b \<noteq> B + 8 * ?h"
    using pool_cell_eq [OF ok i, of 0 a ?h] a h k other(2) unfolding B0 pool_cell_def by auto
  then have "load64 (boot_step_mem B k m) ?b = load64 (set_pd_free m (pool_at B k) IN_USE) ?b"
    unfolding boot_step_mem_def slot using b c by (intro load64_store32_zero) simp_all
  also have "\<dots> = load64 m ?b"
  proof (rule load64_set_pd_free)
    show "aligned8 (pool_at B k)" using cell_aligned8 [of "pool_at B k" 0] pool_at_aligned [OF ok] by simp
    show "?b \<noteq> pool_at B k"
      using pool_cell_eq [OF ok i, of k a 0] k a other(1) by (simp add: pool_cell_def)
  qed (rule b)
  finally show ?thesis .
qed

lemma get_page_boot:
  assumes "boot_ok B k s" and "k < 99"
  shows "get_page s = (pool_at B k, s\<lparr>store := boot_step_mem B k (store s),
    pdesc := pool_at B (Suc k), counter := counter s + 1\<rparr>)"
proof -
  have c: "unat (counter s) = k" using assms by (simp add: boot_ok_def unat_of_nat)
  have "(scast (counter s) :: u64) = of_nat (unat (counter s))"
    using assms(2) c by (intro scast_nonneg) simp
  then have "(scast (counter s) :: u64) = of_nat k" unfolding c .
  then have slot: "freelist s + 4 * scast (counter s) = B + of_nat (4 * k)"
    using assms(1) by (simp add: boot_ok_def)
  have p: "pdesc s = pool_at B k" using assms by (simp add: boot_ok_def)
  have "load64 (set_pd_free (store s) (pool_at B k) IN_USE) (pool_at B k + 8) =
      load64 (store s) (pool_at B k + 8)"
  proof (rule load64_cong)
    fix i :: nat
    assume "i < 8"
    then have "unat (8 + of_nat i :: u64) = 8 + i" using unat_of_nat64 [of "8 + i"] by simp
    then have "unat (8 + of_nat i :: u64) \<noteq> 0" by simp
    then have "8 + of_nat i \<noteq> (0 :: u64)" unfolding unat_eq_0 .
    then show "set_pd_free (store s) (pool_at B k) IN_USE (pool_at B k + 8 + of_nat i) =
        store s (pool_at B k + 8 + of_nat i)"
      by (simp add: set_pd_free_def add.assoc)
  qed
  moreover have "load64 (store s) (pool_at B k + 8) = pool_at B (Suc k)"
    using assms by (simp add: boot_ok_def chain_def pool_cell_def)
  ultimately show ?thesis
    using slot by (simp add: get_page_def clear_freelist_slot_def p pd_next_def boot_step_mem_def Let_def)
qed

lemma boot_ok_get_page:
  assumes ok: "pool_ok B" and boot: "boot_ok B k s" and k: "k < 99"
  shows "boot_ok B (Suc k) (s\<lparr>store := boot_step_mem B k (store s),
    pdesc := pool_at B (Suc k), counter := counter s + 1\<rparr>)"
proof -
  have "chain (boot_step_mem B k (store s)) B (Suc k)"
    unfolding chain_def
  proof (intro allI impI)
    fix j
    assume j: "Suc k \<le> j \<and> j < 24575"
    then have "load64 (boot_step_mem B k (store s)) (pool_cell B j 1) = load64 (store s) (pool_cell B j 1)"
      using k by (intro boot_step_cell [OF ok]) simp_all
    then show "load64 (boot_step_mem B k (store s)) (pool_cell B j 1) = pool_at B (Suc j)"
      using boot j by (simp add: boot_ok_def chain_def)
  qed
  moreover have "boot_step_mem B k (store s) (B + of_nat x) = 0" if x: "x < 4 * Suc k" for x
  proof (cases "4 * k \<le> x")
    case True
    have "B + of_nat x - (B + of_nat (4 * k)) = of_nat (x - 4 * k)"
      using True by (simp add: of_nat_diff)
    moreover have "unat (of_nat (x - 4 * k) :: u64) = x - 4 * k" using x by (intro unat_of_nat64) simp
    moreover have "x - 4 * k < 4" using x by simp
    ultimately have "unat (B + of_nat x - (B + of_nat (4 * k))) < 4" by (simp only:)
    then show ?thesis by (simp only: boot_step_mem_def store32_zero if_True)
  next
    case False
    then have "0 < k" by simp
    have "unat (pool_at B k) = unat B + k * 4096" using ok k by (intro unat_pool_at) simp_all
    moreover have "unat (B + of_nat x) = unat B + x"
      using ok x k by (intro unat_add_of_nat) (simp add: pool_ok_def)
    ultimately have "B + of_nat x \<noteq> pool_at B k" using False k \<open>0 < k\<close> by auto
    then have "set_pd_free (store s) (pool_at B k) IN_USE (B + of_nat x) = 0"
      using boot False by (simp add: set_pd_free_def boot_ok_def)
    then show ?thesis by (simp add: boot_step_mem_def store32_zero)
  qed
  ultimately show ?thesis using boot by (simp add: boot_ok_def)
qed

section \<open>Mapping one region of 2 MiB\<close>

definition region_page :: "nat \<Rightarrow> nat" where
  "region_page x = (if x = 0 then 4 else if x = 1 then 3 else x + 3)"

definition region_base :: "nat \<Rightarrow> u64" where
  "region_base x = of_nat (x * 0x200000)"

lemma region_page_inj: "region_page x = region_page y \<longleftrightarrow> x = y"
  by (auto simp add: region_page_def split: if_splits)

lemma region_page_bounds: "x \<le> 48 \<Longrightarrow> 3 \<le> region_page x \<and> region_page x \<le> 51"
  by (simp add: region_page_def)

text \<open>The tables describe the regions \<open>X\<close>.\<close>

definition regions_ok :: "u64 \<Rightarrow> nat set \<Rightarrow> memory \<Rightarrow> bool" where
  "regions_ok B X m \<longleftrightarrow>
     (X \<noteq> {} \<longrightarrow> load64 m (pool_cell B 0 511) = pool_at B 1 OR KERN_PERM_BITS \<and>
        load64 m (pool_cell B 1 510) = pool_at B 2 OR KERN_PERM_BITS) \<and>
     (\<forall>x \<in> X. load64 m (pool_cell B 2 (of_nat x)) = pool_at B (region_page x) OR KERN_PERM_BITS \<and>
        (\<forall>a. unat a < 512 \<longrightarrow> load64 m (pool_cell B (region_page x) a) =
           (region_base x + a * PAGE_SIZE) OR KERN_PERM_BITS))"

text \<open>The effect of a fill loop and the three entries above it, for region \<open>x\<close>.\<close>

definition map_region :: "u64 \<Rightarrow> nat \<Rightarrow> memory \<Rightarrow> memory" where
  "map_region B x m =
     put_entry (put_entry (put_entry
       (fill_table m (pool_at B (region_page x)) (VIRT_BASE + region_base x) (region_base x) TABLE_SIZE)
       (pool_at B 2) (of_nat x) (pool_at B (region_page x)) KERN_PERM_BITS)
       (pool_at B 1) 510 (pool_at B 2) KERN_PERM_BITS)
       (pool_at B 0) 511 (pool_at B 1) KERN_PERM_BITS"

lemma region_offsets:
  assumes "x \<le> 48"
  shows "get_pml4_offset (VIRT_BASE + region_base x) = 511"
    "get_pdp_offset (VIRT_BASE + region_base x) = 510"
    "get_pd_offset (VIRT_BASE + region_base x) = of_nat x"
    "unat (get_pt_offset (VIRT_BASE + region_base x + of_nat i * PAGE_SIZE)) = i mod 512"
proof -
  have u: "unat (region_base x) = x * 0x200000"
    unfolding region_base_def using assms by (intro unat_of_nat64) simp
  then have small: "unat (region_base x) < 2 ^ 30" using assms by simp
  show "get_pml4_offset (VIRT_BASE + region_base x) = 511"
    "get_pdp_offset (VIRT_BASE + region_base x) = 510"
    using kernel_offsets(1,2) [OF small] .
  have "unat (get_pd_offset (VIRT_BASE + region_base x)) = x"
    unfolding kernel_offsets(3) [OF small] u by simp
  then show "get_pd_offset (VIRT_BASE + region_base x) = of_nat x"
    using assms by (simp add: word_unat_eq_iff unat_of_nat)
  have "unat (VIRT_BASE + region_base x) = unat VIRT_BASE + x * 0x200000"
    using unat_add_of_nat [of VIRT_BASE "x * 0x200000"] assms by (simp add: region_base_def)
  then have *: "unat (VIRT_BASE + region_base x) div 4096 = 512 * (0x7FFFFFFFC00 + x)" by simp
  show "unat (get_pt_offset (VIRT_BASE + region_base x + of_nat i * PAGE_SIZE)) = i mod 512"
    unfolding unat_pt_offset_add * by (rule mod_mult_self4)
qed

lemma fill_region_cell:
  assumes ok: "pool_ok B" and x: "x \<le> 48" and i: "i < 24576" and a: "unat a < 512"
  shows "load64 (fill_table m (pool_at B (region_page x)) (VIRT_BASE + region_base x) (region_base x) TABLE_SIZE)
      (pool_cell B i a) =
    (if i = region_page x then (region_base x + a * PAGE_SIZE) OR KERN_PERM_BITS
     else load64 m (pool_cell B i a))"
proof (cases "i = region_page x")
  case True
  let ?v = "VIRT_BASE + region_base x + of_nat (unat a) * PAGE_SIZE"
  have "unat (get_pt_offset ?v) = unat a" using region_offsets(4) [OF x, of "unat a"] a by simp
  then have off: "get_pt_offset ?v = a" by (simp only: word_unat_eq_iff)
  have "load64 (fill_table m (pool_at B (region_page x)) (VIRT_BASE + region_base x) (region_base x) TABLE_SIZE)
      (pool_at B (region_page x) + (8 * get_pt_offset ?v)) =
      (region_base x + of_nat (unat a) * PAGE_SIZE) OR KERN_PERM_BITS"
    using ok a by (intro fill_table_entry pool_at_aligned) simp_all
  then show ?thesis using True unfolding off pool_cell_def by simp
next
  case False
  have "load64 (fill_table m (pool_at B (region_page x)) (VIRT_BASE + region_base x) (region_base x) TABLE_SIZE)
      (pool_cell B i a) = load64 m (pool_cell B i a)"
    using ok a False i region_page_bounds [OF x]
    by (intro fill_table_other) (simp_all add: pool_at_aligned boot_cell_aligned8 pool_cell_def pool_cell_eq offset_less cell_aligned8)
  then show ?thesis using False by simp
qed

lemma map_region_cell:
  assumes ok: "pool_ok B" and x: "x \<le> 48" and i: "i < 24576" and a: "unat a < 512"
  shows "load64 (map_region B x m) (pool_cell B i a) =
    (if i = 0 \<and> a = 511 then pool_at B 1 OR KERN_PERM_BITS
     else if i = 1 \<and> a = 510 then pool_at B 2 OR KERN_PERM_BITS
     else if i = 2 \<and> a = of_nat x then pool_at B (region_page x) OR KERN_PERM_BITS
     else if i = region_page x then (region_base x + a * PAGE_SIZE) OR KERN_PERM_BITS
     else load64 m (pool_cell B i a))"
proof -
  have "unat (of_nat x :: u64) < 512" using x by (simp add: unat_of_nat)
  then show ?thesis
    using assms by (simp add: map_region_def put_entry_cell fill_region_cell)
qed

lemma regions_ok_map:
  assumes ok: "pool_ok B" and x: "x \<le> 48" and X: "\<And>y. y \<in> X \<Longrightarrow> y \<le> 48" and reg: "regions_ok B X m"
  shows "regions_ok B (insert x X) (map_region B x m)"
proof -
  have upper: "load64 (map_region B x m) (pool_cell B 0 511) = pool_at B 1 OR KERN_PERM_BITS"
    "load64 (map_region B x m) (pool_cell B 1 510) = pool_at B 2 OR KERN_PERM_BITS"
    using ok x by (simp_all add: map_region_cell)
  have u: "unat (of_nat y :: u64) = y" if "y \<le> 48" for y using that by (intro unat_of_nat64) simp
  have "load64 (map_region B x m) (pool_cell B 2 (of_nat y)) = pool_at B (region_page y) OR KERN_PERM_BITS"
    if "y \<in> insert x X" for y
  proof (cases "y = x")
    case True
    then show ?thesis using ok x u [OF x] by (simp add: map_region_cell)
  next
    case False
    then have y: "y \<in> X" "y \<le> 48" using that X by auto
    then have "(of_nat y :: u64) \<noteq> of_nat x" using False u [OF x] u [OF y(2)] by metis
    then show ?thesis
      using ok x u [OF y(2)] y reg region_page_bounds [OF x] by (simp add: map_region_cell regions_ok_def)
  qed
  moreover have "load64 (map_region B x m) (pool_cell B (region_page y) a) =
      (region_base y + a * PAGE_SIZE) OR KERN_PERM_BITS" if "y \<in> insert x X" and "unat a < 512" for y a
  proof -
    have y: "y \<le> 48" using that X x by auto
    then show ?thesis
      using ok x that reg region_page_bounds [OF y]
      by (auto simp add: map_region_cell region_page_inj regions_ok_def)
  qed
  ultimately show ?thesis using upper by (simp add: regions_ok_def)
qed

section \<open>Every step of the boot\<close>

text \<open>Changes of tables below page \<open>k\<close> that leave the head of the top table alone do not disturb
  the list.\<close>

lemma boot_ok_put_entry:
  assumes ok: "pool_ok B" and boot: "boot_ok B k s" and k: "k \<le> 99"
    and j: "j < k" and b: "unat b < 512" and head: "j = 0 \<longrightarrow> 50 \<le> unat b"
  shows "boot_ok B k (s\<lparr>store := put_entry (store s) (pool_at B j) b v q\<rparr>)"
proof -
  have "chain (put_entry (store s) (pool_at B j) b v q) B k"
    using boot ok k j b by (auto simp add: boot_ok_def chain_def put_entry_cell)
  moreover have "put_entry (store s) (pool_at B j) b v q (B + of_nat x) = store s (B + of_nat x)"
    if x: "x < 4 * k" for x
  proof -
    have ux: "unat (B + of_nat x) = unat B + x"
      using ok x k by (intro unat_add_of_nat) (simp add: pool_ok_def)
    have uc: "unat (pool_at B j + 8 * b) = unat B + j * 4096 + 8 * unat b"
      using ok j k b by (simp add: unat_cell pool_at_aligned unat_pool_at)
    have "8 \<le> unat (B + of_nat x - (pool_at B j + 8 * b))"
    proof -
      have less: "unat (B + of_nat x) < unat (pool_at B j + 8 * b)"
        unfolding ux uc using x k head by (cases "j = 0") simp_all
      have "unat (pool_at B j + 8 * b) + 8 < 2 ^ 64" unfolding uc using ok j k b by (simp add: pool_ok_def)
      then show ?thesis using less by (simp add: unat_sub_if')
    qed
    then show ?thesis by (simp add: put_entry_def Let_def store_outside)
  qed
  ultimately show ?thesis using boot by (simp add: boot_ok_def)
qed

lemma boot_ok_fill_table:
  assumes ok: "pool_ok B" and boot: "boot_ok B k s" and k: "k \<le> 99" and j: "0 < j" "j < k"
  shows "boot_ok B k (s\<lparr>store := fill_table (store s) (pool_at B j) virt phys n\<rparr>)"
  using boot
proof (induction n arbitrary: s virt phys)
  case 0
  then show ?case by simp
next
  case (Suc n)
  let ?s = "s\<lparr>store := put_entry (store s) (pool_at B j) (get_pt_offset virt) phys KERN_PERM_BITS\<rparr>"
  have "boot_ok B k ?s" using Suc.prems j by (intro boot_ok_put_entry [OF ok _ k] offset_less) simp_all
  then have "boot_ok B k (?s\<lparr>store := fill_table (store ?s) (pool_at B j) (virt + PAGE_SIZE) (phys + PAGE_SIZE) n\<rparr>)"
    by (rule Suc.IH)
  then show ?case by simp
qed

lemma boot_ok_map_region:
  assumes ok: "pool_ok B" and boot: "boot_ok B k s" and k: "k \<le> 99" "52 \<le> k" and x: "x \<le> 48"
  shows "boot_ok B k (s\<lparr>store := map_region B x (store s)\<rparr>)"
proof -
  have rp: "0 < region_page x" "region_page x < k" using region_page_bounds [OF x] k by simp_all
  have ux: "unat (of_nat x :: u64) < 512" using x by (simp add: unat_of_nat)
  define m1 where "m1 = fill_table (store s) (pool_at B (region_page x))
    (VIRT_BASE + region_base x) (region_base x) TABLE_SIZE"
  define m2 where "m2 = put_entry m1 (pool_at B 2) (of_nat x) (pool_at B (region_page x)) KERN_PERM_BITS"
  define m3 where "m3 = put_entry m2 (pool_at B 1) 510 (pool_at B 2) KERN_PERM_BITS"
  have "boot_ok B k (s\<lparr>store := m1\<rparr>)"
    unfolding m1_def using ok boot k(1) rp by (rule boot_ok_fill_table)
  then have "boot_ok B k (s\<lparr>store := m2\<rparr>)"
    using boot_ok_put_entry [OF ok _ k(1), of "s\<lparr>store := m1\<rparr>" 2 "of_nat x"] k ux by (simp add: m2_def)
  then have "boot_ok B k (s\<lparr>store := m3\<rparr>)"
    using boot_ok_put_entry [OF ok _ k(1), of "s\<lparr>store := m2\<rparr>" 1 510] k by (simp add: m3_def)
  then show ?thesis
    using boot_ok_put_entry [OF ok _ k(1), of "s\<lparr>store := m3\<rparr>" 0 511] k
    by (simp add: map_region_def m1_def m2_def m3_def)
qed

lemma regions_ok_get_page:
  assumes ok: "pool_ok B" and k: "52 \<le> k" "k < 99" and X: "\<And>y. y \<in> X \<Longrightarrow> y \<le> 48"
    and reg: "regions_ok B X m"
  shows "regions_ok B X (boot_step_mem B k m)"
proof -
  have keep: "load64 (boot_step_mem B k m) (pool_cell B i a) = load64 m (pool_cell B i a)"
    if "i < 52" "unat a < 512" "i = 0 \<longrightarrow> 50 \<le> unat a" for i a
    using that k by (intro boot_step_cell [OF ok]) auto
  have "load64 (boot_step_mem B k m) (pool_cell B 2 (of_nat x)) = load64 m (pool_cell B 2 (of_nat x))"
    "unat a < 512 \<Longrightarrow> load64 (boot_step_mem B k m) (pool_cell B (region_page x) a) =
      load64 m (pool_cell B (region_page x) a)"
    if "x \<in> X" for x a
  proof -
    have x: "x \<le> 48" using X that .
    then show "load64 (boot_step_mem B k m) (pool_cell B 2 (of_nat x)) = load64 m (pool_cell B 2 (of_nat x))"
      by (intro keep) (simp_all add: unat_of_nat)
    show "unat a < 512 \<Longrightarrow> load64 (boot_step_mem B k m) (pool_cell B (region_page x) a) =
        load64 m (pool_cell B (region_page x) a)"
      using region_page_bounds [OF x] by (intro keep) simp_all
  qed
  then show ?thesis using reg keep [of 0 511] keep [of 1 510] unfolding regions_ok_def by simp
qed

lemma set_initial_loop_fill:
  "n \<le> 512 \<Longrightarrow> set_initial_loop m pt virt (of_nat ((512 - n) * 4096)) 0x1FF000 =
     Some (fill_table m pt virt (of_nat ((512 - n) * 4096)) n)"
proof (induction n arbitrary: m virt)
  case 0
  then show ?case by (subst set_initial_loop.simps) simp
next
  case (Suc n)
  let ?b = "(512 - Suc n) * 4096"
  have u: "unat (of_nat ?b :: u64) = ?b" using Suc.prems by (intro unat_of_nat64) simp
  have "unat (of_nat ?b :: u64) \<le> unat (0x1FF000 :: u64)" unfolding u using Suc.prems by simp
  then have le: "(of_nat ?b :: u64) \<le> 0x1FF000" unfolding word_le_nat_alt .
  have "(512 - n) * 4096 = ?b + 4096" using Suc.prems by simp
  then have step: "(of_nat ?b :: u64) + PAGE_SIZE = of_nat ((512 - n) * 4096)" by simp
  have "set_initial_loop m pt virt (of_nat ?b) 0x1FF000 =
      set_initial_loop (put_entry m pt (get_pt_offset virt) (of_nat ?b) KERN_PERM_BITS) pt
        (virt + PAGE_SIZE) (of_nat ((512 - n) * 4096)) 0x1FF000"
    using le by (subst set_initial_loop.simps) (simp only: if_True step)
  also have "\<dots> = Some (fill_table (put_entry m pt (get_pt_offset virt) (of_nat ?b) KERN_PERM_BITS) pt
        (virt + PAGE_SIZE) (of_nat ((512 - n) * 4096)) n)"
    using Suc.prems by (intro Suc.IH) simp
  finally show ?case by (simp only: fill_table.simps step)
qed

definition boot_globals :: "u64 \<Rightarrow> 'a paging_scheme \<Rightarrow> bool" where
  "boot_globals B s \<longleftrightarrow> global_pml4 s = pool_at B 0 \<and> global_pdp s = pool_at B 1 \<and>
     global_pd s = pool_at B 2 \<and> kpt s = pool_at B 3"

lemma set_initial_addr_boot:
  assumes "boot_globals B s" and "physbase s = 0x200000"
  shows "set_initial_addr (pool_at B 4) s = Some (s\<lparr>store := map_region B 0 (store s)\<rparr>)"
proof -
  have loop: "set_initial_loop (store s) (pool_at B 4) VIRT_BASE 0 0x1FF000 =
      Some (fill_table (store s) (pool_at B 4) VIRT_BASE 0 512)"
    using set_initial_loop_fill [of 512 "store s" "pool_at B 4" VIRT_BASE] by simp
  have base: "region_base 0 = 0" "region_page 0 = 4" by (simp_all add: region_base_def region_page_def)
  show ?thesis
    using assms region_offsets(1-3) [of 0] loop
    by (simp add: set_initial_addr_def boot_globals_def map_region_def base Let_def)
qed

text \<open>The state between two calls of \<open>set_end_addr\<close>, after \<open>j\<close> of them.\<close>

definition boot_inv :: "u64 \<Rightarrow> nat \<Rightarrow> 'a paging_scheme \<Rightarrow> bool" where
  "boot_inv B j s \<longleftrightarrow> boot_ok B (52 + j) s \<and> boot_globals B s \<and>
     regions_ok B ({0} \<union> {2..<2 + j}) (store s) \<and>
     (if flag s then end_base_addr s else end_addr s) = region_base (2 + j)"

lemma region_base_Suc: "region_base x + of_nat TABLE_SIZE * PAGE_SIZE = region_base (Suc x)"
  by (simp add: region_base_def)

lemma set_end_addr_boot:
  assumes ok: "pool_ok B" and inv: "boot_inv B j s" and j: "j < 47"
  shows "set_end_addr (pool_at B (5 + j)) s =
    s\<lparr>store := boot_step_mem B (52 + j) (map_region B (2 + j) (store s)),
      pdesc := pool_at B (53 + j), counter := counter s + 1, flag := True,
      end_base_addr := region_base (3 + j), pml4_shared := pool_at B 0, pdp_shared := pool_at B 1,
      pd_shared := pool_at B 2, pt_shared := pool_at B (52 + j)\<rparr>"
proof -
  let ?s0 = "if \<not> flag s then s\<lparr>end_base_addr := end_addr s, flag := True\<rparr> else s"
  let ?b = "region_base (2 + j)"
  have e: "end_base_addr ?s0 = ?b" using inv by (simp add: boot_inv_def split: if_splits)
  have glob: "global_pml4 ?s0 = pool_at B 0" "global_pdp ?s0 = pool_at B 1" "global_pd ?s0 = pool_at B 2"
    using inv by (simp_all add: boot_inv_def boot_globals_def)
  have rp: "region_page (2 + j) = 5 + j" by (simp add: region_page_def)
  have x: "2 + j \<le> 48" using j by simp
  have offs: "get_pd_offset (VIRT_BASE + ?b) = of_nat (2 + j)" "get_pdp_offset (VIRT_BASE + ?b) = 510"
    "get_pml4_offset (VIRT_BASE + ?b) = 511"
    using region_offsets [OF x] by blast+
  let ?s1 = "?s0\<lparr>store := map_region B (2 + j) (store ?s0),
    end_base_addr := ?b + of_nat TABLE_SIZE * PAGE_SIZE,
    pml4_shared := pool_at B 0, pdp_shared := pool_at B 1, pd_shared := pool_at B 2\<rparr>"
  have unf: "set_end_addr (pool_at B (5 + j)) s = (let (page, s2) = get_page ?s1 in s2\<lparr>pt_shared := page\<rparr>)"
    unfolding set_end_addr_def Let_def e glob offs map_region_def rp ..
  have "boot_ok B (52 + j) (s\<lparr>store := map_region B (2 + j) (store s)\<rparr>)"
    using inv j x by (intro boot_ok_map_region [OF ok]) (simp_all add: boot_inv_def)
  then have "boot_ok B (52 + j) ?s1" by (simp add: boot_ok_def)
  from get_page_boot [OF this] j show ?thesis
    unfolding unf region_base_Suc by (simp add: numeral_eq_Suc)
qed

lemma boot_inv_step:
  assumes ok: "pool_ok B" and inv: "boot_inv B j s" and j: "j < 47"
  shows "boot_inv B (Suc j) (set_end_addr (pool_at B (5 + j)) s)"
proof -
  let ?m = "map_region B (2 + j) (store s)" and ?X = "{0} \<union> {2..<2 + j}"
  have "boot_ok B (52 + j) (s\<lparr>store := ?m\<rparr>)"
    using inv j by (intro boot_ok_map_region [OF ok]) (simp_all add: boot_inv_def)
  from boot_ok_get_page [OF ok this]
  have boot: "boot_ok B (53 + j) (s\<lparr>store := boot_step_mem B (52 + j) ?m, pdesc := pool_at B (53 + j),
      counter := counter s + 1\<rparr>)"
    using j by simp
  have "regions_ok B (insert (2 + j) ?X) ?m"
    using inv j by (intro regions_ok_map [OF ok]) (auto simp add: boot_inv_def)
  then have reg: "regions_ok B (insert (2 + j) ?X) (boot_step_mem B (52 + j) ?m)"
    using j by (intro regions_ok_get_page [OF ok]) auto
  have "insert (2 + j) ?X = {0} \<union> {2..<2 + Suc j}" by auto
  with reg have reg': "regions_ok B ({0} \<union> {2..<2 + Suc j}) (boot_step_mem B (52 + j) ?m)" by (simp only:)
  have "2 + Suc j = 3 + j" "52 + Suc j = 53 + j" by simp_all
  then show ?thesis
    unfolding set_end_addr_boot [OF assms] boot_inv_def
    using boot reg' inv by (simp add: boot_inv_def boot_globals_def boot_ok_def numeral_3_eq_3)
qed

lemma boot_inv_fold:
  "pool_ok B \<Longrightarrow> boot_inv B 0 s \<Longrightarrow> n \<le> 47 \<Longrightarrow>
   boot_inv B n (fold set_end_addr (map (pool_at B) [5..<5 + n]) s)"
proof (induction n)
  case 0
  then show ?case by simp
next
  case (Suc n)
  have "[5..<5 + Suc n] = [5..<5 + n] @ [5 + n]"
    unfolding add_Suc_right by (rule upt_Suc_append) simp
  then have "fold set_end_addr (map (pool_at B) [5..<5 + Suc n]) s =
      set_end_addr (pool_at B (5 + n)) (fold set_end_addr (map (pool_at B) [5..<5 + n]) s)"
    by (simp only: map_append fold_append list.map fold.simps comp_apply id_apply)
  moreover have "boot_inv B (Suc n)
      (set_end_addr (pool_at B (5 + n)) (fold set_end_addr (map (pool_at B) [5..<5 + n]) s))"
    using Suc by (intro boot_inv_step) simp_all
  ultimately show ?case by (simp only:)
qed

lemma get_pages_boot:
  assumes ok: "pool_ok B" and "boot_ok B k s" and "k + n \<le> 99"
  obtains m p c where "get_pages n s =
      (map (pool_at B) [k..<k + n], s\<lparr>store := m, pdesc := p, counter := c\<rparr>)"
    and "boot_ok B (k + n) (s\<lparr>store := m, pdesc := p, counter := c\<rparr>)"
  using assms(2,3)
proof (induction n arbitrary: k s thesis)
  case 0
  show ?case by (rule 0(1) [where m = "store s" and p = "pdesc s" and c = "counter s"])
      (use 0 in simp_all)
next
  case (Suc n)
  let ?s = "s\<lparr>store := boot_step_mem B k (store s), pdesc := pool_at B (Suc k), counter := counter s + 1\<rparr>"
  have k: "k < 99" using Suc.prems(3) by simp
  have boot: "boot_ok B (Suc k) ?s" using ok Suc.prems(2) k by (rule boot_ok_get_page)
  obtain m p c where run: "get_pages n ?s =
      (map (pool_at B) [Suc k..<Suc k + n], ?s\<lparr>store := m, pdesc := p, counter := c\<rparr>)"
    and fin: "boot_ok B (Suc k + n) (?s\<lparr>store := m, pdesc := p, counter := c\<rparr>)"
    using Suc.IH [OF _ boot] Suc.prems(3) by auto
  have "get_pages (Suc n) s =
      (map (pool_at B) [k..<k + Suc n], s\<lparr>store := m, pdesc := p, counter := c\<rparr>)"
  proof -
    have "[k..<k + Suc n] = k # [Suc k..<Suc k + n]" by (simp add: upt_conv_Cons del: upt_Suc)
    then show ?thesis using run get_page_boot [OF Suc.prems(2) k] by (simp del: upt_Suc)
  qed
  moreover have "boot_ok B (k + Suc n) (s\<lparr>store := m, pdesc := p, counter := c\<rparr>)" using fin by simp
  ultimately show ?case by (rule Suc.prems(1))
qed

lemma boot_take:
  assumes "pool_ok B" and "boot_ok B k s" and "k < 99"
  shows "\<exists>m c. get_page s = (pool_at B k, s\<lparr>store := m, pdesc := pool_at B (Suc k), counter := c\<rparr>) \<and>
    boot_ok B (Suc k) (s\<lparr>store := m, pdesc := pool_at B (Suc k), counter := c\<rparr>)"
  using get_page_boot [OF assms(2,3)] boot_ok_get_page [OF assms] by blast

lemma set_kpage_tables_boot:
  assumes ok: "pool_ok B" and boot: "boot_ok B 1 s" and base: "physbase s = 0x200000"
    and virt: "virt_base s = VIRT_BASE + region_base 1" and fl: "\<not> flag s"
  obtains s' where "set_kpage_tables (pool_at B 0) s = Some (pool_at B 0, s')"
    and "boot_ok B 99 s'" and "regions_ok B {..48} (store s')"
proof -
  obtain m1 c1 where 1: "get_page s = (pool_at B 1, s\<lparr>store := m1, pdesc := pool_at B 2, counter := c1\<rparr>)"
    "boot_ok B 2 (s\<lparr>store := m1, pdesc := pool_at B 2, counter := c1\<rparr>)"
    using boot_take [OF ok boot] by (auto simp add: numeral_2_eq_2)
  obtain m2 c2 where 2: "get_page (s\<lparr>store := m1, pdesc := pool_at B 2, counter := c1\<rparr>) =
      (pool_at B 2, s\<lparr>store := m2, pdesc := pool_at B 3, counter := c2\<rparr>)"
    "boot_ok B 3 (s\<lparr>store := m2, pdesc := pool_at B 3, counter := c2\<rparr>)"
    using boot_take [OF ok 1(2)] by auto
  obtain m3 c3 where 3: "get_page (s\<lparr>store := m2, pdesc := pool_at B 3, counter := c2\<rparr>) =
      (pool_at B 3, s\<lparr>store := m3, pdesc := pool_at B 4, counter := c3\<rparr>)"
    "boot_ok B 4 (s\<lparr>store := m3, pdesc := pool_at B 4, counter := c3\<rparr>)"
    using boot_take [OF ok 2(2)] by auto
  obtain m4 c4 where 4: "get_page (s\<lparr>store := m3, pdesc := pool_at B 4, counter := c3\<rparr>) =
      (pool_at B 4, s\<lparr>store := m4, pdesc := pool_at B 5, counter := c4\<rparr>)"
    "boot_ok B 5 (s\<lparr>store := m4, pdesc := pool_at B 5, counter := c4\<rparr>)"
    using boot_take [OF ok 3(2)] by auto
  obtain m5 p5 c5 where 5: "get_pages 47 (s\<lparr>store := m4, pdesc := pool_at B 5, counter := c4\<rparr>) =
      (map (pool_at B) [5..<5 + 47], s\<lparr>store := m5, pdesc := p5, counter := c5\<rparr>)"
    "boot_ok B 52 (s\<lparr>store := m5, pdesc := p5, counter := c5\<rparr>)"
    by (rule get_pages_boot [OF ok 4(2), of 47]) simp_all
  define s5 where "s5 = s\<lparr>store := m5, pdesc := p5, counter := c5, global_pml4 := pool_at B 0,
    global_pdp := pool_at B 1, global_pd := pool_at B 2, kpt := pool_at B 3\<rparr>"
  define s6 where "s6 = s5\<lparr>store := map_region B 0 m5, end_addr := region_base 2\<rparr>"
  have glob: "boot_globals B s5" by (simp add: boot_globals_def s5_def)
  have init: "set_initial_addr (pool_at B 4) s5 = Some (s5\<lparr>store := map_region B 0 (store s5)\<rparr>)"
    using glob base by (intro set_initial_addr_boot) (simp_all add: s5_def)
  have "boot_ok B 52 (s5\<lparr>store := map_region B 0 (store s5)\<rparr>)"
    using 5(2) by (intro boot_ok_map_region [OF ok]) (simp_all add: s5_def boot_ok_def)
  moreover have "regions_ok B {0} (map_region B 0 m5)"
    using regions_ok_map [OF ok, of 0 "{}" m5] by (simp add: regions_ok_def)
  ultimately have inv0: "boot_inv B 0 s6"
    using fl glob by (simp add: boot_inv_def s6_def s5_def boot_ok_def boot_globals_def)
  define s7 where "s7 = fold set_end_addr (map (pool_at B) [5..<5 + 47]) s6"
  have inv: "boot_inv B 47 s7" unfolding s7_def using ok inv0 by (rule boot_inv_fold) simp
  let ?s8 = "s7\<lparr>store := map_region B 1 (store s7)\<rparr>"
  have rb: "region_base 1 = 0x200000" "physbase s5 = 0x200000" "region_page 1 = 3"
    using base by (simp_all add: region_base_def s5_def region_page_def)
  have e2: "0x200000 + of_nat TABLE_SIZE * PAGE_SIZE = region_base 2" by (simp add: region_base_def)
  have "kpt s7 = pool_at B 3" using inv by (simp add: boot_inv_def boot_globals_def)
  then have "set_kpage_tables (pool_at B 0) s = Some (pool_at B 0, ?s8)"
    using init region_offsets(1-3) [of 1] 1(1) 2(1) 3(1) 4(1) 5(1) base virt rb e2
    by (simp add: set_kpage_tables_def map_region_def s5_def s6_def s7_def Let_def)
  moreover have "boot_ok B 99 ?s8"
    using inv by (intro boot_ok_map_region [OF ok]) (simp_all add: boot_inv_def)
  moreover have "regions_ok B (insert 1 ({0} \<union> {2..<2 + 47})) (store ?s8)"
  proof -
    have "regions_ok B (insert 1 ({0} \<union> {2..<2 + 47})) (map_region B 1 (store s7))"
      using inv by (intro regions_ok_map [OF ok]) (auto simp add: boot_inv_def)
    then show ?thesis by simp
  qed
  moreover have "insert 1 ({0} \<union> {2..<2 + 47}) = {..48 :: nat}" by auto
  ultimately show thesis using that [of ?s8] by (simp only:)
qed

section \<open>The mapping the kernel boots with\<close>

lemma boot_ok_init:
  assumes ok: "pool_ok B" and c: "counter s = 0"
  shows "boot_ok B 0 (set_pages B (s\<lparr>store := m, freelist := B\<rparr>))"
proof -
  have "pd_next (set_pages_loop 24576 m B) (B + of_nat j * PAGE_SIZE) = B + of_nat (Suc j) * PAGE_SIZE"
    if "j < 24575" for j
    using ok that by (intro set_pages_links) (simp_all add: pool_ok_def)
  then show ?thesis
    using c by (simp add: boot_ok_def set_pages_def chain_def pool_cell_def pool_at_def pd_next_def)
qed

lemma region_frame:
  assumes "x \<le> 48" and "unat a < 512"
  shows "frame_ok (region_base x + a * PAGE_SIZE)"
    and "unat (region_base x + a * PAGE_SIZE) = x * 2 ^ 21 + unat a * 2 ^ 12"
proof -
  have "region_base x + a * PAGE_SIZE = 0 + of_nat (x * 512 + unat a) * PAGE_SIZE"
    by (simp add: region_base_def algebra_simps)
  moreover have "unat (0 + of_nat (x * 512 + unat a) * PAGE_SIZE) = unat (0 :: u64) + (x * 512 + unat a) * 4096"
    using assms by (intro unat_page_index) simp
  ultimately show u: "unat (region_base x + a * PAGE_SIZE) = x * 2 ^ 21 + unat a * 2 ^ 12" by simp
  have "page_aligned (region_base x + a * PAGE_SIZE)"
    unfolding \<open>region_base x + a * PAGE_SIZE = _\<close> by (intro page_aligned_add page_aligned_mult) simp
  then show "frame_ok (region_base x + a * PAGE_SIZE)" using u assms by (simp add: frame_ok_def)
qed

lemma regions_walk:
  assumes ok: "pool_ok B" and reg: "regions_ok B {..48} m" and p: "unat p < 49 * 2 ^ 21"
  shows "walk 0 m (pool_at B 0) (VIRT_BASE + p) = Some (p, 3)"
proof -
  let ?x = "unat p div 2 ^ 21" and ?va = "VIRT_BASE + p"
  have x: "?x \<le> 48" using p by (simp add: div_le_mono less_mult_imp_div_less less_Suc_eq_le [symmetric])
  have p30: "unat p < 2 ^ 30" using p by simp
  note off = kernel_offsets [OF p30]
  have pt: "unat (get_pt_offset ?va) < 512" unfolding off(4) by simp
  have pd: "get_pd_offset ?va = of_nat ?x" unfolding off(3) [symmetric] by simp
  let ?f = "region_base ?x + get_pt_offset ?va * PAGE_SIZE"
  have reg': "load64 m (pool_cell B 0 511) = pool_at B 1 OR KERN_PERM_BITS"
    "load64 m (pool_cell B 1 510) = pool_at B 2 OR KERN_PERM_BITS"
    "load64 m (pool_cell B 2 (of_nat ?x)) = pool_at B (region_page ?x) OR KERN_PERM_BITS"
    "load64 m (pool_cell B (region_page ?x) (get_pt_offset ?va)) = ?f OR KERN_PERM_BITS"
    using reg x pt unfolding regions_ok_def by auto
  have fr: "frame_ok (pool_at B 1)" "frame_ok (pool_at B 2)" "frame_ok (pool_at B (region_page ?x))"
    using region_page_bounds [OF x] by (auto intro!: pool_at_frame [OF ok])
  have root: "entry_base (pool_at B 0) = pool_at B 0"
    using ok by (intro entry_base_frame pool_at_frame) simp_all
  have "walk 0 m (pool_at B 0) ?va = Some (?f + (?va AND 0xFFF),
      KERN_PERM_BITS AND KERN_PERM_BITS AND KERN_PERM_BITS AND KERN_PERM_BITS)"
    using reg' fr region_frame(1) [OF x pt]
    by (intro walk_path [where pdp = "pool_at B 1" and pd = "pool_at B 2" and pt = "pool_at B (region_page ?x)"])
       (simp_all add: root off(1,2) pd pool_cell_def)
  moreover have "?f + (?va AND 0xFFF) = p"
  proof -
    have "?va AND 0xFFF = take_bit 12 ?va" by (simp add: take_bit_eq_mask mask_eq_exp_minus_1)
    then have "unat (?va AND 0xFFF) = unat ?va mod 2 ^ 12"
      by (simp only: unsigned_take_bit_eq) (simp only: take_bit_eq_mod)
    moreover have "unat ?va = 0xFFFFFFFF80000000 + unat p"
      using unat_add_of_nat [of VIRT_BASE "unat p"] p by simp
    moreover have "(0xFFFFFFFF80000000 + unat p) mod 2 ^ 12 = unat p mod 2 ^ 12"
      using mod_mult_self2 [of "unat p" "2 ^ 12" "0xFFFFFFFF80000"] by (simp add: add.commute)
    ultimately have "unat (?va AND 0xFFF) = unat p mod 2 ^ 12" by (simp only:)
    moreover have "?f + (?va AND 0xFFF) = ?f + of_nat (unat (?va AND 0xFFF))" by simp
    moreover have "unat ?f = unat p div 2 ^ 21 * 2 ^ 21 + unat p div 2 ^ 12 mod 512 * 2 ^ 12"
      using region_frame(2) [OF x pt] off(4) by simp
    moreover have split: "unat p div 2 ^ 21 * 2 ^ 21 + unat p div 2 ^ 12 mod 512 * 2 ^ 12 + unat p mod 2 ^ 12 = unat p"
    proof -
      have "unat p div 2 ^ 21 = unat p div 2 ^ 12 div 512" by (simp add: div_mult2_eq [symmetric])
      moreover have "unat p div 2 ^ 12 div 512 * 512 + unat p div 2 ^ 12 mod 512 = unat p div 2 ^ 12"
        by (rule div_mult_mod_eq)
      moreover have "unat p div 2 ^ 12 * 2 ^ 12 + unat p mod 2 ^ 12 = unat p" by (rule div_mult_mod_eq)
      moreover have "b * 2 ^ 21 + c * 2 ^ 12 + e = n" if "b * 512 + c = d" "d * 2 ^ 12 + e = n" for b c d e n :: nat
        using that by simp
      ultimately show ?thesis by (simp only:)
    qed
    ultimately have "unat (?f + (?va AND 0xFFF)) = unat p"
      using unat_add_of_nat [of ?f "unat p mod 2 ^ 12"] p by simp
    then show ?thesis by (simp only: word_unat_eq_iff)
  qed
  ultimately show ?thesis by simp
qed

text \<open>C1. \<open>set_free_list\<close> succeeds from the state the loader leaves, and the tables it loads
  map the first 98 MiB of physical memory, writable for the kernel only, at \<open>VIRT_BASE\<close>. The head
  of the top table is empty, so that nothing is mapped at low addresses.\<close>

theorem boot_kernel_map:
  assumes "physbase s = 0x200000" and "virt_base s = VIRT_BASE" and "counter s = 0" and "\<not> flag s"
    and "page_aligned (physfree s)" and "unat (physfree s) + 0x18000 + 24576 * 4096 < 2 ^ 52"
  shows "\<exists>s'. set_free_list s = Some s' \<and> cr3 s' = physfree s + 0x18000 \<and>
    pml4_shared s' = cr3 s' + VIRT_BASE \<and> freelist s' = VIRT_BASE + physfree s \<and>
    (\<forall>p. unat p < 49 * 2 ^ 21 \<longrightarrow> walk 0 (store s') (cr3 s') (VIRT_BASE + p) = Some (p, 3)) \<and>
    (\<forall>x < 396. store s' (cr3 s' + of_nat x) = 0)"
proof -
  let ?B = "physfree s + 0x18000"
  have "unat ?B = unat (physfree s) + 0x18000"
    using unat_add_of_nat [of "physfree s" "0x18000"] assms(6) by simp
  then have ok: "pool_ok ?B"
    using assms(5,6) mod_add_self2 by (simp add: pool_ok_def page_aligned_def mod_add_left_eq [symmetric, of _ 98304])
  obtain m where init: "init_freelist NUMBER_OF_PAGES (store s) (physfree s) = (m, ?B)"
  proof -
    have "snd (init_freelist NUMBER_OF_PAGES (store s) (physfree s)) = ?B"
      unfolding init_freelist_end by simp
    then show thesis using that by (metis prod.collapse)
  qed
  let ?s1 = "set_pages ?B (s\<lparr>store := m, freelist := ?B\<rparr>)"
  have "boot_ok ?B 0 ?s1" using ok assms(3) by (rule boot_ok_init)
  from boot_take [OF ok this]
  obtain m1 c1 where 1: "get_page ?s1 =
      (pool_at ?B 0, ?s1\<lparr>store := m1, pdesc := pool_at ?B 1, counter := c1\<rparr>)"
    "boot_ok ?B 1 (?s1\<lparr>store := m1, pdesc := pool_at ?B 1, counter := c1\<rparr>)"
    by auto
  let ?s2 = "?s1\<lparr>store := m1, pdesc := pool_at ?B 1, counter := c1, virt_base := VIRT_BASE + region_base 1\<rparr>"
  obtain s3 where 3: "set_kpage_tables (pool_at ?B 0) ?s2 = Some (pool_at ?B 0, s3)"
    "boot_ok ?B 99 s3" "regions_ok ?B {..48} (store s3)"
    by (rule set_kpage_tables_boot [OF ok, where s = ?s2])
       (use 1(2) assms(1,4) in \<open>simp_all add: boot_ok_def set_pages_def\<close>)
  have "set_kernel_pages ?s1 = Some (pool_at ?B 0, s3)"
    using 1(1) 3(1) assms(1,2) by (simp add: set_kernel_pages_def set_pages_def region_base_def)
  then obtain s' where "set_free_list s = Some s'" "cr3 s' = pool_at ?B 0" "store s' = store s3"
    "pml4_shared s' = pool_at ?B 0 + VIRT_BASE" "freelist s' = VIRT_BASE + physfree s"
    using init by (simp add: set_free_list_def set_pml4_def load_cr3_def Let_def)
  moreover have "pool_at ?B 0 = ?B" by (simp add: pool_at_def)
  moreover have "\<forall>x < 396. store s3 (?B + of_nat x) = 0" using 3(2) by (simp add: boot_ok_def)
  ultimately show ?thesis using regions_walk [OF ok 3(3)] by simp
qed

definition demo_loader :: paging where
  "demo_loader = demo_paging\<lparr>virt_base := VIRT_BASE, counter := 0, flag := False, physfree := 0x250000\<rparr>"

theorem boot_kernel_map_witness:
  "\<exists>s'. set_free_list demo_loader = Some s' \<and> cr3 s' = 0x268000 \<and>
    pml4_shared s' = cr3 s' + VIRT_BASE \<and> freelist s' = VIRT_BASE + 0x250000 \<and>
    (\<forall>p. unat p < 49 * 2 ^ 21 \<longrightarrow> walk 0 (store s') (cr3 s') (VIRT_BASE + p) = Some (p, 3)) \<and>
    (\<forall>x < 396. store s' (cr3 s' + of_nat x) = 0)"
proof -
  have "physfree demo_loader = 0x250000" "physfree demo_loader + 0x18000 = 0x268000"
    by (simp_all add: demo_loader_def)
  then show ?thesis
    using boot_kernel_map [of demo_loader]
    by (simp add: demo_loader_def demo_paging_def page_aligned_def)
qed

end
