(* ===== verification/Devices.thy ===== *)
theory Devices
  imports Boot_Paging
begin

text \<open>
  The port-mapped hardware (\<open>sys/io_ports.c\<close>, \<open>sys/pic.c\<close>, the set-up of \<open>sys/timer.c\<close>)
  and the descriptor tables of the processor (\<open>sys/gdt.c\<close> and the gates of \<open>sys/idt.c\<close>).

  A read of a port delivers the byte that the device holds out at that moment, a field of the
  state. Writes are appended to a log, so that a theorem about a set-up routine is a statement
  about the sequence of bytes that the device is sent.
\<close>

section \<open>Ports\<close>

record int_vec_t =
  offset_1 :: u16
  selector :: u16
  ist :: u8
  type_attr :: u8
  offset_2 :: u16
  offset_3 :: u32
  reserved :: u32

text \<open>The addresses of the assembly entry points and of the table are those that the linker
  chose.\<close>

record isr_table =
  isr0 :: u64
  isr10 :: u64
  isr14 :: u64
  isr128 :: u64
  irq0 :: u64
  irq1 :: u64
  ivt_addr :: u64

record devices = user_paging +
  port_in :: "u16 \<Rightarrow> u8"
  port_out :: "(u16 \<times> u8) list"
  ivt :: "int_vec_t list"
  ivt_ptr :: "u16 \<times> u64"
  isrs :: isr_table
  gdt :: "u64 list"
  tss_addr :: u64
  tss_rsp0 :: u64
  interrupts :: bool
  gdtr :: "u16 \<times> u64"
  reg_gdtr :: "u16 \<times> u64"
  reg_idtr :: "u16 \<times> u64"
  reg_tr :: u64
  seg_cs :: u64
  seg_ss :: u64
  seg_ds :: u64
  seg_es :: u64
  seg_fs :: u64
  seg_gs :: u64

definition outb :: "u16 \<Rightarrow> u8 \<Rightarrow> 'a devices_scheme \<Rightarrow> 'a devices_scheme" where
  "outb port val s = s\<lparr>port_out := port_out s @ [(port, val)]\<rparr>"

definition inb :: "u16 \<Rightarrow> 'a devices_scheme \<Rightarrow> u8" where
  "inb port s = port_in s port"

section \<open>The interrupt controller\<close>

abbreviation PIC1_COMMAND :: u16 where
  "PIC1_COMMAND \<equiv> 0x20"

abbreviation PIC1_DATA :: u16 where
  "PIC1_DATA \<equiv> 0x21"

abbreviation PIC2_COMMAND :: u16 where
  "PIC2_COMMAND \<equiv> 0xA0"

abbreviation PIC2_DATA :: u16 where
  "PIC2_DATA \<equiv> 0xA1"

abbreviation PIC_EOI :: u8 where
  "PIC_EOI \<equiv> 0x20"

abbreviation ICW1_ICW4 :: u8 where
  "ICW1_ICW4 \<equiv> 0x01"

abbreviation ICW1_INIT :: u8 where
  "ICW1_INIT \<equiv> 0x10"

abbreviation ICW4_8086 :: u8 where
  "ICW4_8086 \<equiv> 0x01"

definition init_pic :: "'a devices_scheme \<Rightarrow> 'a devices_scheme" where
  "init_pic s =
     (let a1 = inb PIC1_DATA s; a2 = inb PIC2_DATA s
      in fold (\<lambda>(port, val). outb port val)
        [(PIC1_COMMAND, ICW1_INIT + ICW1_ICW4), (PIC2_COMMAND, ICW1_INIT + ICW1_ICW4),
         (PIC1_DATA, 0x20), (PIC2_DATA, 0x28), (PIC1_DATA, 4), (PIC2_DATA, 2),
         (PIC1_DATA, ICW4_8086), (PIC2_DATA, ICW4_8086), (PIC1_DATA, a1), (PIC2_DATA, a2)] s)"

definition PIC_sendEOI :: "u8 \<Rightarrow> 'a devices_scheme \<Rightarrow> 'a devices_scheme" where
  "PIC_sendEOI irq s =
     (let s1 = (if irq \<ge> 8 then outb PIC2_COMMAND PIC_EOI s else s)
      in outb PIC1_COMMAND PIC_EOI s1)"

definition irq_port :: "u8 \<Rightarrow> u16 \<times> u8" where
  "irq_port IRQline = (if IRQline < 8 then (PIC1_DATA, IRQline) else (PIC2_DATA, IRQline - 8))"

definition IRQ_set_mask :: "u8 \<Rightarrow> 'a devices_scheme \<Rightarrow> 'a devices_scheme" where
  "IRQ_set_mask IRQline s =
     (let (port, line) = irq_port IRQline
      in outb port (inb port s OR ucast (push_bit (unat line) (1 :: u32))) s)"

definition IRQ_clear_mask :: "u8 \<Rightarrow> 'a devices_scheme \<Rightarrow> 'a devices_scheme" where
  "IRQ_clear_mask IRQline s =
     (let (port, line) = irq_port IRQline
      in outb port (inb port s AND ucast (NOT (push_bit (unat line) (1 :: u32)))) s)"

section \<open>The interval timer\<close>

abbreviation MH_FREQ :: u64 where
  "MH_FREQ \<equiv> 1193180"

abbreviation I86_PIT_REG_COUNTER0 :: u16 where
  "I86_PIT_REG_COUNTER0 \<equiv> 0x40"

abbreviation I86_PIT_REG_COMMAND :: u16 where
  "I86_PIT_REG_COMMAND \<equiv> 0x43"

definition init_timer :: "'a devices_scheme \<Rightarrow> 'a devices_scheme" where
  "init_timer s =
     (let frequency = 100;
          divisor = ucast (MH_FREQ div frequency) :: u16;
          s1 = outb I86_PIT_REG_COMMAND 0x36 s;
          l = ucast (divisor AND 0xFF); h = ucast (drop_bit 8 divisor)
      in outb I86_PIT_REG_COUNTER0 h (outb I86_PIT_REG_COUNTER0 l s1))"

section \<open>The interrupt descriptor table\<close>

abbreviation NUMBER_OF_IDT_ENTRIES :: nat where
  "NUMBER_OF_IDT_ENTRIES \<equiv> 256"

text \<open>A gate outside of the table would be written behind it; such a call has no result.\<close>

definition ivt_set_gate ::
  "int \<Rightarrow> u64 \<Rightarrow> u16 \<Rightarrow> u8 \<Rightarrow> 'a devices_scheme \<Rightarrow> 'a devices_scheme option" where
  "ivt_set_gate i off sel flags s =
     (if 0 \<le> i \<and> nat i < length (ivt s)
      then Some (s\<lparr>ivt := (ivt s)[nat i := \<lparr>
        offset_1 = ucast (off AND 0xFFFF), selector = sel, ist = 0, type_attr = flags,
        offset_2 = ucast (drop_bit 16 off AND 0xFFFF),
        offset_3 = ucast (drop_bit 32 off AND 0xFFFFFFFF), reserved = 0\<rparr>]\<rparr>)
      else None)"

definition load_idtr :: "u16 \<times> u64 \<Rightarrow> 'a devices_scheme \<Rightarrow> 'a devices_scheme" where
  "load_idtr p s = s\<lparr>reg_idtr := p\<rparr>"

definition enable_interrupt_flag :: "'a devices_scheme \<Rightarrow> 'a devices_scheme" where
  "enable_interrupt_flag s = s\<lparr>interrupts := True\<rparr>"

definition set_up_idt :: "'a devices_scheme \<Rightarrow> 'a devices_scheme option" where
  "set_up_idt s = do {
     let t = isrs s;
     let s = s\<lparr>ivt_ptr := (of_nat (16 * NUMBER_OF_IDT_ENTRIES), ivt_addr t)\<rparr>;
     s \<leftarrow> ivt_set_gate 0 (isr0 t) 0x08 0x8E s;
     s \<leftarrow> ivt_set_gate 10 (isr10 t) 0x08 0x8E s;
     s \<leftarrow> ivt_set_gate 14 (isr14 t) 0x08 0x8E s;
     s \<leftarrow> ivt_set_gate 128 (isr128 t) 0x08 0xEE s;
     s \<leftarrow> ivt_set_gate 32 (irq0 t) 0x08 0x8E s;
     s \<leftarrow> ivt_set_gate 33 (irq1 t) 0x08 0x8E s;
     Some (enable_interrupt_flag (load_idtr (ivt_ptr s) s))
   }"

section \<open>The global descriptor table\<close>

abbreviation GDT_CS :: u64 where
  "GDT_CS \<equiv> 0x00180000000000"

abbreviation GDT_DS :: u64 where
  "GDT_DS \<equiv> 0x00100000000000"

abbreviation DPL0 :: u64 where
  "DPL0 \<equiv> 0"

abbreviation DPL3 :: u64 where
  "DPL3 \<equiv> 0x00600000000000"

abbreviation GDT_P :: u64 where
  "GDT_P \<equiv> 0x00800000000000"

abbreviation GDT_L :: u64 where
  "GDT_L \<equiv> 0x20000000000000"

abbreviation GDT_W :: u64 where
  "GDT_W \<equiv> 0x00020000000000"

abbreviation MAX_GDT :: nat where
  "MAX_GDT \<equiv> 32"

text \<open>The initial value of the table, and the size of the packed \<open>struct tss_t\<close>.\<close>

definition gdt_init :: "u64 list" where
  "gdt_init =
     [0, GDT_CS OR GDT_P OR DPL0 OR GDT_L, GDT_DS OR GDT_P OR GDT_W OR DPL0, 0,
      GDT_DS OR GDT_P OR GDT_W OR DPL3, GDT_CS OR GDT_P OR DPL3 OR GDT_L, 0, 0] @
     replicate (MAX_GDT - 8) 0"

abbreviation sizeof_tss :: u64 where
  "sizeof_tss \<equiv> 104"

text \<open>Assignment to a bit field of \<open>n\<close> bits at bit \<open>i\<close> of the 16 byte descriptor.\<close>

definition set_field :: "nat \<Rightarrow> nat \<Rightarrow> u64 \<Rightarrow> 128 word \<Rightarrow> 128 word" where
  "set_field i n v d = (d AND NOT (push_bit i (mask n))) OR push_bit i (take_bit n (ucast v))"

definition tss_descriptor :: "u64 \<Rightarrow> 128 word \<Rightarrow> 128 word" where
  "tss_descriptor tss sd =
     set_field 56 40 (drop_bit 24 tss) (set_field 55 1 0 (set_field 48 4 0 (set_field 47 1 1
       (set_field 45 2 0 (set_field 40 5 9 (set_field 16 24 tss
         (set_field 0 16 (sizeof_tss - 1) sd)))))))"

text \<open>The routines of \<open>sys/gdt.s\<close>. The far return that loads the code segment goes on behind itself, and its
  two words on the stack are gone afterwards.\<close>

definition x86_64_asm_lgdt :: "u16 \<times> u64 \<Rightarrow> u64 \<Rightarrow> u64 \<Rightarrow> 'a devices_scheme \<Rightarrow> 'a devices_scheme" where
  "x86_64_asm_lgdt p cs_idx ds_idx s =
     s\<lparr>reg_gdtr := p, seg_cs := cs_idx, seg_es := ds_idx, seg_fs := ds_idx, seg_gs := ds_idx, seg_ds := ds_idx,
       seg_ss := ds_idx\<rparr>"

definition x86_64_asm_ltr :: "u64 \<Rightarrow> 'a devices_scheme \<Rightarrow> 'a devices_scheme" where
  "x86_64_asm_ltr tss_idx s = s\<lparr>reg_tr := tss_idx\<rparr>"

definition init_gdt :: "'a devices_scheme \<Rightarrow> 'a devices_scheme option" where
  "init_gdt s =
     (if 7 < length (gdt s)
      then let sd = tss_descriptor (tss_addr s) (word_cat (gdt s ! 7) (gdt s ! 6))
           in Some (x86_64_asm_ltr 0x30 (x86_64_asm_lgdt (gdtr s) 8 16
             (s\<lparr>gdt := (gdt s)[6 := ucast sd, 7 := ucast (drop_bit 64 sd)]\<rparr>)))
      else None)"

definition set_tss_rsp :: "u64 \<Rightarrow> 'a devices_scheme \<Rightarrow> 'a devices_scheme" where
  "set_tss_rsp rsp s = s\<lparr>tss_rsp0 := rsp\<rparr>"

section \<open>What the processor reads from the tables\<close>

text \<open>The address that the processor puts together from the three parts of a gate.\<close>

definition gate_target :: "int_vec_t \<Rightarrow> u64" where
  "gate_target g = ucast (offset_1 g) OR push_bit 16 (ucast (offset_2 g)) OR push_bit 32 (ucast (offset_3 g))"

definition gate :: "u64 \<Rightarrow> u16 \<Rightarrow> u8 \<Rightarrow> int_vec_t" where
  "gate off sel flags = \<lparr>offset_1 = ucast off, selector = sel, ist = 0, type_attr = flags,
     offset_2 = ucast (drop_bit 16 off), offset_3 = ucast (drop_bit 32 off), reserved = 0\<rparr>"

lemma and_masks: "(v :: u64) AND 0xFF = take_bit 8 v" "v AND 0xFFFF = take_bit 16 v" "v AND 0xFFFFFFFF = take_bit 32 v"
  by (simp_all add: take_bit_eq_mask mask_eq_exp_minus_1)

lemma ivt_set_gate_eq:
  "0 \<le> i \<Longrightarrow> nat i < length (ivt s) \<Longrightarrow>
   ivt_set_gate i off sel flags s = Some (s\<lparr>ivt := (ivt s)[nat i := gate off sel flags]\<rparr>)"
  by (simp add: ivt_set_gate_def gate_def and_masks unsigned_take_bit_eq take_bit_word_eq_self)

lemma gate_target_gate: "gate_target (gate off sel flags) = off"
proof (rule bit_word_eqI)
  fix n
  assume "n < LENGTH(64)"
  then show "bit (gate_target (gate off sel flags)) n \<longleftrightarrow> bit off n"
    by (cases "n < 32") (auto simp add: gate_target_def gate_def bit_simps)
qed

text \<open>The base address that the processor puts together from a system descriptor.\<close>

definition descriptor_base :: "128 word \<Rightarrow> u64" where
  "descriptor_base d = ucast (take_bit 24 (drop_bit 16 d)) OR push_bit 24 (ucast (take_bit 40 (drop_bit 56 d)))"

lemma bit_set_field:
  "bit (set_field i n v d) k \<longleftrightarrow> k < 128 \<and> (if i \<le> k \<and> k < i + n then bit v (k - i) else bit d k)"
  by (auto simp add: set_field_def bit_simps dest: bit_imp_le_length)


lemma tss_descriptor_fields:
  fixes tss :: u64
  shows "descriptor_base (tss_descriptor tss d) = tss"
    and "take_bit 16 (tss_descriptor tss d) = 103"
    and "take_bit 8 (drop_bit 40 (tss_descriptor tss d)) = 0x89"
proof -
  show "descriptor_base (tss_descriptor tss d) = tss"
  proof (rule bit_word_eqI)
    fix n
    assume n: "n < LENGTH(64)"
    show "bit (descriptor_base (tss_descriptor tss d)) n \<longleftrightarrow> bit tss n"
    proof (cases "n < 24")
      case True
      then show ?thesis using n
        by (simp add: descriptor_base_def tss_descriptor_def bit_or_iff bit_unsigned_iff bit_take_bit_iff
            bit_drop_bit_eq bit_push_bit_iff bit_set_field)
    next
      case False
      then obtain k where "n = 24 + k" using le_Suc_ex not_less by blast
      then show ?thesis using n
        by (simp add: descriptor_base_def tss_descriptor_def bit_or_iff bit_unsigned_iff bit_take_bit_iff
            bit_drop_bit_eq bit_push_bit_iff bit_set_field)
    qed
  qed
  have "take_bit 16 (tss_descriptor tss d) = take_bit 16 (ucast (103 :: u64))"
    by (rule bit_word_eqI, unfold bit_take_bit_iff, rule conj_cong [OF refl])
       (simp add: tss_descriptor_def bit_unsigned_iff bit_set_field)
  then show "take_bit 16 (tss_descriptor tss d) = 103" by simp
  have "take_bit 8 (drop_bit 40 (tss_descriptor tss d)) = take_bit 8 0x89"
  proof (rule bit_word_eqI, unfold bit_take_bit_iff, rule conj_cong [OF refl])
    fix n :: nat
    assume "n < 8"
    then have "n = 0 \<or> n = 1 \<or> n = 2 \<or> n = 3 \<or> n = 4 \<or> n = 5 \<or> n = 6 \<or> n = 7" by linarith
    then show "bit (drop_bit 40 (tss_descriptor tss d)) n \<longleftrightarrow> bit (0x89 :: 128 word) n"
      by (elim disjE) (simp_all add: tss_descriptor_def bit_drop_bit_eq bit_set_field)
  qed
  then show "take_bit 8 (drop_bit 40 (tss_descriptor tss d)) = 0x89" by simp
qed

lemma word_cat_halves: "(word_cat (ucast (drop_bit 64 d) :: u64) (ucast d :: u64) :: 128 word) = d"
proof (rule bit_word_eqI)
  fix n
  assume "n < LENGTH(128)"
  then show "bit (word_cat (ucast (drop_bit 64 d) :: u64) (ucast d :: u64) :: 128 word) n \<longleftrightarrow> bit d n"
    by (auto simp add: bit_word_cat_iff bit_simps)
qed

section \<open>Properties\<close>


definition demo_devices :: devices where
  "demo_devices = user_paging.extend demo_user
     \<lparr>port_in = (\<lambda>p. if p = PIC1_DATA then 0xFD else 0xFF), port_out = [],
      ivt = replicate 256 (gate 0 0 0), ivt_ptr = (0, 0),
      isrs = \<lparr>isr0 = 0x201000, isr10 = 0x201010, isr14 = 0x201020, isr128 = 0x201030,
        irq0 = 0x201040, irq1 = 0x201050, ivt_addr = 0x220000\<rparr>,
      gdt = gdt_init, tss_addr = 0xFFFFFFFF80230008, tss_rsp0 = 0, interrupts = False,
      gdtr = (256, 0xFFFFFFFF80231000), reg_gdtr = (0, 0), reg_idtr = (0, 0), reg_tr = 0,
      seg_cs = 8, seg_ss = 0, seg_ds = 0, seg_es = 0, seg_fs = 0, seg_gs = 0\<rparr>"


text \<open>The descriptor that a selector names: its requested privilege level is in the low two bits.\<close>

definition descriptor_of :: "u64 \<Rightarrow> 'a devices_scheme \<Rightarrow> u64" where
  "descriptor_of sel s = gdt s ! unat (drop_bit 3 sel)"

text \<open>C20. \<open>init_gdt\<close> leaves in entries 6 and 7 a present system descriptor of an available
  TSS whose base is the address of the kernel's TSS and whose limit is its last byte, and no other
  entry of the table changes. The processor then uses this table, its task register names the TSS, and its
  code and stack segments are the kernel's 64-bit code segment and data segment.\<close>

theorem gdt_tss_descriptor:
  assumes "gdt s = gdt_init"
  shows "\<exists>s' d. init_gdt s = Some s' \<and> d = word_cat (gdt s' ! 7) (gdt s' ! 6) \<and>
    descriptor_base d = tss_addr s \<and> take_bit 16 d = 103 \<and> take_bit 8 (drop_bit 40 d) = 0x89 \<and>
    (\<forall>i. i \<noteq> 6 \<and> i \<noteq> 7 \<longrightarrow> gdt s' ! i = gdt s ! i) \<and>
    reg_gdtr s' = gdtr s \<and> descriptor_of (reg_tr s') s' = gdt s' ! 6 \<and>
    descriptor_of (seg_cs s') s' = GDT_CS OR GDT_P OR DPL0 OR GDT_L \<and>
    descriptor_of (seg_ss s') s' = GDT_DS OR GDT_P OR GDT_W OR DPL0"
proof -
  have "length (gdt s) = MAX_GDT" "gdt s ! 1 = GDT_CS OR GDT_P OR DPL0 OR GDT_L"
    "gdt s ! 2 = GDT_DS OR GDT_P OR GDT_W OR DPL0"
    using assms by (simp_all add: gdt_init_def)
  then show ?thesis
    by (simp add: init_gdt_def Let_def word_cat_halves tss_descriptor_fields x86_64_asm_lgdt_def
        x86_64_asm_ltr_def descriptor_of_def)
qed

theorem gdt_tss_descriptor_witness:
  "\<exists>s' d. init_gdt demo_devices = Some s' \<and> d = word_cat (gdt s' ! 7) (gdt s' ! 6) \<and>
    descriptor_base d = 0xFFFFFFFF80230008 \<and> take_bit 16 d = 103 \<and> gdt s' ! 5 = 0x20F80000000000 \<and>
    reg_gdtr s' = (256, 0xFFFFFFFF80231000)"
proof -
  have "gdt demo_devices = gdt_init" by (simp add: demo_devices_def user_paging.defs)
  from gdt_tss_descriptor [OF this] show ?thesis
    by (auto simp add: demo_devices_def user_paging.defs gdt_init_def)
qed

text \<open>Masking or unmasking one of the 16 interrupt lines writes one byte, to the data port
  of the controller that serves the line, and that byte differs from the current mask in the
  line's bit only.\<close>

lemma irq_line_masks:
  assumes "IRQline < 16"
  shows "\<exists>port v w. port = (if IRQline < 8 then PIC1_DATA else PIC2_DATA) \<and>
    IRQ_set_mask IRQline s = outb port v s \<and> IRQ_clear_mask IRQline s = outb port w s \<and>
    (\<forall>k < 8. bit v k \<longleftrightarrow> bit (inb port s) k \<or> k = unat IRQline mod 8) \<and>
    (\<forall>k < 8. bit w k \<longleftrightarrow> bit (inb port s) k \<and> k \<noteq> unat IRQline mod 8)"
proof -
  obtain port line where pl: "irq_port IRQline = (port, line)" by force
  have u: "unat line = unat IRQline mod 8" "port = (if IRQline < 8 then PIC1_DATA else PIC2_DATA)"
    using assms pl by (auto simp add: irq_port_def word_less_nat_alt unat_sub_if' le_mod_geq split: if_splits)
  show ?thesis
    by (rule exI [of _ port], rule exI [of _ "inb port s OR ucast (push_bit (unat line) (1 :: u32))"],
        rule exI [of _ "inb port s AND ucast (NOT (push_bit (unat line) (1 :: u32)))"])
      (auto simp add: IRQ_set_mask_def IRQ_clear_mask_def pl u bit_simps)
qed

end
