(* ===== verification/Keyboard.thy ===== *)
theory Keyboard
  imports Devices
begin

text \<open>
  The keyboard driver (\<open>sys/keyboard.c\<close>): the scan code tables, the interrupt handler and the
  blocking line input \<open>gets\<close>.

  \<open>counter\<close> and \<open>flag\<close> are tentative definitions in both \<open>sys/paging.c\<close> and
  \<open>sys/keyboard.c\<close>, so the linker merges them: the driver's 16 bit \<open>counter\<close> is the low half
  of the page allocator's, and \<open>flag\<close> is the same variable. While \<open>gets\<close> waits, the only thing
  that happens is the delivery of keyboard interrupts; they are an explicit sequence of scan
  codes, and a sequence without an Enter key leaves \<open>gets\<close> waiting.
\<close>

section \<open>Tables and state\<close>

definition kbdus :: "u8 list" where
  "kbdus = [0, 27] @ bytes ''1234567890-='' @ [8, 9] @ bytes ''qwertyuiop[]'' @ [10, 0] @
     bytes ''asdfghjkl;'' @ [39, 96, 0, 92] @ bytes ''zxcvbnm,./'' @ [0] @ bytes ''*'' @ [0, 32] @
     replicate 16 0 @ bytes ''-'' @ replicate 3 0 @ bytes ''+'' @ replicate 49 0"

definition kbdshift :: "u8 list" where
  "kbdshift = [0, 27] @ bytes ''!@#$%^&*()_+'' @ [8, 9] @ bytes ''QWERTYUIOP{}'' @ [10, 0] @
     bytes ''ASDFGHJKL:'' @ [34, 126, 0, 124] @ bytes ''ZXCVBNM<>?'' @ [0] @ bytes ''*'' @ [0, 32] @
     replicate 16 0 @ bytes ''-'' @ replicate 3 0 @ bytes ''+'' @ replicate 49 0"

definition kbdcaps :: "u8 list" where
  "kbdcaps = [0, 27] @ bytes ''1234567890-='' @ [8, 9] @ bytes ''QWERTYUIOP[]'' @ [10, 0] @
     bytes ''ASDFGHJKL;'' @ [39, 96, 0, 92] @ bytes ''ZXCVBNM,./'' @ [0] @ bytes ''*'' @ [0, 32] @
     replicate 16 0 @ bytes ''-'' @ replicate 3 0 @ bytes ''+'' @ replicate 49 0"

datatype last_key_pressed = NO | CTRL | SHIFT | ALT | CAPS

record keyboard = devices +
  kbd_buf :: u64
  gets_at :: u64
  lkp :: last_key_pressed
  check_nl :: bool

text \<open>The driver's view of the merged counter.\<close>

definition kcounter :: "'a paging_scheme \<Rightarrow> u16" where
  "kcounter s = ucast (counter s)"

definition set_kcounter :: "u16 \<Rightarrow> 'a paging_scheme \<Rightarrow> 'a paging_scheme" where
  "set_kcounter c s = s\<lparr>counter := (counter s AND 0xFFFF0000) OR ucast c\<rparr>"

section \<open>Operations\<close>

definition init_kbd :: "'a keyboard_scheme \<Rightarrow> 'a keyboard_scheme" where
  "init_kbd s = (set_kcounter 0 (s\<lparr>lkp := NO, gets_at := 0\<rparr>))\<lparr>flag := True\<rparr>"

definition key_value :: "last_key_pressed \<Rightarrow> u8 \<Rightarrow> u8" where
  "key_value k scancode =
     (case k of
        NO \<Rightarrow> kbdus ! unat scancode
      | CTRL \<Rightarrow> kbdus ! unat scancode
      | SHIFT \<Rightarrow> kbdshift ! unat scancode
      | ALT \<Rightarrow> kbdus ! unat scancode
      | CAPS \<Rightarrow> kbdcaps ! unat scancode)"

text \<open>\<open>kbd_buf[counter - 1]\<close>; the index is computed at the width of \<open>int\<close>, so that a counter of
  0 addresses the byte before the buffer.\<close>

definition kbd_cell :: "'a keyboard_scheme \<Rightarrow> u64" where
  "kbd_cell s = kbd_buf s + ucast (kcounter s) - 1"

definition accept_key :: "u8 \<Rightarrow> 'a keyboard_scheme \<Rightarrow> 'a keyboard_scheme" where
  "accept_key val s =
     (if val = char_newline then
        s\<lparr>store := (store s)(kbd_cell s := 0), check_nl := True\<rparr>
      else if val = char_backspace then
        (let s1 = putch val s in set_kcounter (kcounter s1 - 1) s1)
      else
        (let s1 = putch val (s\<lparr>store := (store s)(kbd_cell s := val)\<rparr>)
         in set_kcounter (kcounter s1 + 1) s1))"

definition keyboard_handler :: "'a keyboard_scheme \<Rightarrow> 'a keyboard_scheme" where
  "keyboard_handler s =
     (let scancode = inb 0x60 s;
          s1 = PIC_sendEOI 0 s
      in if scancode AND 0x80 \<noteq> 0 then
           (let scancode = scancode - 0x80
            in if scancode = 157 \<or> scancode = 170 \<or> scancode = 184 then s1\<lparr>lkp := NO\<rparr> else s1)
         else if scancode = 29 then s1\<lparr>lkp := CTRL\<rparr>
         else if scancode = 42 \<or> scancode = 54 then s1\<lparr>lkp := SHIFT\<rparr>
         else if scancode = 56 then s1\<lparr>lkp := ALT\<rparr>
         else if scancode = 58 then s1\<lparr>lkp := CAPS\<rparr>
         else accept_key (key_value (lkp s1) scancode) (s1\<lparr>lkp := NO\<rparr>))"

text \<open>An interrupt with a scan code waiting at the data port.\<close>

definition key_interrupt :: "u8 \<Rightarrow> 'a keyboard_scheme \<Rightarrow> 'a keyboard_scheme" where
  "key_interrupt scancode s = keyboard_handler (s\<lparr>port_in := (port_in s)(0x60 := scancode)\<rparr>)"

fun gets_wait ::
  "u8 list \<Rightarrow> u64 \<Rightarrow> 'a keyboard_scheme \<Rightarrow> ('a keyboard_scheme \<times> u8 list) option" where
  "gets_wait codes tmp_buf s =
     (if check_nl s then do {
        m \<leftarrow> kstrcpy (store s) tmp_buf (kbd_buf s);
        Some (s\<lparr>store := m, check_nl := False\<rparr>, codes)
      }
      else case codes of
        [] \<Rightarrow> None
      | c # cs \<Rightarrow> gets_wait cs tmp_buf (key_interrupt c s))"

fun clear_kbd :: "nat \<Rightarrow> u64 \<Rightarrow> memory \<Rightarrow> memory" where
  "clear_kbd 0 buf m = m"
| "clear_kbd (Suc n) buf m = clear_kbd n buf (m(buf + of_nat n := 0))"

definition gets ::
  "u8 list \<Rightarrow> u64 \<Rightarrow> 'a keyboard_scheme \<Rightarrow> (u64 \<times> 'a keyboard_scheme \<times> u8 list) option" where
  "gets codes str s =
     (let (buf, s1) = kmalloc PAGE_SIZE s;
          s2 = s1\<lparr>kbd_buf := buf\<rparr>;
          s3 = (if flag s2 then (set_kcounter 1 s2)\<lparr>flag := False\<rparr> else s2);
          s4 = s3\<lparr>interrupts := True\<rparr>
      in do {
        (s5, rest) \<leftarrow> gets_wait codes str s4;
        let s6 = s5\<lparr>store := clear_kbd (unat (kcounter s5)) (kbd_buf s5) (store s5)\<rparr>;
        Some (str, (set_kcounter 1 s6)\<lparr>flag := True\<rparr>, rest)
      })"

declare gets_wait.simps [simp del]

section \<open>The line editor\<close>

text \<open>
  What typing a line means: the line typed so far, the modifier that is pending, and the scan
  codes still to come. The result is the line that the Enter key ends, with the codes behind it.
  A backspace on the empty line, a key without a character and a tab are outside of the
  specification.
\<close>

definition modifier :: "u8 \<Rightarrow> last_key_pressed option" where
  "modifier c =
     (if c = 29 then Some CTRL else if c = 42 \<or> c = 54 then Some SHIFT
      else if c = 56 then Some ALT else if c = 58 then Some CAPS else None)"

fun line_of :: "u8 list \<Rightarrow> last_key_pressed \<Rightarrow> u8 list \<Rightarrow> (u8 list \<times> u8 list) option" where
  "line_of ln k [] = None"
| "line_of ln k (c # cs) =
     (if c AND 0x80 \<noteq> 0 then line_of ln k cs
      else case modifier c of
        Some k' \<Rightarrow> line_of ln k' cs
      | None \<Rightarrow>
          (let v = key_value k c
           in if v = char_newline then Some (ln, cs)
              else if v = char_backspace then (if ln = [] then None else line_of (butlast ln) NO cs)
              else if v = 0 \<or> v = char_tab then None
              else line_of (ln @ [v]) NO cs))"

lemma kcounter_set [simp]: "kcounter (set_kcounter c s) = c"
proof -
  have "(ucast ((w AND 0xFFFF0000) OR ucast c :: u32) :: u16) = c" for w :: u32
  proof (rule bit_word_eqI)
    fix n
    assume n: "n < LENGTH(16)"
    have "(0xFFFF0000 :: u32) = push_bit 16 (mask 16)" by (simp add: mask_eq_exp_minus_1)
    then have "\<not> bit (0xFFFF0000 :: u32) n" using n by (simp only: bit_push_bit_iff) simp
    then show "bit (ucast ((w AND 0xFFFF0000) OR ucast c :: u32) :: u16) n \<longleftrightarrow> bit c n"
      using n by (simp only: bit_ucast_iff bit_or_iff bit_and_iff) simp
  qed
  then show ?thesis by (simp add: kcounter_def set_kcounter_def)
qed

lemma kcounter_update [simp]:
  "kcounter (s\<lparr>flag := b\<rparr>) = kcounter s" "kcounter (t\<lparr>interrupts := b\<rparr>) = kcounter t"
  "kcounter (s\<lparr>con_x := i\<rparr>) = kcounter s" "kcounter (s\<lparr>store := m\<rparr>) = kcounter s"
  by (simp_all add: kcounter_def)

lemma set_kcounter_fields [simp]:
  "store (set_kcounter c s) = store s" "con_x (set_kcounter c s) = con_x s"
  "con_y (set_kcounter c s) = con_y s" "flag (set_kcounter c s) = flag s"
  "kbd_buf (set_kcounter c t) = kbd_buf t" "lkp (set_kcounter c t) = lkp t"
  "check_nl (set_kcounter c t) = check_nl t"
  by (simp_all add: set_kcounter_def)

lemma putch_plain:
  assumes "0 \<le> con_x s" "con_x s < 80" "con_y s < 24"
    and "c \<noteq> char_backspace" "c \<noteq> char_newline" "c \<noteq> char_tab"
  shows "putch c s = (placechar c (con_x s) (con_y s) 0x07 s)\<lparr>con_x := con_x s + 1\<rparr>"
  using assms by (simp add: putch_def wrap_cursor_def newline_step_def tab_step_def emit_char_def)

lemma putch_backspace:
  assumes "0 < con_x s" "con_x s < 80" "con_y s < 24"
  shows "putch char_backspace s =
    (placechar char_space (con_x s) (con_y s) 0x07 s)\<lparr>con_x := con_x s - 1\<rparr>"
  using assms by (simp add: putch_def wrap_cursor_def newline_step_def tab_step_def emit_char_def)

text \<open>The state while a line is typed: the buffer holds the line, the counter is one ahead, and
  the cursor stands behind the echo, which has begun at \<open>(x, y)\<close>.\<close>

definition typing :: "u64 \<Rightarrow> int \<Rightarrow> int \<Rightarrow> last_key_pressed \<Rightarrow> u8 list \<Rightarrow> 'a keyboard_scheme \<Rightarrow> bool" where
  "typing B x y k ln s \<longleftrightarrow> kbd_buf s = B \<and> \<not> check_nl s \<and> lkp s = k \<and>
     kcounter s = of_nat (Suc (length ln)) \<and> get_bytes (store s) B (length ln) = ln \<and>
     0 \<notin> set ln \<and> con_x s = x + int (length ln) \<and> con_y s = y"

definition has_room :: "u64 \<Rightarrow> int \<Rightarrow> int \<Rightarrow> nat \<Rightarrow> bool" where
  "has_room B x y n \<longleftrightarrow> 0 \<le> x \<and> x + int n < 80 \<and> 0 \<le> y \<and> y < 24 \<and>
     disjoint_regions VIDEO_ADDR 4000 B 4096"

lemma has_room_mono: "has_room B x y m \<Longrightarrow> n \<le> m \<Longrightarrow> has_room B x y n"
  by (simp add: has_room_def)

lemma ucast_counter: "n < 2 ^ 16 \<Longrightarrow> (ucast (of_nat n :: u16) :: u64) = of_nat n"
  by (simp add: unsigned_of_nat take_bit_nat_eq_self)

lemma kbd_cell_typing:
  "typing B x y k ln s \<Longrightarrow> length ln < 80 \<Longrightarrow> kbd_cell s = B + of_nat (length ln)"
  using ucast_counter [of "Suc (length ln)"] by (simp add: typing_def kbd_cell_def)

lemma buffer_placechar:
  assumes "has_room B x y n" and "0 \<le> x'" "x' < 80" and "i < 4096"
  shows "store (placechar c x' y attr s) (B + of_nat i) = store s (B + of_nat i)"
proof -
  have "4000 \<le> unat (B + of_nat i - VIDEO_ADDR)"
    using assms by (intro disjoint_offset) (auto simp add: has_room_def)
  then show ?thesis using assms by (intro placechar_outside) (simp_all add: in_video_def has_room_def)
qed

lemma get_bytes_placechar:
  assumes "has_room B x y n" and "0 \<le> x'" "x' < 80" and "j \<le> 4096"
  shows "get_bytes (store (placechar c x' y attr s)) B j = get_bytes (store s) B j"
  using assms by (auto intro!: nth_equalityI simp add: buffer_placechar)

lemma get_bytes_upd:
  assumes "get_bytes m B (length ln) = ln" and "length ln < 2 ^ 64"
  shows "get_bytes (m(B + of_nat (length ln) := v)) B (Suc (length ln)) = ln @ [v]"
proof (rule nth_equalityI)
  show "length (get_bytes (m(B + of_nat (length ln) := v)) B (Suc (length ln))) = length (ln @ [v])"
    by simp
  fix i
  assume "i < length (get_bytes (m(B + of_nat (length ln) := v)) B (Suc (length ln)))"
  then have i: "i \<le> length ln" by simp
  have "B + of_nat i = B + of_nat (length ln) \<longleftrightarrow> i = length ln"
    unfolding add_left_cancel using assms(2) i by (intro of_nat64_eq) simp_all
  moreover have "m (B + of_nat i) = ln ! i" if "i < length ln"
    using that assms(1) nth_get_bytes [of i "length ln" m B] by simp
  ultimately show "get_bytes (m(B + of_nat (length ln) := v)) B (Suc (length ln)) ! i = (ln @ [v]) ! i"
    using i by (simp add: nth_append)
qed

lemma typing_char:
  assumes ty: "typing B x y NO ln s" and room: "has_room B x y (Suc (length ln))"
    and v: "v \<noteq> char_newline" "v \<noteq> char_backspace" "v \<noteq> char_tab" "v \<noteq> 0"
  shows "typing B x y NO (ln @ [v]) (accept_key v s)"
proof -
  let ?s = "s\<lparr>store := (store s)(B + of_nat (length ln) := v)\<rparr>"
  have len: "length ln < 80" using room by (simp add: has_room_def)
  have cell: "kbd_cell s = B + of_nat (length ln)" using ty len by (rule kbd_cell_typing)
  have xy: "con_x s = x + int (length ln)" "con_y s = y" using ty by (simp_all add: typing_def)
  have put: "putch v ?s = (placechar v (con_x s) y 0x07 ?s)\<lparr>con_x := con_x s + 1\<rparr>"
    using room v xy by (subst putch_plain) (simp_all add: has_room_def)
  have "get_bytes (store (placechar v (con_x s) y 0x07 ?s)) B (Suc (length ln)) = ln @ [v]"
    using room xy ty len get_bytes_upd [of "store s" B ln v]
    by (subst get_bytes_placechar [OF room]) (simp_all add: has_room_def typing_def)
  moreover have "kcounter (putch v ?s) = kcounter s"
    unfolding put by (simp add: kcounter_def placechar_def)
  ultimately show ?thesis
    using ty v put cell xy by (simp add: accept_key_def typing_def Let_def placechar_def)
qed

lemma typing_backspace:
  assumes ty: "typing B x y NO ln s" and room: "has_room B x y (length ln)" and ne: "ln \<noteq> []"
  shows "typing B x y NO (butlast ln) (accept_key char_backspace s)"
proof -
  obtain pre v where ln: "ln = pre @ [v]" using ne by (cases ln rule: rev_cases) auto
  have len: "length pre < 79" using room by (simp add: ln has_room_def)
  have xy: "con_x s = x + int (length pre) + 1" "con_y s = y" using ty by (simp_all add: typing_def ln)
  have put: "putch char_backspace s = (placechar char_space (con_x s) y 0x07 s)\<lparr>con_x := con_x s - 1\<rparr>"
    using room xy by (subst putch_backspace) (simp_all add: has_room_def ln)
  have "get_bytes (store (placechar char_space (con_x s) y 0x07 s)) B (length pre) =
      get_bytes (store s) B (length pre)"
    using room xy by (intro get_bytes_placechar [OF room]) (auto simp add: has_room_def ln)
  also have "\<dots> = pre"
  proof (rule nth_equalityI)
    show "length (get_bytes (store s) B (length pre)) = length pre" by simp
    fix i
    assume "i < length (get_bytes (store s) B (length pre))"
    then have i: "i < length pre" by simp
    have "get_bytes (store s) B (length ln) ! i = ln ! i" using ty by (simp only: typing_def)
    then show "get_bytes (store s) B (length pre) ! i = pre ! i" using i by (simp add: ln nth_append)
  qed
  finally have "get_bytes (store (placechar char_space (con_x s) y 0x07 s)) B (length pre) = pre" .
  moreover have "kcounter (putch char_backspace s) = kcounter s"
    unfolding put by (simp add: kcounter_def placechar_def)
  ultimately show ?thesis
    using ty put xy by (simp add: accept_key_def typing_def Let_def placechar_def ln)
qed

lemma PIC_sendEOI_typing [simp]: "typing B x y k ln (PIC_sendEOI irq s) \<longleftrightarrow> typing B x y k ln s"
  by (simp add: typing_def PIC_sendEOI_def outb_def Let_def kcounter_def)

lemma key_interrupt_plain:
  assumes "c AND 0x80 = 0" and "modifier c = None"
  shows "key_interrupt c s = accept_key (key_value (lkp s) c)
    ((PIC_sendEOI 0 (s\<lparr>port_in := (port_in s)(0x60 := c)\<rparr>))\<lparr>lkp := NO\<rparr>)"
proof -
  have "inb 0x60 (s\<lparr>port_in := (port_in s)(0x60 := c)\<rparr>) = c" by (simp add: inb_def)
  moreover have "lkp (PIC_sendEOI 0 (s\<lparr>port_in := (port_in s)(0x60 := c)\<rparr>)) = lkp s"
    by (simp add: PIC_sendEOI_def outb_def)
  ultimately show ?thesis
    using assms by (simp add: key_interrupt_def keyboard_handler_def Let_def modifier_def split: if_splits)
qed

text \<open>One scan code, as the handler treats it.\<close>

lemma key_interrupt_cases:
  assumes ty: "typing B x y k ln s"
  shows "c AND 0x80 \<noteq> 0 \<Longrightarrow> typing B x y k ln (key_interrupt c s)"
    and "c AND 0x80 = 0 \<Longrightarrow> modifier c = Some k' \<Longrightarrow> typing B x y k' ln (key_interrupt c s)"
    and "c AND 0x80 = 0 \<Longrightarrow> modifier c = None \<Longrightarrow>
      \<exists>s'. key_interrupt c s = accept_key (key_value k c) s' \<and> typing B x y NO ln s'"
proof -
  let ?s = "PIC_sendEOI 0 (s\<lparr>port_in := (port_in s)(0x60 := c)\<rparr>)"
  have ty': "typing B x y k ln ?s" using ty by (simp only: PIC_sendEOI_typing) (simp add: typing_def kcounter_def)
  have upd: "typing B x y k' ln (?s\<lparr>lkp := k'\<rparr>)" for k' using ty' by (simp add: typing_def kcounter_def)
  have c: "inb 0x60 (s\<lparr>port_in := (port_in s)(0x60 := c)\<rparr>) = c" by (simp add: inb_def)
  show "typing B x y k ln (key_interrupt c s)" if "c AND 0x80 \<noteq> 0"
  proof -
    have "c - 0x80 \<noteq> 157 \<and> c - 0x80 \<noteq> 170 \<and> c - 0x80 \<noteq> 184"
      using that by (auto simp add: diff_eq_eq)
    then show ?thesis
      using that ty' by (simp add: key_interrupt_def keyboard_handler_def c Let_def)
  qed
  show "typing B x y k' ln (key_interrupt c s)" if "c AND 0x80 = 0" "modifier c = Some k'"
    using that upd by (auto simp add: key_interrupt_def keyboard_handler_def c Let_def modifier_def split: if_splits)
  show "\<exists>s'. key_interrupt c s = accept_key (key_value k c) s' \<and> typing B x y NO ln s'"
    if "c AND 0x80 = 0" "modifier c = None"
    using key_interrupt_plain [OF that, of s] upd [of NO] ty by (auto simp add: typing_def)
qed

lemma gets_wait_enter:
  assumes ty: "typing B x y NO ln s" and len: "length ln < 80" and str: "disjoint_regions B 4096 str 4096"
  shows "\<exists>s'. gets_wait cs str (accept_key char_newline s) = Some (s', cs) \<and> cstr (store s') str ln \<and>
    kcounter s' = of_nat (Suc (length ln)) \<and> kbd_buf s' = B \<and> \<not> check_nl s'"
proof -
  let ?m = "(store s)(B + of_nat (length ln) := 0)"
  have cell: "kbd_cell s = B + of_nat (length ln)" using ty len by (rule kbd_cell_typing)
  have "get_bytes ?m B (Suc (length ln)) = ln @ [0]"
    using ty len by (intro get_bytes_upd) (simp_all add: typing_def)
  then have "cstr ?m B ln" using ty by (simp add: cstr_iff typing_def)
  then have "kstrcpy ?m str B = Some (put_bytes ?m str (ln @ [0]))"
    using str len by (intro kstrcpy_cstr) (simp_all add: disjoint_regions_def)
  moreover have "cstr (put_bytes ?m str (ln @ [0])) str ln"
    using ty len by (intro cstr_put_bytes) (simp_all add: typing_def)
  ultimately show ?thesis
    using ty by (simp add: accept_key_def cell gets_wait.simps [of cs] typing_def kcounter_def)
qed

lemma gets_wait_line:
  assumes "line_of ln k codes = Some (line, rest)" and "typing B x y k ln s"
    and "has_room B x y (length ln + length codes)" and "disjoint_regions B 4096 str 4096"
  shows "\<exists>s'. gets_wait codes str s = Some (s', rest) \<and> cstr (store s') str line \<and>
    kcounter s' = of_nat (Suc (length line)) \<and> length line < 80 \<and> kbd_buf s' = B \<and> \<not> check_nl s'"
  using assms
proof (induction ln k codes arbitrary: s rule: line_of.induct)
  case (1 ln k)
  then show ?case by simp
next
  case (2 ln k c cs)
  have step: "gets_wait (c # cs) str s = gets_wait cs str (key_interrupt c s)"
    using 2(6) by (subst gets_wait.simps) (simp add: typing_def)
  have room: "has_room B x y (length ln + length cs)" "has_room B x y (Suc (length ln))"
    "has_room B x y (length ln)" "length ln < 80"
    using 2(7) by (auto simp add: has_room_def)
  note key = key_interrupt_cases [OF 2(6), of c]
  show ?case
  proof (cases "c AND 0x80 = 0")
    case False
    then show ?thesis using 2(1) [OF False] 2(5,8) key(1) room step by simp
  next
    case pressed: True
    show ?thesis
    proof (cases "modifier c")
      case (Some k')
      then show ?thesis using 2(4) [of k'] 2(5,8) key(2) room step pressed by simp
    next
      case None
      then obtain s' where s': "key_interrupt c s = accept_key (key_value k c) s'" "typing B x y NO ln s'"
        using key(3) pressed by auto
      let ?v = "key_value k c"
      consider "?v = char_newline" | "?v = char_backspace" "ln \<noteq> []"
        | "?v \<noteq> char_newline" "?v \<noteq> char_backspace" "?v \<noteq> 0" "?v \<noteq> char_tab"
        using 2(5) pressed None by (auto simp add: Let_def split: if_splits)
      then show ?thesis
      proof cases
        case 1
        then show ?thesis
          using gets_wait_enter [OF s'(2) room(4) 2(8), of cs] 2(5) pressed None s'(1) step room(4) by simp
      next
        case bsp: 2
        have "has_room B x y (length (butlast ln) + length cs)" using room(1) by (rule has_room_mono) simp
        then show ?thesis
          using 2(2) [OF _ None refl, of "accept_key ?v s'"] typing_backspace [OF s'(2) room(3) bsp(2)]
            bsp 2(5,8) pressed None s'(1) step by simp
      next
        case letter: 3
        have "has_room B x y (length (ln @ [?v]) + length cs)" using 2(7) by (simp add: has_room_def)
        then show ?thesis
          using 2(3) [OF _ None refl, of "accept_key ?v s'"] typing_char [OF s'(2) room(2)]
            letter 2(5,8) pressed None s'(1) step by simp
      qed
    qed
  qed
qed

lemma clear_kbd_outside: "n \<le> unat (a - B) \<Longrightarrow> clear_kbd n B m a = m a"
proof (induction n arbitrary: m)
  case 0
  then show ?case by simp
next
  case (Suc n)
  have "a \<noteq> B + of_nat n"
  proof
    assume "a = B + of_nat n"
    then have "unat (a - B) = n" using Suc.prems unat_bound64 [of "a - B"] unat_of_nat64 [of n] by simp
    then show False using Suc.prems by simp
  qed
  then show ?case using Suc by simp
qed

section \<open>Properties\<close>

text \<open>C4. \<open>gets\<close> returns as soon as the Enter key arrives, and the caller's buffer then holds the
  line that was typed, with shifts, capitals and backspaces applied; the driver is ready for the
  next line, and later key strokes are left over. This holds for a line that fits the rest of the
  screen row.\<close>

theorem gets_reads_line:
  assumes line: "line_of [] (lkp s) codes = Some (line, rest)"
    and idle: "\<not> check_nl s" "flag s"
    and B: "B = fst (kmalloc PAGE_SIZE s)"
    and room: "has_room B (con_x s) (con_y s) (length codes)"
    and str: "disjoint_regions B 4096 str 4096"
  shows "\<exists>s'. gets codes str s = Some (str, s', rest) \<and> cstr (store s') str line \<and>
    kcounter s' = 1 \<and> flag s' \<and> \<not> check_nl s' \<and> kbd_buf s' = B"
proof -
  obtain s1 where k: "kmalloc PAGE_SIZE s = (B, s1)" using B by (metis prod.collapse)
  have "s1 = snd (page_alloc s)"
    using k kmalloc_pages [of PAGE_SIZE s] by (simp add: pages_for_def)
  then have s1: "lkp s1 = lkp s" "check_nl s1 = check_nl s" "flag s1 = flag s" "con_x s1 = con_x s" "con_y s1 = con_y s"
    by (simp_all add: page_alloc_def clear_freelist_slot_def Let_def)
  let ?s = "(set_kcounter 1 (s1\<lparr>kbd_buf := B\<rparr>))\<lparr>flag := False, interrupts := True\<rparr>"
  have "typing B (con_x s) (con_y s) (lkp s) [] ?s"
    using s1 idle(1) by (simp add: typing_def get_bytes_def)
  with gets_wait_line [OF line this _ str] room
  obtain s' where s': "gets_wait codes str ?s = Some (s', rest)" "cstr (store s') str line"
    "kcounter s' = of_nat (Suc (length line))" "length line < 80" "kbd_buf s' = B" "\<not> check_nl s'"
    by auto
  let ?n = "unat (kcounter s')"
  have n: "?n = Suc (length line)" unfolding s'(3) unat_of_nat using s'(4) by simp
  have "cstr (clear_kbd ?n B (store s')) str line \<longleftrightarrow> cstr (store s') str line"
  proof (rule cstr_cong)
    fix i
    assume "i \<le> length line"
    then have "4096 \<le> unat (str + of_nat i - B)" using str s'(4) by (intro disjoint_offset) auto
    then show "clear_kbd ?n B (store s') (str + of_nat i) = store s' (str + of_nat i)"
      using n s'(4) by (intro clear_kbd_outside) simp
  qed
  then show ?thesis
    using s' s1 idle(2) k by (simp add: gets_def Let_def)
qed

definition demo_keyboard :: keyboard where
  "demo_keyboard = devices.extend demo_devices \<lparr>kbd_buf = 0, gets_at = 0, lkp = NO, check_nl = False\<rparr>"

lemma demo_keyboard_simps [simp]:
  "lkp demo_keyboard = NO" "\<not> check_nl demo_keyboard" "flag demo_keyboard"
  "con_x demo_keyboard = 0" "con_y demo_keyboard = 0"
  "fst (kmalloc PAGE_SIZE demo_keyboard) = 0xFFFFFFFF80300000"
proof -
  show "fst (kmalloc PAGE_SIZE demo_keyboard) = 0xFFFFFFFF80300000"
    by (subst kmalloc_pages) (simp_all add: next_frame_def demo_keyboard_def demo_devices_def demo_user_def
        devices.defs user_paging.defs)
qed (simp_all add: demo_keyboard_def demo_devices_def demo_user_def devices.defs user_paging.defs)

text \<open>Shift and H, the release of Shift, I, X, Backspace, Enter and one more key.\<close>

theorem gets_reads_line_witness:
  "\<exists>s'. gets [0x2A, 0x23, 0xAA, 0x17, 0x2D, 0x0E, 0x1C, 0x1E] 0x8eee71000 demo_keyboard =
      Some (0x8eee71000, s', [0x1E]) \<and>
    cstr (store s') 0x8eee71000 (bytes ''Hi'') \<and> kcounter s' = 1 \<and> flag s' \<and> \<not> check_nl s' \<and>
    kbd_buf s' = 0xFFFFFFFF80300000"
proof (rule gets_reads_line)
  show "line_of [] (lkp demo_keyboard) [0x2A, 0x23, 0xAA, 0x17, 0x2D, 0x0E, 0x1C, 0x1E] =
      Some (bytes ''Hi'', [0x1E])"
    by (simp add: modifier_def key_value_def kbdus_def kbdshift_def)
  show "has_room 0xFFFFFFFF80300000 (con_x demo_keyboard) (con_y demo_keyboard)
      (length [0x2A, 0x23, 0xAA, 0x17, 0x2D, 0x0E, 0x1C, 0x1E :: u8])"
    by (simp add: has_room_def disjoint_regions_def)
qed (simp_all add: disjoint_regions_def)

text \<open>A backspace on the empty line is not ignored: the counter drops to 0, and the next
  character is stored in the byte before the buffer.\<close>

lemma backspace_before_buffer:
  assumes "typing B x y k [] s" and "0 < x" "x < 80" "0 \<le> y" "y < 24"
    and "c AND 0x80 = 0" "modifier c = None" "key_value NO c = v"
    and "v \<noteq> char_newline" "v \<noteq> char_backspace" "v \<noteq> char_tab" and "\<not> in_video (B - 1)"
  shows "kbd_cell (key_interrupt 14 s) = B - 1 \<and> store (key_interrupt c (key_interrupt 14 s)) (B - 1) = v"
proof -
  have "key_value k 14 = char_backspace"
    by (cases k) (simp_all add: key_value_def kbdus_def kbdshift_def kbdcaps_def)
  then obtain s' where s': "key_interrupt 14 s = accept_key char_backspace s'" "typing B x y NO [] s'"
    using key_interrupt_cases(3) [OF assms(1), of 14] by (auto simp add: modifier_def)
  have put: "putch char_backspace s' = (placechar char_space x y 0x07 s')\<lparr>con_x := x - 1\<rparr>"
    using s'(2) assms(2-5) by (subst putch_backspace) (simp_all add: typing_def)
  let ?t = "key_interrupt 14 s"
  have t: "con_x ?t = x - 1" "con_y ?t = y" "lkp ?t = NO" "kbd_buf ?t = B" "kcounter ?t = 0"
    using s'(2) unfolding s'(1) accept_key_def put
    by (simp_all add: Let_def typing_def placechar_def)
  let ?u = "(PIC_sendEOI 0 (?t\<lparr>port_in := (port_in ?t)(0x60 := c)\<rparr>))\<lparr>lkp := NO\<rparr>"
  have u: "con_x ?u = x - 1" "con_y ?u = y" "kbd_cell ?u = B - 1"
    using t by (simp_all add: PIC_sendEOI_def outb_def kbd_cell_def kcounter_def)
  have "store (putch v (?u\<lparr>store := (store ?u)(B - 1 := v)\<rparr>)) (B - 1) = v"
    using assms u by (subst putch_plain) (simp_all add: placechar_outside)
  moreover have "key_interrupt c ?t = accept_key v ?u"
    using key_interrupt_plain [OF assms(6,7), of ?t] t(3) assms(8) by simp
  ultimately show ?thesis
    using t u(3) assms(9,10) by (simp add: accept_key_def Let_def kbd_cell_def)
qed

end
