(* ===== verification/Tarfs.thy ===== *)
theory Tarfs
  imports Keyboard
begin

text \<open>
  The read-only file system on the tar archive that is linked into the kernel
  (\<open>sys/walk_tarfs.c\<close>, \<open>sys/tarfs_ops.c\<close>). The archive, the tables \<open>tarfs_fs\<close>, \<open>dent\<close> and
  \<open>ino\<close> and the open-file structures live in the byte store; a structure is accessed at the
  offsets that the C compiler gives its fields. The addresses of the tables, of string literals
  and of local arrays are fields of the state.

  A structure that the code copies into a local variable before it looks at its fields is read
  in place: nothing is written between the copy and the reads.
\<close>

section \<open>Layouts\<close>

abbreviation DIRECTORY :: u32 where
  "DIRECTORY \<equiv> 5"

abbreviation FILE_TYPE :: u32 where
  "FILE_TYPE \<equiv> 0"

text \<open>\<open>struct posix_header_ustar\<close>: the name is at offset 0.\<close>

abbreviation ustar_size :: "u64 \<Rightarrow> u64" where
  "ustar_size h \<equiv> h + 124"

abbreviation ustar_typeflag :: "u64 \<Rightarrow> u64" where
  "ustar_typeflag h \<equiv> h + 156"

text \<open>\<open>tarfs_entry\<close>: the name is at offset 0.\<close>

abbreviation sizeof_tarfs_entry :: u64 where
  "sizeof_tarfs_entry \<equiv> 280"

abbreviation te_size :: "u64 \<Rightarrow> u64" where
  "te_size e \<equiv> e + 256"

abbreviation te_typeflag :: "u64 \<Rightarrow> u64" where
  "te_typeflag e \<equiv> e + 260"

abbreviation te_addr_hdr :: "u64 \<Rightarrow> u64" where
  "te_addr_hdr e \<equiv> e + 264"

abbreviation te_index :: "u64 \<Rightarrow> u64" where
  "te_index e \<equiv> e + 272"

text \<open>\<open>inode\<close> and \<open>dentry\<close>.\<close>

abbreviation sizeof_inode :: u64 where
  "sizeof_inode \<equiv> 96"

abbreviation i_size :: "u64 \<Rightarrow> u64" where
  "i_size p \<equiv> p + 8"

abbreviation ref_count :: "u64 \<Rightarrow> u64" where
  "ref_count p \<equiv> p + 16"

abbreviation i_block_count :: "u64 \<Rightarrow> u64" where
  "i_block_count p \<equiv> p + 24"

abbreviation sizeof_dentry :: u64 where
  "sizeof_dentry \<equiv> 272"

abbreviation inode_entry :: "u64 \<Rightarrow> u64" where
  "inode_entry d \<equiv> d + 256"

abbreviation d_parent :: "u64 \<Rightarrow> u64" where
  "d_parent d \<equiv> d + 264"

text \<open>\<open>FILE\<close>: \<open>inode_num\<close> is at offset 0.\<close>

abbreviation sizeof_FILE :: u64 where
  "sizeof_FILE \<equiv> 336"

abbreviation f_filename :: "u64 \<Rightarrow> u64" where
  "f_filename f \<equiv> f + 8"

abbreviation f_offset :: "u64 \<Rightarrow> u64" where
  "f_offset f \<equiv> f + 316"

abbreviation f_address :: "u64 \<Rightarrow> u64" where
  "f_address f \<equiv> f + 320"

text \<open>\<open>Elf64_Ehdr\<close> and \<open>Elf64_Phdr\<close>; \<open>p_type\<close> is at offset 0.\<close>

abbreviation ELF_PROG_LOAD :: u32 where
  "ELF_PROG_LOAD \<equiv> 1"

abbreviation e_entry :: "u64 \<Rightarrow> u64" where
  "e_entry elf \<equiv> elf + 24"

abbreviation e_phoff :: "u64 \<Rightarrow> u64" where
  "e_phoff elf \<equiv> elf + 32"

abbreviation e_phnum :: "u64 \<Rightarrow> u64" where
  "e_phnum elf \<equiv> elf + 56"

abbreviation p_flags :: "u64 \<Rightarrow> u64" where
  "p_flags ph \<equiv> ph + 4"

abbreviation p_offset :: "u64 \<Rightarrow> u64" where
  "p_offset ph \<equiv> ph + 8"

abbreviation p_vaddr :: "u64 \<Rightarrow> u64" where
  "p_vaddr ph \<equiv> ph + 16"

abbreviation p_filesz :: "u64 \<Rightarrow> u64" where
  "p_filesz ph \<equiv> ph + 32"

abbreviation p_memsz :: "u64 \<Rightarrow> u64" where
  "p_memsz ph \<equiv> ph + 40"

record tarfs = keyboard +
  tarfs_start :: u64
  tarfs_end :: u64
  tarfs_fs :: u64
  dent :: u64
  ino :: u64
  num_dentries :: u16
  num_inodes :: u16
  strtok :: strtok_state
  curr_file :: u64
  str_slash :: u64
  str_empty :: u64
  name_buf :: u64
  dir_buf :: u64

definition tarfs_entry :: "nat \<Rightarrow> 'a tarfs_scheme \<Rightarrow> u64" where
  "tarfs_entry i s = tarfs_fs s + of_nat i * sizeof_tarfs_entry"

definition dentry_at :: "u64 \<Rightarrow> 'a tarfs_scheme \<Rightarrow> u64" where
  "dentry_at i s = dent s + i * sizeof_dentry"

section \<open>sys/walk\_tarfs.c\<close>

text \<open>The number of bytes from one header to the next, as an \<open>int\<close>.\<close>

definition tar_skip :: "u64 \<Rightarrow> u32" where
  "tar_skip sz =
     (if sz = 0 then 512
      else if sz mod 512 = 0 then ucast (sz + 512)
      else ucast (sz + (512 - sz mod 512) + 512))"

partial_function (option) file_exists_loop ::
  "memory \<Rightarrow> u64 \<Rightarrow> u64 \<Rightarrow> u32 \<Rightarrow> u64 \<Rightarrow> u32 option" where
  "file_exists_loop m start test_fs tmp file = do {
     len \<leftarrow> kstrlen m test_fs;
     if len \<noteq> 0 then do {
       let test_fs = start + scast tmp;
       let sz = oct2dec (stoi m (ustar_size test_fs));
       len \<leftarrow> kstrlen m test_fs;
       if len = 0 then Some 999
       else do {
         c \<leftarrow> kstrcmp m test_fs file;
         if c = 0 then Some (tmp + 512)
         else file_exists_loop m start test_fs (tmp + tar_skip sz) file
       }
     }
     else Some 0
   }"

definition file_exists :: "u64 \<Rightarrow> 'a tarfs_scheme \<Rightarrow> u32 option" where
  "file_exists file s = file_exists_loop (store s) (tarfs_start s) (tarfs_start s) 512 file"

text \<open>The backward search for a slash; \<open>None\<close> inside is the early return of 999.\<close>

partial_function (option) find_slash :: "memory \<Rightarrow> u64 \<Rightarrow> int \<Rightarrow> int option option" where
  "find_slash m name len =
     (if m (name + of_int len) = 0x2f then Some (Some len)
      else if len - 1 = 0 then Some None
      else find_slash m name (len - 1))"

partial_function (option) find_entry :: "memory \<Rightarrow> u64 \<Rightarrow> u64 \<Rightarrow> nat \<Rightarrow> nat option" where
  "find_entry m name fs i = do {
     c \<leftarrow> kstrcmp m name (fs + of_nat i * sizeof_tarfs_entry);
     if c \<noteq> 0 then find_entry m name fs (Suc i) else Some i
   }"

definition get_per_indx :: "u64 \<Rightarrow> 'a tarfs_scheme \<Rightarrow> (u32 \<times> 'a tarfs_scheme) option" where
  "get_per_indx dir s = do {
     len \<leftarrow> kstrlen (store s) dir;
     m1 \<leftarrow> kstrcpy (store s) (name_buf s) dir;
     pos \<leftarrow> find_slash m1 (name_buf s) (sint (ucast len :: u32) - 2);
     case pos of
       None \<Rightarrow> Some (999, s\<lparr>store := m1\<rparr>)
     | Some len \<Rightarrow> do {
         let m2 = m1(name_buf s + of_int (len + 1) := 0);
         i \<leftarrow> find_entry m2 (name_buf s) (tarfs_fs s) 0;
         Some (of_nat i, s\<lparr>store := m2\<rparr>)
       }
   }"

definition get_per_indx_file :: "u64 \<Rightarrow> 'a tarfs_scheme \<Rightarrow> (u32 \<times> 'a tarfs_scheme) option" where
  "get_per_indx_file dir s = do {
     len \<leftarrow> kstrlen (store s) dir;
     m1 \<leftarrow> kstrcpy (store s) (name_buf s) dir;
     pos \<leftarrow> find_slash m1 (name_buf s) (sint (ucast len :: u32) - 1);
     case pos of
       None \<Rightarrow> Some (999, s\<lparr>store := m1\<rparr>)
     | Some len \<Rightarrow> do {
         i \<leftarrow> find_entry m1 (name_buf s) (tarfs_fs s) 0;
         Some (of_nat i, s\<lparr>store := m1\<rparr>)
       }
   }"

text \<open>The number of components that repeated calls of \<open>kstrtok\<close> deliver.\<close>

partial_function (option) count_components ::
  "u64 \<Rightarrow> u64 \<Rightarrow> u32 \<Rightarrow> 'a tarfs_scheme \<Rightarrow> (u32 \<times> 'a tarfs_scheme) option" where
  "count_components path slash j s =
     (if path \<noteq> 0 then do {
        (st, m, path') \<leftarrow> kstrtok (strtok s) (store s) 0 slash;
        count_components path' slash (j + 1) (s\<lparr>strtok := st, store := m\<rparr>)
      }
      else Some (j, s))"

fun find_parent :: "nat \<Rightarrow> memory \<Rightarrow> u64 \<Rightarrow> nat option" where
  "find_parent 0 m fs = None"
| "find_parent (Suc index) m fs =
     (if load32 m (te_typeflag (fs + of_nat index * sizeof_tarfs_entry)) = DIRECTORY then Some index
      else find_parent index m fs)"

definition set_dirents :: "nat \<Rightarrow> 'a tarfs_scheme \<Rightarrow> 'a tarfs_scheme option" where
  "set_dirents i s =
     (let d = dentry_at (ucast (num_dentries s)) s;
          n = ino s + ucast (num_inodes s) * sizeof_inode;
          e = tarfs_entry i s
      in do {
        m1 \<leftarrow> kstrcpy (store s) d e;
        let m2 = store64 m1 (i_size n) (scast (load32 m1 (te_size e)));
        let m3 = store32 m2 (ref_count n) (- 1);
        let m4 = store64 m3 (i_block_count n) 0;
        let m5 = store32 m4 n (ucast (num_inodes s));
        let m6 = store64 m5 (inode_entry d) n;
        (st, m7, path) \<leftarrow> kstrtok (strtok s) m6 e (str_slash s);
        (j, s1) \<leftarrow> count_components path (str_slash s) 0 (s\<lparr>strtok := st, store := m7\<rparr>);
        if j = 1 then Some (s1\<lparr>store := store64 (store s1) (d_parent d) 0\<rparr>)
        else case find_parent (unat (num_dentries s1)) (store s1) (tarfs_fs s1) of
          None \<Rightarrow> Some s1
        | Some index \<Rightarrow>
            Some (s1\<lparr>store := store64 (store s1) (d_parent d) (dentry_at (of_nat index) s1)\<rparr>)
      })"

partial_function (option) init_tarfs_loop ::
  "u64 \<Rightarrow> u32 \<Rightarrow> nat \<Rightarrow> 'a tarfs_scheme \<Rightarrow> 'a tarfs_scheme option" where
  "init_tarfs_loop tar_var tmp i s =
     (if tar_var < tarfs_end s then do {
        let tar_var = tarfs_start s + scast tmp;
        len \<leftarrow> kstrlen (store s) tar_var;
        if len = 0 then Some s
        else do {
          let fsz = (ucast (oct2dec (stoi (store s) (ustar_size tar_var))) :: u32);
          let e = tarfs_entry i s;
          m1 \<leftarrow> kstrcpy (store s) e tar_var;
          let m2 = store32 m1 (te_size e) fsz;
          let m3 = store64 m2 (te_addr_hdr e) (tarfs_start s + scast tmp);
          let typ = (ucast (stoi m3 (ustar_typeflag tar_var)) :: u32);
          let s1 = s\<lparr>store := store32 m3 (te_typeflag e) typ\<rparr>;
          s2 \<leftarrow>
            (if typ = FILE_TYPE then do {
               (index, s') \<leftarrow> get_per_indx_file e s1;
               Some (s'\<lparr>store := store32 (store s') (te_index e) index\<rparr>)
             }
             else if typ = DIRECTORY then do {
               (index, s') \<leftarrow> get_per_indx e s1;
               Some (s'\<lparr>store := store32 (store s') (te_index e) index\<rparr>)
             }
             else Some s1);
          s3 \<leftarrow> set_dirents i s2;
          init_tarfs_loop tar_var (tmp + tar_skip (ucast fsz)) (Suc i)
            (s3\<lparr>num_dentries := num_dentries s3 + 1, num_inodes := num_inodes s3 + 1\<rparr>)
        }
      }
      else Some s)"

definition init_tarfs :: "'a tarfs_scheme \<Rightarrow> 'a tarfs_scheme option" where
  "init_tarfs s = init_tarfs_loop (tarfs_start s) 0 0 s"

section \<open>sys/tarfs\_ops.c\<close>

partial_function (option) opendir_loop ::
  "nat \<Rightarrow> u64 \<Rightarrow> 'a tarfs_scheme \<Rightarrow> u64 option option" where
  "opendir_loop i dir s =
     (let tar_e = tarfs_entry i s
      in do {
        len \<leftarrow> kstrlen (store s) dir;
        if len = 0 then Some (Some 0)
        else do {
          n \<leftarrow> kstrlen (store s) tar_e;
          if n = 0 then Some None
          else do {
            c \<leftarrow> kstrcmp (store s) tar_e dir;
            if c = 0 \<and> load32 (store s) (te_typeflag tar_e) = DIRECTORY
            then Some (Some (load64 (store s) (te_addr_hdr tar_e)))
            else opendir_loop (Suc i) dir s
          }
        }
      })"

definition opendir :: "u64 \<Rightarrow> 'a tarfs_scheme \<Rightarrow> (u64 \<times> 'a tarfs_scheme) option" where
  "opendir dir s = do {
     r \<leftarrow> opendir_loop 0 dir s;
     case r of
       Some addr \<Rightarrow> Some (addr, s)
     | None \<Rightarrow> do {
         s' \<leftarrow> kprintf ([char_newline] @ bytes ''No such directory '' @ [char_newline]) [] s;
         Some (0, s')
       }
   }"

text \<open>The listing of the top directory: the entries without a parent.\<close>

fun readdir_top :: "nat \<Rightarrow> nat \<Rightarrow> 'a tarfs_scheme \<Rightarrow> 'a tarfs_scheme option" where
  "readdir_top i 0 s = Some s"
| "readdir_top i (Suc n) s = do {
     let d = dentry_at (of_nat i) s;
     s' \<leftarrow> (if load64 (store s) (d_parent d) = 0
           then kprintf (bytes ''%s'' @ [char_tab]) [d] s else Some s);
     readdir_top (Suc i) n s'
   }"

partial_function (option) readdir_loop ::
  "nat \<Rightarrow> u32 \<Rightarrow> u64 \<Rightarrow> 'a tarfs_scheme \<Rightarrow> (nat \<times> 'a tarfs_scheme) option" where
  "readdir_loop i len addr s =
     (let tar_e = tarfs_entry i s
      in do {
        n \<leftarrow> kstrlen (store s) tar_e;
        if n = 0 then Some (i, s)
        else if load64 (store s) (te_addr_hdr tar_e) = addr then do {
          m \<leftarrow> kstrcpy (store s) (dir_buf s) tar_e;
          len' \<leftarrow> kstrlen m (dir_buf s);
          readdir_loop (Suc i) (ucast len') addr (s\<lparr>store := m\<rparr>)
        }
        else do {
          k \<leftarrow> kstrlen (store s) (dir_buf s);
          c \<leftarrow> kstrncmp (store s) tar_e (dir_buf s) k;
          s' \<leftarrow> (if c = 0 then kprintf (bytes ''%s'' @ [char_tab]) [tar_e + scast len] s else Some s);
          readdir_loop (Suc i) len addr s'
        }
      })"

definition readdir :: "u64 \<Rightarrow> 'a tarfs_scheme \<Rightarrow> (u64 \<times> 'a tarfs_scheme) option" where
  "readdir addr s = do {
     s1 \<leftarrow> kprintf [char_newline] [] s;
     s2 \<leftarrow> (if addr = 0 then readdir_top 0 (unat (num_dentries s1)) s1 else Some s1);
     (i, s3) \<leftarrow> readdir_loop (if addr = 0 then unat (num_dentries s1) else 0) 0 addr s2;
     s4 \<leftarrow> kprintf [char_newline] [] s3;
     Some (load64 (store s4) (te_addr_hdr (tarfs_entry i s4)), s4)
   }"

definition fill_file ::
  "u64 \<Rightarrow> u64 \<Rightarrow> u64 \<Rightarrow> u64 \<Rightarrow> memory \<Rightarrow> memory option" where
  "fill_file fd file inode addr m = do {
     m1 \<leftarrow> kstrcpy m (f_filename fd) file;
     let m2 = store64 m1 fd inode;
     let m3 = store32 m2 (f_offset fd) 0;
     Some (store64 m3 (f_address fd) addr)
   }"

partial_function (option) openfile_loop ::
  "nat \<Rightarrow> u64 \<Rightarrow> u64 \<Rightarrow> u64 \<Rightarrow> 'a tarfs_scheme \<Rightarrow> 'a tarfs_scheme option option" where
  "openfile_loop i fd file filename s =
     (let tar_e = tarfs_entry i s; hdr = load64 (store s) (te_addr_hdr tar_e)
      in do {
        len \<leftarrow> kstrlen (store s) filename;
        found \<leftarrow>
          (if len = 0 then do {
             k \<leftarrow> kstrlen (store s) file;
             c \<leftarrow> kstrncmp (store s) tar_e file k;
             Some (c = 0)
           }
           else Some False);
        if found then do {
          m \<leftarrow> fill_file fd file (of_nat (Suc i) - 1) hdr (store s);
          Some (Some (s\<lparr>store := m\<rparr>))
        }
        else do {
          n \<leftarrow> kstrlen (store s) tar_e;
          if n = 0 then Some None
          else do {
            c \<leftarrow> kstrcmp (store s) (tar_e + 4) filename;
            if c = 0 then do {
              m \<leftarrow> fill_file fd file (of_nat i - 1) hdr (store s);
              Some (Some (s\<lparr>store := m\<rparr>))
            }
            else openfile_loop (Suc i) fd file filename s
          }
        }
      })"

definition openfile :: "u64 \<Rightarrow> 'a tarfs_scheme \<Rightarrow> (u64 \<times> 'a tarfs_scheme) option" where
  "openfile file s =
     (let (fd, s1) = kmalloc sizeof_FILE s;
          filename = (if file + 4 \<noteq> 0 then file + 4 else file)
      in do {
        r \<leftarrow> openfile_loop 0 fd file filename s1;
        case r of
          Some s2 \<Rightarrow> Some (fd, s2)
        | None \<Rightarrow> do {
            s2 \<leftarrow> kprintf ([char_newline] @ bytes '' No such file '' @ [char_newline]) [] s1;
            Some (0, s2)
          }
      })"

fun read_loop :: "nat \<Rightarrow> nat \<Rightarrow> u64 \<Rightarrow> u64 \<Rightarrow> memory \<Rightarrow> memory" where
  "read_loop i 0 tmp src m = m(tmp + of_nat i := 0)"
| "read_loop i (Suc n) tmp src m =
     read_loop (Suc i) n tmp (src + 1) (m(tmp + of_nat i := m src))"

text \<open>Reading from the null descriptor is reading a line from the keyboard; the scan codes that
  arrive meanwhile are an argument, and those that are not consumed are returned.\<close>

definition readfile ::
  "u8 list \<Rightarrow> u64 \<Rightarrow> u32 \<Rightarrow> u64 \<Rightarrow> 'a tarfs_scheme \<Rightarrow> (u64 \<times> 'a tarfs_scheme \<times> u8 list) option" where
  "readfile codes file_addr sz buf s =
     (if sz <s 0 then Some (0, s, codes)
      else if file_addr = 0 then do {
        (r, s', rest) \<leftarrow> gets codes buf s;
        Some (scast (ucast r :: u32), s', rest)
      }
      else
        (let file_hdr = load64 (store s) (f_address file_addr);
             file_size = oct2dec (stoi (store s) (ustar_size file_hdr));
             sz = (if file_size < scast sz then ucast file_size else sz);
             bytes = sz;
             file_start_addr = load64 (store s) (f_address file_addr) + 512
         in Some (scast bytes,
              s\<lparr>store := read_loop 0 (nat (sint sz)) buf file_start_addr (store s)\<rparr>, codes)))"

definition closefile :: "u32 \<Rightarrow> 'a tarfs_scheme \<Rightarrow> (u32 \<times> 'a tarfs_scheme) option" where
  "closefile fd s =
     (if fd <s 0 then Some (- 1, s)
      else
        (let file_addr = scast fd;
             m1 = store64 (store s) (f_address file_addr) 0;
             m2 = store64 m1 file_addr 0;
             m3 = store32 m2 (f_offset file_addr) 0
         in do {
           m4 \<leftarrow> kstrcpy m3 (f_filename file_addr) (str_empty s);
           Some (1, s\<lparr>store := m4\<rparr>)
         }))"

definition close_dir :: "u64 \<Rightarrow> u32" where
  "close_dir addr = 1"

text \<open>\<open>vma_data\<close>: the program headers are stepped through by bytes, as in the source.\<close>

fun vma_data_loop ::
  "nat \<Rightarrow> nat \<Rightarrow> u64 \<Rightarrow> u64 \<Rightarrow> u64 \<Rightarrow> 'a tarfs_scheme \<Rightarrow> (u64 \<times> 'a tarfs_scheme) option" where
  "vma_data_loop i 0 elf ph szp s = Some (ph, s)"
| "vma_data_loop i (Suc n) elf ph szp s =
     (let ph = elf + load64 (store s) (e_phoff elf) + of_nat i;
          filesz = load64 (store s) (p_filesz ph); memsz = load64 (store s) (p_memsz ph)
      in if load32 (store s) ph \<noteq> ELF_PROG_LOAD then vma_data_loop (Suc i) n elf ph szp s
         else do {
           s1 \<leftarrow> (if filesz > memsz then kprintf (bytes ''Invalid file size'' @ [char_newline]) [] s
                 else Some s);
           let m1 = kmemcpy (store s1) (load64 (store s1) (p_vaddr ph))
             (elf + load64 (store s1) (p_offset ph)) (load64 (store s1) (p_filesz ph));
           let m2 = store32 m1 szp (ucast (load64 m1 (p_filesz ph)));
           let m3 =
             (if load64 m2 (p_filesz ph) < load64 m2 (p_memsz ph)
              then let m = memset m2 (load64 m2 (p_vaddr ph) + load64 m2 (p_filesz ph)) 0
                       (ucast (load64 m2 (p_memsz ph) - load64 m2 (p_filesz ph)))
                   in store32 m szp (ucast (load64 m (p_memsz ph)))
              else m2);
           Some (ph, s1\<lparr>store := m3\<rparr>)
         })"

definition vma_data :: "u64 \<Rightarrow> 'a tarfs_scheme \<Rightarrow> (u64 \<times> 'a tarfs_scheme) option" where
  "vma_data szp s = do {
     off \<leftarrow> file_exists (curr_file s) s;
     let elf = tarfs_start s + scast off;
     (ph, s') \<leftarrow> vma_data_loop 0 (unat (load16 (store s) (e_phnum elf))) elf
       (elf + load64 (store s) (e_phoff elf)) szp s;
     Some (load64 (store s') (p_vaddr ph), s')
   }"

section \<open>Archives\<close>

text \<open>An archive at an address: the names and sizes of its files. Headers are 512 bytes, and the
  data is padded to a multiple of 512.\<close>

definition tar_span :: "nat \<Rightarrow> nat" where
  "tar_span sz = 512 + 512 * ((sz + 511) div 512)"

fun tar_at :: "memory \<Rightarrow> u64 \<Rightarrow> (u8 list \<times> nat) list \<Rightarrow> bool" where
  "tar_at m p [] \<longleftrightarrow> m p = 0"
| "tar_at m p ((name, sz) # es) \<longleftrightarrow>
     name \<noteq> [] \<and> length name < 100 \<and> cstr m p name \<and> oct2dec (stoi m (ustar_size p)) = of_nat sz \<and>
     tar_at m (p + of_nat (tar_span sz)) es"

definition tar_length :: "(u8 list \<times> nat) list \<Rightarrow> nat" where
  "tar_length es = sum_list (map (\<lambda>(name, sz). tar_span sz) es)"

text \<open>The offset of the first header with a name.\<close>

fun tar_find :: "(u8 list \<times> nat) list \<Rightarrow> u8 list \<Rightarrow> nat \<Rightarrow> nat option" where
  "tar_find [] f off = None"
| "tar_find ((name, sz) # es) f off = (if name = f then Some off else tar_find es f (off + tar_span sz))"

lemma ucast_of_nat32: "(ucast (of_nat n :: u64) :: u32) = of_nat n"
  by (rule bit_word_eqI) (simp add: bit_simps)

lemma tar_span_cases:
  shows "sz mod 512 = 0 \<Longrightarrow> tar_span sz = sz + 512"
    and "sz mod 512 \<noteq> 0 \<Longrightarrow> tar_span sz = sz + (512 - sz mod 512) + 512"
proof -
  define k r where "k = sz div 512" and "r = sz mod 512"
  have sz: "sz = 512 * k + r" "r < 512" by (simp_all add: k_def r_def)
  show "tar_span sz = sz + 512" if "sz mod 512 = 0"
  proof -
    have "r = 0" unfolding r_def by (rule that)
    then have "sz = 512 * k" using sz(1) by (simp only: add_0_right)
    then show ?thesis by (simp add: tar_span_def)
  qed
  show "tar_span sz = sz + (512 - sz mod 512) + 512" if "sz mod 512 \<noteq> 0"
  proof -
    have "0 < r" using that by (simp add: r_def)
    then have "sz + 511 = 512 * Suc k + (r - 1)" "r - 1 < 512" using sz by simp_all
    then have "(sz + 511) div 512 = Suc k" by (simp only: div_mult_self4)
    then have "tar_span sz = 512 + 512 * Suc k" by (simp add: tar_span_def)
    moreover have "512 + 512 * Suc k = 512 * k + r + (512 - r) + 512" using sz(2) by simp
    ultimately have "tar_span sz = sz + (512 - r) + 512" using sz(1) by linarith
    then show ?thesis by (simp only: r_def)
  qed
qed

lemma tar_skip_span:
  assumes "sz < 2 ^ 31"
  shows "tar_skip (of_nat sz) = of_nat (tar_span sz)"
proof -
  let ?w = "of_nat sz :: u64" and ?r = "sz mod 512"
  have u: "unat ?w = sz" using assms by (intro unat_of_nat64) simp
  have zero: "?w = 0 \<longleftrightarrow> sz = 0" using of_nat64_eq [of sz 0] assms by simp
  have "?w mod 512 = of_nat (unat (?w mod 512))" by simp
  then have modw: "?w mod 512 = of_nat ?r" by (simp only: unat_mod u) simp
  have mod0: "?w mod 512 = 0 \<longleftrightarrow> ?r = 0"
    unfolding modw using of_nat64_eq [of ?r 0] mod_less_divisor [of 512 sz] by simp
  show ?thesis
  proof (cases "?r = 0")
    case True
    then show ?thesis
      using zero mod0 tar_span_cases(1) [OF True] ucast_of_nat32 [of "sz + 512"]
      by (simp add: tar_skip_def)
  next
    case False
    have "of_nat (sz + (512 - ?r) + 512) = ?w + (512 - of_nat ?r) + 512"
      using mod_less_divisor [of 512 sz] by (simp add: of_nat_diff less_imp_le)
    then have "ucast (?w + (512 - ?w mod 512) + 512) = (of_nat (sz + (512 - ?r) + 512) :: u32)"
      unfolding modw using ucast_of_nat32 by metis
    then show ?thesis
      using zero mod0 False tar_span_cases(2) [OF False] by (simp add: tar_skip_def) 
  qed
qed

lemma sint_of_nat32:
  assumes "n < 2 ^ 31"
  shows "sint (of_nat n :: u32) = int n"
proof -
  have "int n < int (2 ^ 31)" using assms by (simp only: of_nat_less_iff)
  then have less: "int n < 2 ^ 31" by (simp only: of_nat_power of_nat_numeral)
  have "sint (of_nat n :: u32) = signed_take_bit 31 (int n)" by (simp add: signed_of_nat)
  also have "\<dots> = int n"
    by (rule signed_take_bit_int_eq_self [OF _ less]) (rule order_trans [of _ 0], simp_all)
  finally show ?thesis .
qed

lemma nonneg_u32:
  assumes "0 \<le>s (w :: u32)"
  obtains a where "w = of_nat a" "a < 2 ^ 31" "a = nat (sint w)"
proof -
  have pos: "0 \<le> sint w" using assms by (simp add: word_sle_eq)
  have "w = of_int (sint w)" by simp
  also have "\<dots> = of_int (int (nat (sint w)))" using pos by (simp only: int_nat_eq if_True)
  finally have "w = of_nat (nat (sint w))" by (simp only: of_int_of_nat_eq)
  moreover have "nat (sint w) < 2 ^ 31" using sint_lt [of w] pos by simp
  ultimately show thesis using that by blast
qed

lemma kstrlen_name:
  assumes "cstr m p name" and "Suc (length name) < 2 ^ 31"
  shows "\<exists>len. kstrlen m p = Some len \<and> (len = 0 \<longleftrightarrow> name = [])"
proof -
  have "kstrlen m p = Some (of_nat (kstrlen_of name))" using assms by (rule kstrlen_of_cstr)
  moreover have "(of_nat (kstrlen_of name) :: u64) = of_nat 0 \<longleftrightarrow> kstrlen_of name = 0"
    using assms(2) by (intro of_nat64_eq) (simp_all add: kstrlen_of_def)
  ultimately show ?thesis by (simp add: kstrlen_of_def)
qed

lemma file_exists_loop_finds:
  assumes "tar_at m (start + of_nat off) es" and "off + tar_length es < 2 ^ 31"
    and "cstr m prev pn" "pn \<noteq> []" "Suc (length pn) < 2 ^ 31" and "cstr m file f"
  shows "file_exists_loop m start prev (of_nat off) file =
    Some (case tar_find es f off of None \<Rightarrow> 999 | Some k \<Rightarrow> of_nat (k + 512))"
  using assms
proof (induction es arbitrary: off prev pn)
  case Nil
  obtain len where "kstrlen m prev = Some len" "len \<noteq> 0" using kstrlen_name [OF Nil(3,5)] Nil(4) by auto
  moreover have "kstrlen m (start + of_nat off) = Some 0" using Nil(1) by (simp add: kstrlen_def)
  ultimately show ?case
    using Nil(2) scast_of_nat32 [of off] by (subst file_exists_loop.simps) (simp add: tar_length_def)
next
  case (Cons e es)
  obtain name sz where e: "e = (name, sz)" by force
  let ?p = "start + of_nat off :: u64"
  obtain len where len: "kstrlen m prev = Some len" "len \<noteq> 0" using kstrlen_name [OF Cons(4,6)] Cons(5) by auto
  have at: "name \<noteq> []" "length name < 100" "cstr m ?p name" "oct2dec (stoi m (ustar_size ?p)) = of_nat sz"
    "tar_at m (?p + of_nat (tar_span sz)) es" using Cons(2) by (simp_all add: e)
  have short: "Suc (length name) < 2 ^ 31" using at(2) by simp
  obtain len' where len': "kstrlen m ?p = Some len'" "len' \<noteq> 0" using kstrlen_name [OF at(3) short] at(1) by auto
  have cmp: "kstrcmp m ?p file = Some (byte_diff name f)" using at(3) Cons(7) by (rule kstrcmp_cstr)
  have eq: "byte_diff name f = 0 \<longleftrightarrow> name = f"
    using byte_diff_0 cstr_nonzero [OF at(3)] cstr_nonzero [OF Cons(7)] by blast
  have sz: "tar_span sz + tar_length es + off < 2 ^ 31" using Cons(3) by (simp add: e tar_length_def)
  moreover have "sz \<le> tar_span sz" by (cases "sz mod 512 = 0") (simp_all add: tar_span_cases)
  ultimately have skip: "tar_skip (of_nat sz) = of_nat (tar_span sz)" by (intro tar_skip_span) simp
  have "file_exists_loop m start ?p (of_nat (off + tar_span sz)) file =
      Some (case tar_find es f (off + tar_span sz) of None \<Rightarrow> 999 | Some k \<Rightarrow> of_nat (k + 512))"
    using at(1,3,5) short sz Cons(7) by (intro Cons(1)) (simp_all add: add.assoc)
  then show ?case
    using len len' cmp eq skip at(4) sz scast_of_nat32 [of off]
    by (subst file_exists_loop.simps) (simp add: e)
qed

section \<open>Reading\<close>

lemma read_loop_eq:
  "read_loop i n tmp src m = (copy_loop m (tmp + of_nat i) src 0 n)(tmp + of_nat (i + n) := 0)"
proof (induction n arbitrary: i src m)
  case 0
  then show ?case by simp
next
  case (Suc n)
  have "tmp + of_nat (Suc i) = tmp + of_nat i + 1" "Suc i + n = i + Suc n" by simp_all
  then show ?case using Suc [of "Suc i" "src + 1" "m(tmp + of_nat i := m src)"]
    by (simp only: read_loop.simps copy_loop_Suc)
qed

lemma read_loop_put:
  "n \<le> unat (tmp - src) \<Longrightarrow> read_loop 0 n tmp src m = put_bytes m tmp (get_bytes m src n @ [0])"
  using put_bytes_snoc [of m tmp "get_bytes m src n" 0]
  by (simp add: read_loop_eq copy_loop_put)

section \<open>Opening\<close>

text \<open>The region of \<open>n\<close> bytes at \<open>p\<close> is not touched by the next page allocation.\<close>

definition apart :: "'a paging_scheme \<Rightarrow> u64 \<Rightarrow> nat \<Rightarrow> bool" where
  "apart s p n \<longleftrightarrow> disjoint_regions (next_frame s + VIRT_BASE) 4096 p n \<and>
     disjoint_regions (freelist_slot s) 4 p n"

lemma page_alloc_apart:
  assumes "apart s p N" and "off + k \<le> N" and "0 < k"
  shows "get_bytes (store (snd (page_alloc s))) (p + of_nat off) k = get_bytes (store s) (p + of_nat off) k"
proof (rule nth_equalityI)
  fix i
  assume "i < length (get_bytes (store (snd (page_alloc s))) (p + of_nat off) k)"
  then have i: "i < k" by simp
  have "disjoint_regions (next_frame s + VIRT_BASE) 4096 (p + of_nat off) k"
    "disjoint_regions (freelist_slot s) 4 (p + of_nat off) k"
    using assms disjoint_sub by (auto simp add: apart_def)
  then have "4096 \<le> unat (p + of_nat off + of_nat i - (next_frame s + VIRT_BASE))"
    "4 \<le> unat (p + of_nat off + of_nat i - freelist_slot s)"
    using i disjoint_offset by blast+
  then show "get_bytes (store (snd (page_alloc s))) (p + of_nat off) k ! i =
      get_bytes (store s) (p + of_nat off) k ! i"
    using i by (simp add: page_alloc_store page_alloc_head)
qed simp

lemma cstr_apart:
  assumes "apart s p N" and "off + length str < N"
  shows "cstr (store (snd (page_alloc s))) (p + of_nat off) str \<longleftrightarrow> cstr (store s) (p + of_nat off) str"
  using page_alloc_apart [OF assms(1), of off "Suc (length str)"] assms(2) by (simp add: cstr_iff)

lemma cstr_suffix: "cstr m p (xs @ ys) \<Longrightarrow> cstr m (p + of_nat (length xs)) ys"
proof (induction xs arbitrary: p)
  case (Cons x xs)
  then show ?case using Cons.IH [of "p + 1"] by (simp add: add.assoc)
qed simp

lemma kmalloc_FILE: "kmalloc sizeof_FILE s = (next_frame s + VIRT_BASE, snd (page_alloc s))"
  by (subst kmalloc_pages) (simp_all add: pages_for_def)

text \<open>An entry of the table with a name, whose part behind the fourth character is \<open>base\<close>.\<close>

definition entry_named :: "memory \<Rightarrow> u64 \<Rightarrow> u8 list \<Rightarrow> bool" where
  "entry_named m e base \<longleftrightarrow> m e \<noteq> 0 \<and> (\<exists>name. length name < 256 \<and> cstr m e name) \<and>
     length base < 252 \<and> cstr m (e + 4) base"

lemma openfile_loop_step:
  assumes e: "entry_named (store s) (tarfs_entry i s) b" and base: "cstr (store s) filename base"
    and "base \<noteq> []" "length base < 252"
  shows "openfile_loop i fd file filename s =
    (if b = base
     then do {
       m \<leftarrow> fill_file fd file (of_nat i - 1) (load64 (store s) (te_addr_hdr (tarfs_entry i s))) (store s);
       Some (Some (s\<lparr>store := m\<rparr>))
     }
     else openfile_loop (Suc i) fd file filename s)"
proof -
  obtain name where name: "length name < 256" "cstr (store s) (tarfs_entry i s) name"
    "store s (tarfs_entry i s) \<noteq> 0" "cstr (store s) (tarfs_entry i s + 4) b"
    using e by (auto simp add: entry_named_def)
  have short: "Suc (length name) < 2 ^ 31" "Suc (length base) < 2 ^ 31" using name(1) assms(4) by simp_all
  have "name \<noteq> []" using name(2,3) by auto
  then obtain n where n: "kstrlen (store s) (tarfs_entry i s) = Some n" "n \<noteq> 0"
    using kstrlen_name [OF name(2) short(1)] by auto
  obtain len where len: "kstrlen (store s) filename = Some len" "len \<noteq> 0"
    using kstrlen_name [OF base short(2)] assms(3) by auto
  have cmp: "kstrcmp (store s) (tarfs_entry i s + 4) filename = Some (byte_diff b base)"
    using name(4) base by (rule kstrcmp_cstr)
  have "byte_diff b base = 0 \<longleftrightarrow> b = base"
    using byte_diff_0 cstr_nonzero [OF name(4)] cstr_nonzero [OF base] by blast
  then show ?thesis
    using n len cmp by (subst openfile_loop.simps) (simp add: Let_def)
qed

lemma openfile_loop_search:
  assumes "\<And>j. i \<le> j \<Longrightarrow> j \<le> i + k \<Longrightarrow> entry_named (store s) (tarfs_entry j s) (names j)"
    and "\<And>j. i \<le> j \<Longrightarrow> j < i + k \<Longrightarrow> names j \<noteq> base" and "names (i + k) = base"
    and "cstr (store s) filename base" "base \<noteq> []" "length base < 252"
  shows "openfile_loop i fd file filename s = do {
       m \<leftarrow> fill_file fd file (of_nat (i + k) - 1)
         (load64 (store s) (te_addr_hdr (tarfs_entry (i + k) s))) (store s);
       Some (Some (s\<lparr>store := m\<rparr>))
     }"
  using assms(1-3)
proof (induction k arbitrary: i)
  case 0
  then show ?case using openfile_loop_step [OF 0(1) assms(4-6)] by simp
next
  case (Suc k)
  have "names i \<noteq> base" using Suc.prems(2) [of i] by simp
  then have "openfile_loop i fd file filename s = openfile_loop (Suc i) fd file filename s"
    using openfile_loop_step [OF Suc.prems(1) assms(4-6), of i] by simp
  moreover have "openfile_loop (Suc i) fd file filename s = do {
       m \<leftarrow> fill_file fd file (of_nat (Suc i + k) - 1)
         (load64 (store s) (te_addr_hdr (tarfs_entry (Suc i + k) s))) (store s);
       Some (Some (s\<lparr>store := m\<rparr>))
     }"
    using Suc.prems by (intro Suc.IH) simp_all
  ultimately show ?case by simp
qed

lemma fill_file_fields:
  assumes "cstr m file name" and "length name < 256" and "disjoint_regions file 256 fd 4096"
  shows "\<exists>m'. fill_file fd file inode addr m = Some m' \<and> load64 m' (f_address fd) = addr \<and>
    load32 m' (f_offset fd) = 0 \<and> load64 m' fd = inode \<and> cstr m' (f_filename fd) name"
proof -
  have "256 \<le> unat (fd + of_nat 8 - file)" using assms(3) by (intro disjoint_offset) auto
  then have cpy: "kstrcpy m (f_filename fd) file = Some (put_bytes m (f_filename fd) (name @ [0]))"
    using assms(1,2) by (intro kstrcpy_cstr) simp_all
  let ?m1 = "put_bytes m (f_filename fd) (name @ [0])"
  let ?m2 = "store64 ?m1 fd inode" let ?m3 = "store32 ?m2 (f_offset fd) 0"
  let ?m4 = "store64 ?m3 (f_address fd) addr"
  have str: "cstr ?m1 (f_filename fd) name"
    using assms(1,2) by (intro cstr_put_bytes) (auto dest: cstr_nonzero)
  have "cstr ?m4 (f_filename fd) name"
    using assms(2) unfolding store64_def store32_def
    by (intro cstr_put_bytes_disjoint str) (simp_all add: disjoint_regions_def)
  moreover have "load32 ?m4 (f_offset fd) = 0"
  proof -
    have "get_bytes ?m4 (f_offset fd) 4 = get_bytes ?m3 (f_offset fd) 4"
      unfolding store64_def [of ?m3] by (rule get_put_disjoint) (simp_all add: disjoint_regions_def)
    then have "load32 ?m4 (f_offset fd) = load32 ?m3 (f_offset fd)" by (simp only: load32_def)
    then show ?thesis by (simp add: load_store_same)
  qed
  moreover have "load64 ?m4 fd = inode"
    by (simp add: load64_store_disjoint disjoint_regions_def)
  ultimately show ?thesis using cpy by (simp add: fill_file_def Let_def)
qed

section \<open>Properties\<close>

text \<open>C6. \<open>file_exists\<close> searches the archive in order and returns: with the offset of the data
  of the first file of that name, or with 999 when there is none. The first entry of the archive,
  which has to be empty, is not considered.\<close>

theorem file_exists_finds:
  assumes "tar_at (store s) (tarfs_start s) ((dir, 0) # es)" and "512 + tar_length es < 2 ^ 31"
    and "cstr (store s) file f"
  shows "file_exists file s =
    Some (case tar_find es f 512 of None \<Rightarrow> 999 | Some k \<Rightarrow> of_nat (k + 512))"
proof -
  have at: "cstr (store s) (tarfs_start s) dir" "dir \<noteq> []" "length dir < 100"
    "tar_at (store s) (tarfs_start s + of_nat 512) es"
    using assms(1) by (simp_all add: tar_span_def)
  have "Suc (length dir) < 2 ^ 31" using at(3) by simp
  then show ?thesis
    using file_exists_loop_finds [OF at(4) assms(2) at(1,2) _ assms(3)] by (simp add: file_exists_def)
qed

text \<open>An archive with a directory and a file, and a file name.\<close>

definition demo_tar_mem :: memory where
  "demo_tar_mem = fold (\<lambda>(p, bs) m. put_bytes m p bs)
     [(0x100000, bytes ''b/''), (0x100200, bytes ''b/ls''), (0x10027C, bytes ''7''),
      (0x100400, bytes ''ls data''), (0x1000, bytes ''b/ls'')] (\<lambda>_. 0)"

definition demo_tarfs :: tarfs where
  "demo_tarfs = keyboard.extend (demo_keyboard\<lparr>store := demo_tar_mem\<rparr>)
     \<lparr>tarfs_start = 0x100000, tarfs_end = 0x101000, tarfs_fs = 0x200000, dent = 0x210000, ino = 0x220000,
      num_dentries = 3, num_inodes = 3, strtok = \<lparr>tok_buffer = 0, tok_check = 0\<rparr>, curr_file = 0x1000,
      str_slash = 0x1200, str_empty = 0x1210, name_buf = 0x1300, dir_buf = 0x1400\<rparr>"

lemma demo_tarfs_simps [simp]:
  "store demo_tarfs = demo_tar_mem" "tarfs_start demo_tarfs = 0x100000" "tarfs_fs demo_tarfs = 0x200000"
  by (simp_all add: demo_tarfs_def keyboard.defs)

lemma demo_tar_at: "tar_at demo_tar_mem 0x100000 [(bytes ''b/'', 0), (bytes ''b/ls'', 7)]"
  by code_simp

theorem file_exists_finds_witness: "file_exists 0x1000 demo_tarfs = Some 1024"
proof -
  have str: "cstr (store demo_tarfs) 0x1000 (bytes ''b/ls'')" unfolding demo_tarfs_simps by code_simp
  have tar: "tar_at (store demo_tarfs) (tarfs_start demo_tarfs) ((bytes ''b/'', 0) # [(bytes ''b/ls'', 7)])"
    unfolding demo_tarfs_simps by (rule demo_tar_at)
  show ?thesis using file_exists_finds [OF tar _ str] by (simp add: tar_length_def tar_span_def)
qed

text \<open>C16. \<open>readfile\<close> on an open file delivers the smaller of the requested size and the size in
  the file's header, copies so many bytes of the file's data to the buffer, puts a NUL behind them
  and changes nothing else.\<close>

theorem readfile_contents:
  assumes "fd \<noteq> 0" and "0 \<le>s sz" and "hdr = load64 (store s) (f_address fd)"
    and "oct2dec (stoi (store s) (ustar_size hdr)) = of_nat n" and "n < 2 ^ 31"
    and "k = min (nat (sint sz)) n" and "k \<le> unat (buf - (hdr + 512))"
  shows "readfile codes fd sz buf s = Some (of_nat k,
    s\<lparr>store := put_bytes (store s) buf (get_bytes (store s) (hdr + 512) k @ [0])\<rparr>, codes)"
proof -
  obtain a where a: "sz = of_nat a" "a < 2 ^ 31" "a = nat (sint sz)" using nonneg_u32 [OF assms(2)] .
  have ka: "k = min a n" unfolding a(3) by (rule assms(6))
  have k: "k < 2 ^ 31" using ka assms(5) by simp
  have "(of_nat n :: u64) < of_nat a \<longleftrightarrow> n < a"
    using unat_of_nat64 [of n] unat_of_nat64 [of a] assms(5) a(2) by (simp add: word_less_nat_alt)
  then have "(if (of_nat n :: u64) < scast sz then ucast (of_nat n :: u64) else sz) = (of_nat k :: u32)"
    unfolding a(1) ka using scast_of_nat32 [OF a(2)] by (simp add: ucast_of_nat32 min_def)
  moreover have "read_loop 0 (nat (sint (of_nat k :: u32))) buf (hdr + 512) (store s) =
      put_bytes (store s) buf (get_bytes (store s) (hdr + 512) k @ [0])"
    using assms(7) k by (simp add: sint_of_nat32 read_loop_put)
  moreover have "\<not> sz <s 0" using assms(2) by (simp add: word_sless_alt word_sle_eq)
  ultimately show ?thesis
    using assms(1,3,4) scast_of_nat32 [OF k] by (auto simp add: readfile_def Let_def split: if_splits)
qed

definition demo_open_mem :: memory where
  "demo_open_mem = fold (\<lambda>(p, bs) m. put_bytes m p bs)
     [(0x100400, bytes ''ls data''), (0x10027C, bytes ''7''), (0x5141, [2 :: u8, 16])] (\<lambda>_. 0)"

lemma demo_open_mem_reads:
  "load64 demo_open_mem (f_address 0x5000) = 0x100200"
  "get_bytes demo_open_mem (0x100200 + 512) 4 = bytes ''ls d''"
  by (simp_all add: demo_open_mem_def load64_def get_bytes_def upt_rec bytes_def)

lemma demo_open_mem_size: "oct2dec (stoi demo_open_mem (ustar_size 0x100200)) = 7"
  by code_simp

theorem readfile_contents_witness:
  "readfile [] 0x5000 4 0x9000 (demo_tarfs\<lparr>store := demo_open_mem\<rparr>) = Some (4,
     demo_tarfs\<lparr>store := put_bytes demo_open_mem 0x9000 (bytes ''ls d'' @ [0])\<rparr>, [])"
proof -
  let ?s = "demo_tarfs\<lparr>store := demo_open_mem\<rparr>"
  have st: "store ?s = demo_open_mem" by simp
  have "readfile [] 0x5000 4 0x9000 ?s = Some (of_nat 4,
    ?s\<lparr>store := put_bytes (store ?s) 0x9000 (get_bytes (store ?s) (0x100200 + 512) 4 @ [0])\<rparr>, [])"
  proof (rule readfile_contents [where n = 7])
    show "(0x100200 :: u64) = load64 (store ?s) (f_address 0x5000)"
      unfolding st by (rule demo_open_mem_reads(1) [symmetric])
    show "oct2dec (stoi (store ?s) (ustar_size 0x100200)) = of_nat 7"
      unfolding st demo_open_mem_size by simp
  qed (simp_all add: word_sle_eq)
  then show ?thesis unfolding st demo_open_mem_reads(2) by simp
qed

text \<open>C17. Opening a file of the table: \<open>openfile\<close> returns a new descriptor that refers to the
  header of the first entry whose name, behind its first four characters, is the one asked for; its
  offset is 0 and it carries the name.\<close>

theorem openfile_opens:
  assumes entries: "\<forall>j \<le> i. entry_named (store s) (tarfs_entry j s) (names j)" and i: "i < 100"
    and first: "\<forall>j < i. names j \<noteq> base" "names i = base" "base \<noteq> []"
    and path: "cstr (store s) file (pre @ base)" "length pre = 4" "length (pre @ base) < 256" "file + 4 \<noteq> 0"
    and apart: "apart s (tarfs_fs s) 28000" "apart s file 256"
  shows "\<exists>fd s'. openfile file s = Some (fd, s') \<and> fd = next_frame s + VIRT_BASE \<and>
    load64 (store s') (f_address fd) = load64 (store s) (te_addr_hdr (tarfs_entry i s)) \<and>
    load32 (store s') (f_offset fd) = 0 \<and> cstr (store s') (f_filename fd) (pre @ base)"
proof -
  let ?fd = "next_frame s + VIRT_BASE" and ?s = "snd (page_alloc s)"
  have fs: "tarfs_fs ?s = tarfs_fs s" by (simp add: page_alloc_def clear_freelist_slot_def Let_def)
  have entry: "tarfs_entry j ?s = tarfs_fs s + of_nat (280 * j)" for j by (simp add: tarfs_entry_def fs)
  have ent: "entry_named (store ?s) (tarfs_entry j ?s) (names j)" if ji: "j \<le> i" for j
  proof -
    let ?e = "tarfs_fs s + of_nat (280 * j)"
    have e4: "?e + 4 = tarfs_fs s + of_nat (280 * j + 4)" by simp
    have j: "280 * j + 280 \<le> 28000" using ji i by simp
    have "entry_named (store s) (tarfs_fs s + of_nat (280 * j)) (names j)"
      using entries ji by (simp add: tarfs_entry_def mult.commute)
    then obtain name where name: "length name < 256" "cstr (store s) ?e name" "store s ?e \<noteq> 0"
      "length (names j) < 252" "cstr (store s) (?e + 4) (names j)"
      by (auto simp add: entry_named_def)
    have "get_bytes (store ?s) ?e 1 = get_bytes (store s) ?e 1"
      using j by (intro page_alloc_apart [OF apart(1)]) simp_all
    then have "store ?s ?e = store s ?e" by (simp add: get_bytes_def)
    moreover have "cstr (store ?s) ?e name"
      using j name(1,2) cstr_apart [OF apart(1), of "280 * j" name] by simp
    moreover have "cstr (store ?s) (?e + 4) (names j)"
      using j name(4,5) cstr_apart [OF apart(1), of "280 * j + 4" "names j"] unfolding e4 by simp
    ultimately show ?thesis using name unfolding entry by (auto simp add: entry_named_def)
  qed
  have hdr: "load64 (store ?s) (te_addr_hdr (tarfs_entry i ?s)) = load64 (store s) (te_addr_hdr (tarfs_entry i s))"
  proof -
    have at: "tarfs_fs s + of_nat (280 * i) + 264 = tarfs_fs s + of_nat (280 * i + 264)"
      "tarfs_entry i s = tarfs_fs s + of_nat (280 * i)" by (simp_all add: tarfs_entry_def mult.commute)
    have "get_bytes (store ?s) (tarfs_fs s + of_nat (280 * i + 264)) 8 =
        get_bytes (store s) (tarfs_fs s + of_nat (280 * i + 264)) 8"
      using i by (intro page_alloc_apart [OF apart(1)]) simp_all
    then show ?thesis unfolding entry at load64_def by (rule arg_cong)
  qed
  have str: "cstr (store ?s) file (pre @ base)" using path(1,3) cstr_apart [OF apart(2), of 0 "pre @ base"] by simp
  then have "cstr (store ?s) (file + 4) base"
    using path(2) cstr_suffix [where xs = pre and ys = base] by simp
  then have "openfile_loop 0 ?fd file (file + 4) ?s = do {
       m \<leftarrow> fill_file ?fd file (of_nat (0 + i) - 1) (load64 (store ?s) (te_addr_hdr (tarfs_entry (0 + i) ?s))) (store ?s);
       Some (Some (?s\<lparr>store := m\<rparr>))
     }"
    using ent first path(2,3) by (intro openfile_loop_search [where names = names]) auto
  moreover obtain m where "fill_file ?fd file (of_nat (0 + i) - 1) (load64 (store ?s) (te_addr_hdr (tarfs_entry (0 + i) ?s))) (store ?s) = Some m"
    "load64 m (f_address ?fd) = load64 (store s) (te_addr_hdr (tarfs_entry i s))"
    "load32 m (f_offset ?fd) = 0" "cstr m (f_filename ?fd) (pre @ base)"
    using fill_file_fields [OF str path(3), of ?fd] disjoint_regions_sym [of "file" 256] apart(2) hdr
    by (fastforce simp add: apart_def)
  ultimately show ?thesis using path(4) by (simp add: openfile_def kmalloc_FILE Let_def)
qed

definition demo_table_mem :: memory where
  "demo_table_mem = fold (\<lambda>(p, bs) m. put_bytes m p bs)
     [(0x200000, bytes ''bin/ls''), (0x1000, bytes ''bin/ls''), (0x200109, [2 :: u8, 16])] (\<lambda>_. 0)"

lemma demo_table_mem_reads:
  "entry_named demo_table_mem 0x200000 (bytes ''ls'')"
  "cstr demo_table_mem 0x1000 (bytes ''bin/ls'')"
  "load64 demo_table_mem (te_addr_hdr 0x200000) = 0x100200"
proof -
  have "length (bytes ''bin/ls'') < 256 \<and> cstr demo_table_mem 0x200000 (bytes ''bin/ls'')" by code_simp
  moreover have "demo_table_mem 0x200000 \<noteq> 0 \<and> length (bytes ''ls'') < 252 \<and>
      cstr demo_table_mem (0x200000 + 4) (bytes ''ls'')" by code_simp
  ultimately show "entry_named demo_table_mem 0x200000 (bytes ''ls'')" unfolding entry_named_def by blast
  show "cstr demo_table_mem 0x1000 (bytes ''bin/ls'')" by code_simp
  show "load64 demo_table_mem (te_addr_hdr 0x200000) = 0x100200"
    by (simp add: demo_table_mem_def load64_def get_bytes_def upt_rec bytes_def)
qed

lemma demo_tarfs_frame [simp]:
  "next_frame demo_tarfs = 0x300000" "freelist_slot demo_tarfs = 0xFFFFFFFF80250000"
  by (simp_all add: next_frame_def freelist_slot_def demo_tarfs_def demo_keyboard_def demo_devices_def
      demo_user_def devices.defs user_paging.defs keyboard.defs)

theorem openfile_opens_witness:
  "\<exists>fd s'. openfile 0x1000 (demo_tarfs\<lparr>store := demo_table_mem\<rparr>) = Some (fd, s') \<and>
    fd = 0xFFFFFFFF80300000 \<and> load64 (store s') (f_address fd) = 0x100200 \<and>
    load32 (store s') (f_offset fd) = 0 \<and> cstr (store s') (f_filename fd) (bytes ''bin/ls'')"
proof -
  let ?s = "demo_tarfs\<lparr>store := demo_table_mem\<rparr>"
  have st: "store ?s = demo_table_mem" "tarfs_entry 0 ?s = 0x200000"
    by (simp_all add: tarfs_entry_def)
  have "next_frame ?s = next_frame demo_tarfs" "freelist_slot ?s = freelist_slot demo_tarfs"
    by (simp_all add: next_frame_def freelist_slot_def)
  then have fr: "next_frame ?s + VIRT_BASE = 0xFFFFFFFF80300000" "freelist_slot ?s = 0xFFFFFFFF80250000"
    by (simp_all only: demo_tarfs_frame) simp
  have split: "bytes ''bin/ls'' = bytes ''bin/'' @ bytes ''ls''" by (simp add: bytes_def)
  have "\<exists>fd s'. openfile 0x1000 ?s = Some (fd, s') \<and> fd = next_frame ?s + VIRT_BASE \<and>
    load64 (store s') (f_address fd) = load64 (store ?s) (te_addr_hdr (tarfs_entry 0 ?s)) \<and>
    load32 (store s') (f_offset fd) = 0 \<and> cstr (store s') (f_filename fd) (bytes ''bin/'' @ bytes ''ls'')"
  proof (rule openfile_opens [where names = "\<lambda>_. bytes ''ls''"])
    show "\<forall>j\<le>0. entry_named (store ?s) (tarfs_entry j ?s) (bytes ''ls'')"
      using demo_table_mem_reads(1) st by simp
    show "cstr (store ?s) 0x1000 (bytes ''bin/'' @ bytes ''ls'')"
      unfolding st split [symmetric] by (rule demo_table_mem_reads(2))
    show "apart ?s (tarfs_fs ?s) 28000" "apart ?s 0x1000 256"
      unfolding apart_def fr by (simp_all add: disjoint_regions_def)
  qed (simp_all add: bytes_def)
  then show ?thesis unfolding st fr demo_table_mem_reads split .
qed

end
