(* ===== verification/Cpu_Entry.thy ===== *)
theory Cpu_Entry
  imports Tarfs
begin

text \<open>
  The registers that assembly code saves and restores (\<open>cr2\<close> holds the address of the last page
  fault), and the interrupt entry code of
  \<open>sys/idt.s\<close>. A stub pushes the general registers, calls a C handler and pops them again; the
  saved registers are the \<open>struct regs\<close> that the handler sees. The processor's own part is modelled as it
  is documented: an interrupt switches to the kernel's stack when it comes from user mode, and pushes
  the five words that \<open>iretq\<close> pops. The return address of the call of a handler is not part of the model.
\<close>

section \<open>Registers and stack\<close>

datatype reg = RAX | RBX | RCX | RDX | RSI | RDI | RBP | R8 | R9 | R10 | R11 | R12 | R13 | R14 | R15

record cpu = tarfs +
  rsp :: u64
  cr2 :: u64
  gpr :: "reg \<Rightarrow> u64"
  rip :: u64
  flag_bits :: u64

text \<open>The registers are an enumeration, so that statements about all of them can be evaluated.\<close>

instantiation reg :: enum
begin

definition enum_reg :: "reg list" where
  "enum_reg = [RAX, RBX, RCX, RDX, RSI, RDI, RBP, R8, R9, R10, R11, R12, R13, R14, R15]"

definition enum_all_reg :: "(reg \<Rightarrow> bool) \<Rightarrow> bool" where
  "enum_all_reg P \<longleftrightarrow> list_all P enum_class.enum"

definition enum_ex_reg :: "(reg \<Rightarrow> bool) \<Rightarrow> bool" where
  "enum_ex_reg P \<longleftrightarrow> list_ex P enum_class.enum"

instance
proof
  have all: "r \<in> set enum_class.enum" for r :: reg by (cases r) (simp_all add: enum_reg_def)
  then show univ: "UNIV = set (enum_class.enum :: reg list)" by auto
  show "distinct (enum_class.enum :: reg list)" by (simp add: enum_reg_def)
  show "enum_class.enum_all P \<longleftrightarrow> Ball UNIV P" for P :: "reg \<Rightarrow> bool"
    unfolding enum_all_reg_def list_all_iff univ ..
  show "enum_class.enum_ex P \<longleftrightarrow> Bex UNIV P" for P :: "reg \<Rightarrow> bool"
    unfolding enum_ex_reg_def list_ex_iff univ ..
qed

end

definition push_val :: "u64 \<Rightarrow> 'a cpu_scheme \<Rightarrow> 'a cpu_scheme" where
  "push_val v s = s\<lparr>rsp := rsp s - 8, store := store64 (store s) (rsp s - 8) v\<rparr>"

definition push :: "reg \<Rightarrow> 'a cpu_scheme \<Rightarrow> 'a cpu_scheme" where
  "push r s = push_val (gpr s r) s"

definition pop :: "reg \<Rightarrow> 'a cpu_scheme \<Rightarrow> 'a cpu_scheme" where
  "pop r s = s\<lparr>rsp := rsp s + 8, gpr := (gpr s)(r := load64 (store s) (rsp s))\<rparr>"

definition mov :: "reg \<Rightarrow> u64 \<Rightarrow> 'a cpu_scheme \<Rightarrow> 'a cpu_scheme" where
  "mov r v s = s\<lparr>gpr := (gpr s)(r := v)\<rparr>"

definition cli :: "'a cpu_scheme \<Rightarrow> 'a cpu_scheme" where
  "cli s = s\<lparr>interrupts := False\<rparr>"

definition sti :: "'a cpu_scheme \<Rightarrow> 'a cpu_scheme" where
  "sti s = s\<lparr>interrupts := True\<rparr>"

section \<open>The processor's part of an interrupt\<close>

text \<open>The interrupt flag is bit 9 of the flags register; the field \<open>flag_bits\<close> holds the other bits.\<close>

definition rflags :: "'a cpu_scheme \<Rightarrow> u64" where
  "rflags s = (if interrupts s then set_bit 9 (flag_bits s) else unset_bit 9 (flag_bits s))"

definition set_rflags :: "u64 \<Rightarrow> 'a cpu_scheme \<Rightarrow> 'a cpu_scheme" where
  "set_rflags v s = s\<lparr>flag_bits := v, interrupts := bit v 9\<rparr>"

definition user_mode :: "'a cpu_scheme \<Rightarrow> bool" where
  "user_mode s \<longleftrightarrow> seg_cs s AND 3 = 3"

text \<open>The stack of an interrupt, aligned to 16 bytes.\<close>

definition interrupt_stack :: "'a cpu_scheme \<Rightarrow> u64" where
  "interrupt_stack s = (if user_mode s then tss_rsp0 s else rsp s) AND NOT 15"

text \<open>An interrupt gate of the kernel: selector 8, interrupts are disabled.\<close>

definition take_interrupt :: "u64 \<Rightarrow> 'a cpu_scheme \<Rightarrow> 'a cpu_scheme" where
  "take_interrupt handler s =
     (let t = fold push_val [seg_ss s, rsp s, rflags s, seg_cs s, rip s] (s\<lparr>rsp := interrupt_stack s\<rparr>)
      in t\<lparr>interrupts := False, rip := handler, seg_cs := 8, seg_ss := (if user_mode s then 0 else seg_ss s)\<rparr>)"

definition iretq :: "'a cpu_scheme \<Rightarrow> 'a cpu_scheme" where
  "iretq s = (let m = store s; p = rsp s
     in set_rflags (load64 m (p + 16))
       (s\<lparr>rip := load64 m p, seg_cs := load64 m (p + 8), rsp := load64 m (p + 24), seg_ss := load64 m (p + 32)\<rparr>))"

section \<open>sys/idt.s\<close>

text \<open>The fields of \<open>struct regs\<close> that the handlers read.\<close>

abbreviation (input) reg_int_no :: "u64 \<Rightarrow> u64" where
  "reg_int_no r \<equiv> r + 120"

abbreviation (input) reg_err_no :: "u64 \<Rightarrow> u64" where
  "reg_err_no r \<equiv> r + 128"

definition PUSHA :: "'a cpu_scheme \<Rightarrow> 'a cpu_scheme" where
  "PUSHA s = fold push [RDI, RAX, RBX, RCX, RDX, RBP, RSI, R8, R9, R10, R11, R12, R13, R14, R15] s"

definition POPA :: "'a cpu_scheme \<Rightarrow> 'a cpu_scheme" where
  "POPA s = fold pop [R15, R14, R13, R12, R11, R10, R9, R8, RSI, RBP, RDX, RCX, RBX, RAX, RDI] s"

text \<open>\<open>isr_coord\<close> up to the call of the handler and from there on.\<close>

definition isr_coord_enter :: "'a cpu_scheme \<Rightarrow> 'a cpu_scheme" where
  "isr_coord_enter s = (let s = PUSHA s in mov RDI (rsp s) s)"

definition isr_coord_leave :: "'a cpu_scheme \<Rightarrow> 'a cpu_scheme" where
  "isr_coord_leave s = (let s = POPA s in sti (s\<lparr>rsp := rsp s + 0x10\<rparr>))"

definition isr0_enter :: "'a cpu_scheme \<Rightarrow> 'a cpu_scheme" where
  "isr0_enter s = isr_coord_enter (push_val 0 (push_val 0 (cli s)))"

definition isr10_enter :: "'a cpu_scheme \<Rightarrow> 'a cpu_scheme" where
  "isr10_enter s = isr_coord_enter (push_val 10 (push_val 0 (cli s)))"

text \<open>For a page fault the processor has pushed the error code.\<close>

definition isr14_enter :: "'a cpu_scheme \<Rightarrow> 'a cpu_scheme" where
  "isr14_enter s = isr_coord_enter (push_val 14 (cli s))"

definition irq1_enter :: "'a cpu_scheme \<Rightarrow> 'a cpu_scheme" where
  "irq1_enter s = isr_coord_enter (push_val 0x21 (push_val 0 (cli s)))"

definition irq0_enter :: "'a cpu_scheme \<Rightarrow> 'a cpu_scheme" where
  "irq0_enter s = (let s = PUSHA (cli s) in mov RDI (rsp s) s)"

definition irq0_leave :: "'a cpu_scheme \<Rightarrow> 'a cpu_scheme" where
  "irq0_leave s = sti (POPA s)"

text \<open>The return path of a system call pops \<open>%r15\<close> twice and \<open>%rax\<close> not at all.\<close>

definition isr128_leave :: "'a cpu_scheme \<Rightarrow> 'a cpu_scheme" where
  "isr128_leave s = fold pop [R15, R15, R14, R13, R12, R11, R10, R9, R8, RSI, RBP, RDX, RCX, RBX, RDI] s"

section \<open>Frames on the stack\<close>

text \<open>The registers \<open>rs\<close> lie on the stack, the first one on top.\<close>

definition saved :: "reg list \<Rightarrow> (reg \<Rightarrow> u64) \<Rightarrow> memory \<Rightarrow> u64 \<Rightarrow> bool" where
  "saved rs g m p \<longleftrightarrow> (\<forall>i < length rs. load64 m (p + 8 * of_nat i) = g (rs ! i))"

lemma saved_Nil [simp]: "saved [] g m p"
  by (simp add: saved_def)

lemma saved_Cons: "saved (r # rs) g m p \<longleftrightarrow> load64 m p = g r \<and> saved rs g m (p + 8)"
  by (auto simp add: saved_def less_Suc_eq_0_disj algebra_simps)

lemma push_simps [simp]:
  "rsp (push r s) = rsp s - 8" "gpr (push r s) = gpr s"
  "store (push r s) = store64 (store s) (rsp s - 8) (gpr s r)"
  by (simp_all add: push_def push_val_def)

lemma push_val_reads:
  "load64 (store (push_val v s)) (rsp (push_val v s)) = v"
  "load64 (store (push_val v s)) (rsp (push_val v s) + 8) = load64 (store s) (rsp s)"
  by (simp_all add: push_val_def load64_store_disjoint disjoint_regions_def)

lemma pop_simps [simp]:
  "rsp (pop r s) = rsp s + 8" "store (pop r s) = store s"
  "gpr (pop r s) = (gpr s)(r := load64 (store s) (rsp s))"
  by (simp_all add: pop_def)

lemma saved_store:
  assumes "saved rs g m p" and "length rs < 2 ^ 32"
  shows "saved rs g (store64 m (p - 8) v) p"
  unfolding saved_def
proof (intro allI impI)
  fix i assume i: "i < length rs"
  have "disjoint_regions (p - 8 + of_nat 0) 8 (p - 8 + of_nat (8 + 8 * i)) 8"
    using i assms(2) by (intro disjoint_within) simp_all
  then have "disjoint_regions (p - 8) 8 (p + 8 * of_nat i) 8" by (simp add: algebra_simps)
  then show "load64 (store64 m (p - 8) v) (p + 8 * of_nat i) = g (rs ! i)"
    using assms(1) i by (simp add: saved_def load64_store_disjoint)
qed

lemma fold_push_simps [simp]:
  "rsp (fold push rs s) = rsp s - 8 * of_nat (length rs)" "gpr (fold push rs s) = gpr s"
  by (induction rs arbitrary: s) (simp_all add: algebra_simps)

lemma fold_push:
  "fold push rs s = s\<lparr>rsp := rsp s - 8 * of_nat (length rs), store := store (fold push rs s)\<rparr>"
proof (induction rs arbitrary: s)
  case (Cons r rs)
  show ?case by (simp, subst Cons.IH) (simp add: push_def push_val_def algebra_simps)
qed simp

lemma fold_push_saved:
  assumes "length rs < 2 ^ 32"
  shows "saved (rev rs) (gpr s) (store (fold push rs s)) (rsp s - 8 * of_nat (length rs))"
  using assms
proof (induction rs rule: rev_induct)
  case (snoc r rs)
  let ?t = "fold push rs s"
  have "saved (rev rs) (gpr s) (store64 (store ?t) (rsp ?t - 8) (gpr s r)) (rsp ?t)"
    using snoc by (intro saved_store) simp_all
  then show ?case by (simp add: saved_Cons algebra_simps)
qed simp

lemma fold_pop:
  assumes "saved rs g (store s) (rsp s)"
  shows "fold pop rs s = s\<lparr>rsp := rsp s + 8 * of_nat (length rs), gpr := fold (\<lambda>r f. f(r := g r)) rs (gpr s)\<rparr>"
  using assms
proof (induction rs arbitrary: s)
  case Nil
  then show ?case by simp
next
  case (Cons r rs)
  have pop: "pop r s = s\<lparr>rsp := rsp s + 8, gpr := (gpr s)(r := g r)\<rparr>"
    using Cons.prems by (simp add: pop_def saved_Cons)
  have "fold pop rs (pop r s) = (pop r s)\<lparr>rsp := rsp (pop r s) + 8 * of_nat (length rs),
      gpr := fold (\<lambda>r f. f(r := g r)) rs (gpr (pop r s))\<rparr>"
    using Cons.prems by (intro Cons.IH) (simp add: saved_Cons)
  then show ?case unfolding pop by (simp add: pop fun_upd_def algebra_simps)
qed

lemma saved_reads: "saved rs g m p \<Longrightarrow> i < length rs \<Longrightarrow> load64 m (p + 8 * of_nat i) = g (rs ! i)"
  by (simp add: saved_def)

text \<open>What lies above the stack pointer is not touched by a push.\<close>

definition same_above :: "u64 \<Rightarrow> memory \<Rightarrow> memory \<Rightarrow> bool" where
  "same_above p m m' \<longleftrightarrow> (\<forall>k < 2 ^ 32. m' (p + of_nat k) = m (p + of_nat k))"

lemma store64_below:
  assumes "0 < n" and "n < 2 ^ 32" and "k < 2 ^ 32"
  shows "store64 m (p - 8 * of_nat n) v (p + of_nat k) = m (p + of_nat k)"
proof -
  have "p + of_nat k - (p - 8 * of_nat n) = (of_nat (8 * n + k) :: u64)" by simp
  moreover have "unat (of_nat (8 * n + k) :: u64) = 8 * n + k" using assms by (intro unat_of_nat64) simp
  ultimately have "8 \<le> unat (p + of_nat k - (p - 8 * of_nat n))" using assms(1) by (simp only:)
  then show ?thesis by (rule store_outside(3))
qed

lemma fold_push_above:
  assumes "length rs < 2 ^ 32"
  shows "same_above (rsp s) (store s) (store (fold push rs s))"
  using assms
proof (induction rs rule: rev_induct)
  case Nil
  then show ?case by (simp add: same_above_def)
next
  case (snoc r rs)
  let ?t = "fold push rs s"
  have at: "store (fold push (rs @ [r]) s) = store64 (store ?t) (rsp s - 8 * of_nat (Suc (length rs))) (gpr s r)"
    by (simp add: algebra_simps)
  show ?case
    unfolding same_above_def at using snoc store64_below [of "Suc (length rs)"]
    by (simp add: same_above_def del: of_nat_Suc)
qed

abbreviation frame_regs :: "reg list" where
  "frame_regs \<equiv> [R15, R14, R13, R12, R11, R10, R9, R8, RSI, RBP, RDX, RCX, RBX, RAX, RDI]"

lemma PUSHA_frame:
  "rsp (PUSHA s) = rsp s - 120" "gpr (PUSHA s) = gpr s"
  "saved frame_regs (gpr s) (store (PUSHA s)) (rsp s - 120)"
  "same_above (rsp s) (store s) (store (PUSHA s))"
proof -
  let ?rs = "[RDI, RAX, RBX, RCX, RDX, RBP, RSI, R8, R9, R10, R11, R12, R13, R14, R15]"
  show "rsp (PUSHA s) = rsp s - 120" "gpr (PUSHA s) = gpr s"
    unfolding PUSHA_def fold_push_simps by simp_all
  show "saved frame_regs (gpr s) (store (PUSHA s)) (rsp s - 120)"
    unfolding PUSHA_def using fold_push_saved [of ?rs s] by simp
  show "same_above (rsp s) (store s) (store (PUSHA s))"
    unfolding PUSHA_def using fold_push_above [of ?rs s] by simp
qed

lemma fold_frame_regs: "fold (\<lambda>r f. f(r := g r)) frame_regs f = g"
proof
  show "fold (\<lambda>r f. f(r := g r)) frame_regs f r = g r" for r by (cases r) simp_all
qed

lemma POPA_restores:
  assumes "saved frame_regs g (store s) (rsp s)"
  shows "POPA s = s\<lparr>rsp := rsp s + 120, gpr := g\<rparr>"
  unfolding POPA_def fold_pop [OF assms] fold_frame_regs by simp

lemma saved_bytes:
  assumes "saved rs g m p" and "get_bytes m' p (8 * length rs) = get_bytes m p (8 * length rs)"
  shows "saved rs g m' p"
  unfolding saved_def
proof (intro allI impI)
  fix i assume i: "i < length rs"
  have "load64 m' (p + 8 * of_nat i) = load64 m (p + 8 * of_nat i)"
  proof (rule load64_cong)
    fix j :: nat assume "j < 8"
    then have "8 * i + j < 8 * length rs" using i by simp
    then have "m' (p + of_nat (8 * i + j)) = m (p + of_nat (8 * i + j))"
      using arg_cong [OF assms(2), of "\<lambda>bs. bs ! (8 * i + j)"] by simp
    then show "m' (p + 8 * of_nat i + of_nat j) = m (p + 8 * of_nat i + of_nat j)"
      by (simp add: add.assoc)
  qed
  then show "load64 m' (p + 8 * of_nat i) = g (rs ! i)" using assms(1) i by (simp add: saved_def)
qed

lemma fold_push_val_rsp [simp]: "rsp (fold push_val vs s) = rsp s - 8 * of_nat (length vs)"
proof (induction vs arbitrary: s)
  case (Cons v vs)
  then show ?case using Cons.IH [of "push_val v s"] by (simp add: push_val_def)
qed simp

lemma fold_push_val_outside:
  assumes "disjoint_regions (rsp s - 8 * of_nat (length vs)) (8 * length vs) q n" and "length vs < 2 ^ 32"
  shows "get_bytes (store (fold push_val vs s)) q n = get_bytes (store s) q n"
  using assms
proof (induction vs rule: rev_induct)
  case (snoc v vs)
  let ?t = "fold push_val vs s"
  let ?p = "rsp s - 8 * of_nat (length (vs @ [v]))"
  have dis: "disjoint_regions q n ?p (8 * Suc (length vs))"
    using disjoint_regions_sym [THEN iffD1, OF snoc.prems(1)] by simp
  have below: "rsp s - 8 * of_nat (length vs) = ?p + of_nat 8" by simp
  have "disjoint_regions (rsp s - 8 * of_nat (length vs)) (8 * length vs) q n" if "vs \<noteq> []"
    unfolding below using disjoint_sub [OF dis, of 8 "8 * length vs"] that
    by (subst disjoint_regions_sym) simp
  then have "get_bytes (store ?t) q n = get_bytes (store s) q n"
    using snoc by (cases "vs = []") simp_all
  moreover have "disjoint_regions (rsp ?t - 8) 8 q n"
    using disjoint_sub [OF dis, of 0 8] by (subst disjoint_regions_sym) (simp add: algebra_simps)
  moreover have "store (push_val v ?t) = store64 (store ?t) (rsp ?t - 8) v" by (simp add: push_val_def)
  ultimately show ?case by (simp add: store64_def get_put_disjoint)
qed simp

lemma fold_push_vals: "fold push rs s = fold push_val (map (gpr s) rs) s"
proof (induction rs arbitrary: s)
  case (Cons r rs)
  have "gpr (push_val v s) = gpr s" for v by (simp add: push_val_def)
  then show ?case using Cons.IH [of "push r s"] by (simp add: push_def)
qed simp

lemma fold_push_outside:
  assumes "disjoint_regions (rsp s - 8 * of_nat (length rs)) (8 * length rs) q n" and "length rs < 2 ^ 32"
  shows "get_bytes (store (fold push rs s)) q n = get_bytes (store s) q n"
  unfolding fold_push_vals using assms by (intro fold_push_val_outside) simp_all

text \<open>The five words of the processor's frame hold what the interrupted code goes on with.\<close>

definition hw_frame :: "'b cpu_scheme \<Rightarrow> memory \<Rightarrow> u64 \<Rightarrow> bool" where
  "hw_frame s m p \<longleftrightarrow> load64 m p = rip s \<and> load64 m (p + 8) = seg_cs s \<and> load64 m (p + 16) = rflags s \<and>
     load64 m (p + 24) = rsp s \<and> load64 m (p + 32) = seg_ss s"

definition resumes :: "'b cpu_scheme \<Rightarrow> 'a cpu_scheme \<Rightarrow> bool" where
  "resumes s t \<longleftrightarrow> rip t = rip s \<and> seg_cs t = seg_cs s \<and> seg_ss t = seg_ss s \<and> rsp t = rsp s \<and> rflags t = rflags s"

lemma rflags_simps [simp]:
  "rflags (s\<lparr>store := m\<rparr>) = rflags s" "rflags (s\<lparr>rsp := p\<rparr>) = rflags s" "rflags (s\<lparr>gpr := g\<rparr>) = rflags s"
  "rflags (set_rflags v s) = v"
proof -
  show "rflags (set_rflags v s) = v"
    by (rule bit_word_eqI) (auto simp add: rflags_def set_rflags_def bit_set_bit_iff bit_unset_bit_iff)
qed (simp_all add: rflags_def)

lemma iretq_resumes:
  assumes "hw_frame s (store t) (rsp t)"
  shows "resumes s (iretq t)" "gpr (iretq t) = gpr t" "store (iretq t) = store t"
  using assms by (simp_all add: hw_frame_def resumes_def iretq_def Let_def set_rflags_def rflags_def
      bit_word_eqI bit_set_bit_iff bit_unset_bit_iff split: if_splits)

lemma get_bytes_part:
  assumes "get_bytes m' p k = get_bytes m p k" and "i + n \<le> k"
  shows "get_bytes m' (p + of_nat i) n = get_bytes m (p + of_nat i) n"
proof (rule nth_equalityI)
  fix j assume "j < length (get_bytes m' (p + of_nat i) n)"
  then have "i + j < k" "j < n" using assms(2) by simp_all
  then show "get_bytes m' (p + of_nat i) n ! j = get_bytes m (p + of_nat i) n ! j"
    using arg_cong [OF assms(1), of "\<lambda>bs. bs ! (i + j)"] by (simp add: add.assoc)
qed simp

lemma load64_part:
  assumes "get_bytes m' p k = get_bytes m p k" and "i + 8 \<le> k"
  shows "load64 m' (p + of_nat i) = load64 m (p + of_nat i)"
  using get_bytes_part [OF assms] by (simp add: load64_def)

lemma hw_frame_bytes:
  assumes "hw_frame s m p" and "get_bytes m' p 40 = get_bytes m p 40"
  shows "hw_frame s m' p"
  using assms(1) load64_part [OF assms(2), of 0] load64_part [OF assms(2), of 8] load64_part [OF assms(2), of 16]
    load64_part [OF assms(2), of 24] load64_part [OF assms(2), of 32]
  by (simp add: hw_frame_def)

lemma same_above_bytes: "same_above p m m' \<Longrightarrow> k < 2 ^ 32 \<Longrightarrow> get_bytes m' p k = get_bytes m p k"
  by (rule nth_equalityI) (simp_all add: same_above_def)

lemma take_interrupt_frame:
  "rsp (take_interrupt h s) = interrupt_stack s - 40" "gpr (take_interrupt h s) = gpr s"
  "hw_frame s (store (take_interrupt h s)) (interrupt_stack s - 40)"
  "\<exists>m. take_interrupt h s = s\<lparr>rsp := interrupt_stack s - 40, store := m, interrupts := False, rip := h, seg_cs := 8,
     seg_ss := (if user_mode s then 0 else seg_ss s)\<rparr>"
  by (simp_all add: take_interrupt_def push_val_def hw_frame_def load64_store_disjoint disjoint_regions_def)
    blast

lemma take_interrupt_outside:
  assumes "disjoint_regions (interrupt_stack s - 40) 40 q n"
  shows "get_bytes (store (take_interrupt h s)) q n = get_bytes (store s) q n"
proof -
  let ?vs = "[seg_ss s, rsp s, rflags s, seg_cs s, rip s]"
  have "store (take_interrupt h s) = store (fold push_val ?vs (s\<lparr>rsp := interrupt_stack s\<rparr>))"
    by (simp add: take_interrupt_def)
  then show ?thesis using fold_push_val_outside [of "s\<lparr>rsp := interrupt_stack s\<rparr>" ?vs q n] assms by simp
qed

section \<open>Interrupts that the interrupted code does not notice\<close>

text \<open>
  What the entry code relies on in a handler: in the states \<open>ok\<close> it gives the stack pointer back and
  leaves the frame alone, the saved registers, the two words of the stub and the five of the processor.
\<close>

locale frame_keeping =
  fixes ok :: "'a cpu_scheme \<Rightarrow> bool" and handler :: "'a cpu_scheme \<Rightarrow> 'a cpu_scheme"
  assumes keeps_rsp: "ok s \<Longrightarrow> rsp (handler s) = rsp s"
    and keeps_frame: "ok s \<Longrightarrow> get_bytes (store (handler s)) (rsp s) 176 = get_bytes (store s) (rsp s) 176"
begin

lemma leave_restores:
  assumes "ok (isr_coord_enter s)"
  shows "isr_coord_leave (handler (isr_coord_enter s)) =
    (handler (isr_coord_enter s))\<lparr>rsp := rsp s + 16, gpr := gpr s, interrupts := True\<rparr>"
proof -
  let ?t = "isr_coord_enter s"
  have t: "rsp ?t = rsp s - 120" "store ?t = store (PUSHA s)"
    by (simp_all add: isr_coord_enter_def Let_def mov_def PUSHA_frame)
  have frame: "saved frame_regs (gpr s) (store ?t) (rsp ?t)" unfolding t by (rule PUSHA_frame)
  have "saved frame_regs (gpr s) (store (handler ?t)) (rsp ?t)"
    using get_bytes_part [OF keeps_frame [OF assms], of 0 120] by (intro saved_bytes [OF frame]) simp
  then have "POPA (handler ?t) = (handler ?t)\<lparr>rsp := rsp (handler ?t) + 120, gpr := gpr s\<rparr>"
    using keeps_rsp [OF assms] by (intro POPA_restores) simp
  then show ?thesis
    using keeps_rsp [OF assms] t(1) by (simp add: isr_coord_leave_def Let_def sti_def)
qed

text \<open>With the processor's frame above the two words of the stub, \<open>iretq\<close> resumes the interrupted code.\<close>

lemma interrupted_code_resumes:
  assumes "ok (isr_coord_enter s)" and "hw_frame s0 (store s) (rsp s + 16)"
  shows "resumes s0 (iretq (isr_coord_leave (handler (isr_coord_enter s))))"
    and "gpr (iretq (isr_coord_leave (handler (isr_coord_enter s)))) = gpr s"
proof -
  let ?t = "isr_coord_enter s" and ?u = "isr_coord_leave (handler (isr_coord_enter s))"
  have t: "rsp ?t = rsp s - 120" "store ?t = store (PUSHA s)"
    by (simp_all add: isr_coord_enter_def Let_def mov_def PUSHA_frame)
  have "get_bytes (store ?t) (rsp s) 56 = get_bytes (store s) (rsp s) 56"
    unfolding t using PUSHA_frame(4) [of s] by (intro same_above_bytes) simp_all
  moreover have "get_bytes (store (handler ?t)) (rsp s) 56 = get_bytes (store ?t) (rsp s) 56"
    using get_bytes_part [OF keeps_frame [OF assms(1)], of 120 56] t(1) by simp
  ultimately have "get_bytes (store (handler ?t)) (rsp s) 56 = get_bytes (store s) (rsp s) 56" by simp
  from get_bytes_part [OF this, of 16 40]
  have "hw_frame s0 (store (handler ?t)) (rsp s + 16)" by (intro hw_frame_bytes [OF assms(2)]) simp
  then have "hw_frame s0 (store ?u) (rsp ?u)" unfolding leave_restores [OF assms(1)] by simp
  from iretq_resumes [OF this] show "resumes s0 (iretq ?u)" "gpr (iretq ?u) = gpr s"
    unfolding leave_restores [OF assms(1)] by simp_all
qed

end

lemma isr_coord_enter_reads:
  "load64 (store (isr_coord_enter t)) (reg_int_no (rsp (isr_coord_enter t))) = load64 (store t) (rsp t)"
  "load64 (store (isr_coord_enter t)) (reg_err_no (rsp (isr_coord_enter t))) = load64 (store t) (rsp t + 8)"
proof -
  have same: "store (PUSHA t) (rsp t + of_nat k) = store t (rsp t + of_nat k)" if "k < 2 ^ 32" for k
    using PUSHA_frame(4) [of t] that by (simp add: same_above_def)
  have "load64 (store (PUSHA t)) (rsp t) = load64 (store t) (rsp t)"
    by (rule load64_cong) (simp add: same)
  moreover have "load64 (store (PUSHA t)) (rsp t + 8) = load64 (store t) (rsp t + 8)"
  proof (rule load64_cong)
    fix i :: nat assume "i < 8"
    then show "store (PUSHA t) (rsp t + 8 + of_nat i) = store t (rsp t + 8 + of_nat i)"
      using same [of "8 + i"] by (simp add: add.assoc)
  qed
  ultimately show
    "load64 (store (isr_coord_enter t)) (reg_int_no (rsp (isr_coord_enter t))) = load64 (store t) (rsp t)"
    "load64 (store (isr_coord_enter t)) (reg_err_no (rsp (isr_coord_enter t))) = load64 (store t) (rsp t + 8)"
    by (simp_all add: isr_coord_enter_def Let_def mov_def PUSHA_frame add.commute)
qed

text \<open>C32. The four stubs that go through \<open>isr_coord\<close> hand their vector number to the handler in the field \<open>int_no\<close> of the
  saved registers, and an error code in \<open>err_no\<close>: for a page fault the one that the processor has pushed, and 0
  for the others. The stubs of the timer and of the system calls have handlers of their own and push neither:
  there the saved registers lie directly on the processor's frame.\<close>

theorem stub_vectors:
  "load64 (store (isr0_enter s)) (reg_int_no (rsp (isr0_enter s))) = 0 \<and>
   load64 (store (isr10_enter s)) (reg_int_no (rsp (isr10_enter s))) = 10 \<and>
   load64 (store (isr14_enter s)) (reg_int_no (rsp (isr14_enter s))) = 14 \<and>
   load64 (store (irq1_enter s)) (reg_int_no (rsp (irq1_enter s))) = 33 \<and>
   load64 (store (isr0_enter s)) (reg_err_no (rsp (isr0_enter s))) = 0 \<and>
   load64 (store (isr10_enter s)) (reg_err_no (rsp (isr10_enter s))) = 0 \<and>
   load64 (store (irq1_enter s)) (reg_err_no (rsp (irq1_enter s))) = 0 \<and>
   load64 (store (isr14_enter s)) (reg_err_no (rsp (isr14_enter s))) = load64 (store s) (rsp s) \<and>
   rsp (irq0_enter s) = rsp s - 120 \<and> gpr (irq0_enter s) RDI = rsp s - 120 \<and>
   saved frame_regs (gpr s) (store (irq0_enter s)) (rsp s - 120) \<and>
   rsp (PUSHA s) = rsp s - 120 \<and> saved frame_regs (gpr s) (store (PUSHA s)) (rsp s - 120)"
proof -
  have "rsp (irq0_enter s) = rsp s - 120" "gpr (irq0_enter s) RDI = rsp s - 120"
    "saved frame_regs (gpr s) (store (irq0_enter s)) (rsp s - 120)"
    using PUSHA_frame [of "cli s"] by (simp_all add: irq0_enter_def Let_def mov_def cli_def)
  then show ?thesis
    using PUSHA_frame [of s]
    unfolding isr0_enter_def isr10_enter_def isr14_enter_def irq1_enter_def isr_coord_enter_reads push_val_reads
    by (simp add: cli_def)
qed

text \<open>C33. The return from a system call pops one register too early: apart from \<open>%rdi\<close> and \<open>%rax\<close>,
  every register receives the saved value of its neighbour. In particular the caller's frame pointer
  \<open>%rbp\<close> comes back as its third argument \<open>%rdx\<close>, and \<open>%rbx\<close> as the number of the call.\<close>

theorem isr128_shifts_registers:
  assumes "saved frame_regs g (store s) (rsp s)"
  shows "isr128_leave s = s\<lparr>rsp := rsp s + 120,
    gpr := g(RAX := gpr s RAX, RBX := g RAX, RCX := g RBX, RDX := g RCX, RBP := g RDX, RSI := g RBP,
      R8 := g RSI, R9 := g R8, R10 := g R9, R11 := g R10, R12 := g R11, R13 := g R12, R14 := g R13,
      R15 := g R14)\<rparr>"
proof -
  let ?rs = "[R15, R14, R13, R12, R11, R10, R9, R8, RSI, RBP, RDX, RCX, RBX, RDI]"
  let ?f = "\<lambda>r. case r of RAX \<Rightarrow> gpr s RAX | RBX \<Rightarrow> g RAX | RCX \<Rightarrow> g RBX | RDX \<Rightarrow> g RCX | RSI \<Rightarrow> g RBP
    | RDI \<Rightarrow> g RDI | RBP \<Rightarrow> g RDX | R8 \<Rightarrow> g RSI | R9 \<Rightarrow> g R8 | R10 \<Rightarrow> g R9 | R11 \<Rightarrow> g R10 | R12 \<Rightarrow> g R11
    | R13 \<Rightarrow> g R12 | R14 \<Rightarrow> g R13 | R15 \<Rightarrow> g R14"
  have rest: "saved ?rs ?f (store (pop R15 s)) (rsp (pop R15 s))"
    using assms by (simp add: saved_Cons)
  have regs: "fold (\<lambda>r f. f(r := ?f r)) ?rs h = ?f" if "h RAX = gpr s RAX" for h
  proof
    show "fold (\<lambda>r f. f(r := ?f r)) ?rs h r = ?f r" for r using that by (cases r) simp_all
  qed
  have "fold pop (R15 # ?rs) s = fold pop ?rs (pop R15 s)" by (simp only: fold_Cons o_apply)
  then have "isr128_leave s = (pop R15 s)\<lparr>rsp := rsp (pop R15 s) + 8 * of_nat (length ?rs), gpr := ?f\<rparr>"
    unfolding isr128_leave_def fold_pop [OF rest] using regs by simp
  moreover have "?f = g(RAX := gpr s RAX, RBX := g RAX, RCX := g RBX, RDX := g RCX, RBP := g RDX,
      RSI := g RBP, R8 := g RSI, R9 := g R8, R10 := g R9, R11 := g R10, R12 := g R11, R13 := g R12,
      R14 := g R13, R15 := g R14)" (is "_ = ?g")
  proof
    show "?f r = ?g r" for r by (cases r) simp_all
  qed
  moreover have "(pop R15 s)\<lparr>rsp := rsp (pop R15 s) + 8 * of_nat (length ?rs), gpr := h\<rparr> =
      s\<lparr>rsp := rsp s + 120, gpr := h\<rparr>" for h by (simp add: pop_def)
  ultimately show ?thesis by (simp only:)
qed

definition demo_cpu :: cpu where
  "demo_cpu = tarfs.extend demo_tarfs \<lparr>rsp = 0xFFFFFFFF80240000, cr2 = 0, gpr = (\<lambda>_. 0),
      rip = 0x401000, flag_bits = 2\<rparr>"

theorem isr128_shifts_registers_witness:
  "gpr (isr128_leave (demo_cpu\<lparr>store := store64 (\<lambda>_. 0) 0xFFFFFFFF80240050 9\<rparr>)) RBP = 9"
proof -
  let ?m = "store64 (\<lambda>_. 0) 0xFFFFFFFF80240050 9" and ?g = "\<lambda>r. if r = RDX then 9 else (0 :: u64)"
  have zero: "load64 (\<lambda>_. 0) a = 0" for a by (simp add: load64_zero)
  have "saved frame_regs ?g ?m 0xFFFFFFFF80240000"
    by (simp add: saved_Cons load64_store_disjoint disjoint_regions_def zero)
  then have "saved frame_regs ?g (store (demo_cpu\<lparr>store := ?m\<rparr>)) (rsp (demo_cpu\<lparr>store := ?m\<rparr>))"
    by (simp add: demo_cpu_def tarfs.defs)
  from isr128_shifts_registers [OF this] show ?thesis by simp
qed

end
