(* ===== verification/Processes.thy ===== *)
theory Processes
  imports Cpu_Entry
begin

text \<open>
  Processes (\<open>sys/process.c\<close>, \<open>sys/pcb_init.c\<close>, \<open>sys/process_helpers.c\<close>,
  \<open>sys/kernel_switch_ops.c\<close>, \<open>sys/swtch_to_ring3.c\<close> and \<open>enter_usermode\<close> of \<open>sys/sysinit.c\<close>).
  Process control blocks, their memory areas and the two queues live in the byte store and are
  accessed at the offsets of the C structures; an assignment of a whole structure is a copy of its
  bytes.

  Some operations end with a jump instead of a return: to user code, through an address taken from
  the kernel stack, or by raising an interrupt. Such an operation delivers an outcome. The statements
  of an operation take effect in the order of the source; the frames of the C calls themselves are
  not part of the store.
\<close>

section \<open>Layouts\<close>

datatype proc_state_t = WAIT | SLEEPING | READY | RUNNING | DEAD | ZOMBIE

fun state_code :: "proc_state_t \<Rightarrow> u32" where
  "state_code WAIT = 0"
| "state_code SLEEPING = 1"
| "state_code READY = 2"
| "state_code RUNNING = 3"
| "state_code DEAD = 4"
| "state_code ZOMBIE = 5"

abbreviation NUM_PROCS :: u64 where
  "NUM_PROCS \<equiv> 64"

abbreviation STACK_SIZE :: u64 where
  "STACK_SIZE \<equiv> 256"

text \<open>\<open>struct vm_area_struct\<close> and \<open>struct mm_struct\<close>; \<open>mmap\<close> is at offset 0.\<close>

abbreviation sizeof_vma :: u64 where
  "sizeof_vma \<equiv> 72"

abbreviation (input) vm_start :: "u64 \<Rightarrow> u64" where
  "vm_start vm \<equiv> vm + 8"

abbreviation (input) vm_end :: "u64 \<Rightarrow> u64" where
  "vm_end vm \<equiv> vm + 16"

abbreviation (input) vm_mmsz :: "u64 \<Rightarrow> u64" where
  "vm_mmsz vm \<equiv> vm + 24"

abbreviation (input) vm_flags :: "u64 \<Rightarrow> u64" where
  "vm_flags vm \<equiv> vm + 32"

abbreviation (input) vm_file :: "u64 \<Rightarrow> u64" where
  "vm_file vm \<equiv> vm + 48"

abbreviation (input) vm_next :: "u64 \<Rightarrow> u64" where
  "vm_next vm \<equiv> vm + 56"

abbreviation (input) vm_offset :: "u64 \<Rightarrow> u64" where
  "vm_offset vm \<equiv> vm + 64"

abbreviation (input) mm_count :: "u64 \<Rightarrow> u64" where
  "mm_count mm \<equiv> mm + 16"

abbreviation sizeof_mm :: u64 where
  "sizeof_mm \<equiv> 168"

text \<open>\<open>struct task_struct\<close>; \<open>pid\<close> is at offset 0.\<close>

abbreviation sizeof_task :: u64 where
  "sizeof_task \<equiv> 4400"

abbreviation (input) t_ppid :: "u64 \<Rightarrow> u64" where
  "t_ppid p \<equiv> p + 8"

abbreviation (input) t_pname :: "u64 \<Rightarrow> u64" where
  "t_pname p \<equiv> p + 16"

abbreviation (input) t_kstack :: "u64 \<Rightarrow> u64 \<Rightarrow> u64" where
  "t_kstack p i \<equiv> p + 32 + 8 * i"

abbreviation (input) t_state :: "u64 \<Rightarrow> u64" where
  "t_state p \<equiv> p + 4128"

abbreviation (input) t_ctx_rsp :: "u64 \<Rightarrow> u64" where
  "t_ctx_rsp p \<equiv> p + 4292"

abbreviation (input) t_wait_pid :: "u64 \<Rightarrow> u64" where
  "t_wait_pid p \<equiv> p + 4320"

abbreviation (input) t_stack :: "u64 \<Rightarrow> u64" where
  "t_stack p \<equiv> p + 4336"

abbreviation (input) t_pml4e :: "u64 \<Rightarrow> u64" where
  "t_pml4e p \<equiv> p + 4344"

abbreviation (input) t_cr3 :: "u64 \<Rightarrow> u64" where
  "t_cr3 p \<equiv> p + 4352"

abbreviation (input) t_exit_status :: "u64 \<Rightarrow> u64" where
  "t_exit_status p \<equiv> p + 4368"

abbreviation (input) t_sleep_time :: "u64 \<Rightarrow> u64" where
  "t_sleep_time p \<equiv> p + 4372"

abbreviation (input) t_entry :: "u64 \<Rightarrow> u64" where
  "t_entry p \<equiv> p + 4376"

abbreviation (input) t_mm :: "u64 \<Rightarrow> u64" where
  "t_mm p \<equiv> p + 4384"

abbreviation (input) t_heap_vma :: "u64 \<Rightarrow> u64" where
  "t_heap_vma p \<equiv> p + 4392"

text \<open>\<open>struct PCB\<close>: \<open>kstack\<close> is at offset 0 and \<open>c_t\<close> right behind it.\<close>

abbreviation (input) k_stack :: "u64 \<Rightarrow> u64 \<Rightarrow> u64" where
  "k_stack p i \<equiv> p + 8 * i"

abbreviation (input) k_rip :: "u64 \<Rightarrow> u64" where
  "k_rip p \<equiv> p + 2048"

abbreviation (input) k_rsp :: "u64 \<Rightarrow> u64" where
  "k_rsp p \<equiv> p + 2056"

abbreviation (input) k_pid :: "u64 \<Rightarrow> u64" where
  "k_pid p \<equiv> p + 2064"

abbreviation (input) k_state :: "u64 \<Rightarrow> u64" where
  "k_state p \<equiv> p + 2072"

abbreviation (input) k_exit_status :: "u64 \<Rightarrow> u64" where
  "k_exit_status p \<equiv> p + 2076"

abbreviation (input) k_next :: "u64 \<Rightarrow> u64" where
  "k_next p \<equiv> p + 2080"

text \<open>The globals. The arrays \<open>zombies\<close>, \<open>zombie_queue\<close> and \<open>ready_queue\<close> are given by their
  addresses, as are the string literal \<open>"bin/sbush"\<close>, the local arrays of \<open>exec\<close> and the functions
  that run as kernel threads.\<close>

record process = cpu +
  child_pid :: u32
  p_id :: u16
  ready_procs :: u16
  upid :: u16
  zombies :: u64
  process_count :: u16
  zom_count :: u16
  zombie_queue :: u64
  ready_queue :: u64
  global_child :: u64
  proc_count_in_list :: u16
  idx_pcb :: u16
  processes :: u64
  curr_upcb :: u64
  shell_pcb :: u64
  first_boot :: bool
  tick :: u32
  boot_done :: bool
  str_sbush :: u64
  pathname_buf :: u64
  tmp_arg_buf :: u64
  idle_fn :: u64
  init_entry_fn :: u64

definition ready_slot :: "u64 \<Rightarrow> 'a process_scheme \<Rightarrow> u64" where
  "ready_slot i s = ready_queue s + i * sizeof_task"

definition zombie_slot :: "u64 \<Rightarrow> 'a process_scheme \<Rightarrow> u64" where
  "zombie_slot i s = zombie_queue s + i * sizeof_task"

text \<open>The assignment of one \<open>struct task_struct\<close> to another.\<close>

definition copy_task :: "memory \<Rightarrow> u64 \<Rightarrow> u64 \<Rightarrow> memory" where
  "copy_task m dst src = put_bytes m dst (get_bytes m src (unat sizeof_task))"

text \<open>How an operation ends: it returns, or control goes elsewhere.\<close>

datatype control = To_User u64 u64 | To_Code u64 | Interrupt u8

datatype 'a outcome = Returned 'a | Jumped control

definition continue ::
  "('a outcome \<times> 's) option \<Rightarrow> ('a \<Rightarrow> 's \<Rightarrow> ('b outcome \<times> 's) option) \<Rightarrow> ('b outcome \<times> 's) option" where
  "continue r f =
     (case r of
        None \<Rightarrow> None
      | Some (Returned a, s) \<Rightarrow> f a s
      | Some (Jumped c, s) \<Rightarrow> Some (Jumped c, s))"

lemma continue_simps [simp]:
  "continue None f = None"
  "continue (Some (Returned a, s)) f = f a s"
  "continue (Some (Jumped c, s)) f = Some (Jumped c, s)"
  by (simp_all add: continue_def)

section \<open>sys/kernel\_switch\_ops.c, sys/swtch\_to\_ring3.c and the entry to user mode\<close>

definition load_krsp :: "'a process_scheme \<Rightarrow> 'a process_scheme" where
  "load_krsp s = s\<lparr>rsp := load64 (store s) (k_rsp (processes s)), cr3 := pml4_shared s - VIRT_BASE\<rparr>"

text \<open>The frame of an interrupt that never happened: \<open>iretq\<close> pops it and enters user mode. \<open>pushf\<close> and
  \<open>pop\<close> use the word that the next push overwrites.\<close>

definition user_frame :: "u64 \<Rightarrow> u64 \<Rightarrow> 'a process_scheme \<Rightarrow> 'a process_scheme" where
  "user_frame function stack s =
     (let s = mov RAX 0x23 (mov RBX stack (cli s));
          s = s\<lparr>seg_ds := gpr s RAX, seg_es := gpr s RAX, seg_gs := gpr s RAX\<rparr>;
          s = push RBX (push_val 0x23 s);
          s = mov RAX (rflags s OR 0x200) s
      in sti (push_val function (push_val 0x2B (push RAX s))))"

definition jmp_usrmode ::
  "u64 \<Rightarrow> u64 \<Rightarrow> 'a process_scheme \<Rightarrow> ('b outcome \<times> 'a process_scheme) option" where
  "jmp_usrmode function stack s = Some (Jumped (To_User function stack), iretq (user_frame function stack s))"

text \<open>The frame leads to the entry point on the given stack, in user mode and with interrupts enabled, and only
  the 40 bytes below the stack pointer are written.\<close>

lemma user_frame_words:
  "rsp (user_frame f p s) = rsp s - 40"
  "load64 (store (user_frame f p s)) (rsp s - 40) = f"
  "load64 (store (user_frame f p s)) (rsp s - 32) = 0x2B"
  "load64 (store (user_frame f p s)) (rsp s - 24) = unset_bit 9 (flag_bits s) OR 0x200"
  "load64 (store (user_frame f p s)) (rsp s - 16) = p"
  "load64 (store (user_frame f p s)) (rsp s - 8) = 0x23"
  by (simp_all add: user_frame_def Let_def push_def push_val_def mov_def cli_def sti_def rflags_def
      load64_store_disjoint disjoint_regions_def)

lemma user_frame_outside:
  assumes "disjoint_regions (rsp s - 40) 40 q n" and "0 < n"
  shows "get_bytes (store (user_frame f p s)) q n = get_bytes (store s) q n"
proof -
  have "disjoint_regions (rsp s - 40 + of_nat i) 8 q n" if "i + 8 \<le> 40" for i
    using disjoint_subs [OF assms(1), of i 8 0 n] that assms(2) by simp
  from this [of 0] this [of 8] this [of 16] this [of 24] this [of 32] show ?thesis
    by (simp add: user_frame_def Let_def push_def push_val_def mov_def cli_def sti_def store64_def get_put_disjoint)
qed

lemma user_frame_same: "gdt (user_frame f p s) = gdt s"
  by (simp add: user_frame_def push_def push_val_def mov_def cli_def sti_def Let_def)

definition enter_usermode ::
  "u64 \<Rightarrow> u64 \<Rightarrow> 'a process_scheme \<Rightarrow> ('b outcome \<times> 'a process_scheme) option" where
  "enter_usermode user_entry stack s = do {
     s' \<leftarrow> (if first_boot s
           then kprintf (bytes ''sbush> '') [] ((clear_screen s)\<lparr>first_boot := False\<rparr>) else Some s);
     jmp_usrmode user_entry stack s'
   }"

text \<open>\<open>pop %rbx\<close>, \<open>pop %rax\<close>, \<open>jmp *%rax\<close>.\<close>

definition pop_and_jump :: "'a process_scheme \<Rightarrow> ('b outcome \<times> 'a process_scheme) option" where
  "pop_and_jump s = (let s = pop RAX (pop RBX s) in Some (Jumped (To_Code (gpr s RAX)), s))"

section \<open>sys/process\_helpers.c\<close>

definition set_state :: "u64 \<Rightarrow> proc_state_t \<Rightarrow> 'a process_scheme \<Rightarrow> 'a process_scheme" where
  "set_state p st s = s\<lparr>store := store32 (store s) (t_state p) (state_code st)\<rparr>"

definition set_kstate :: "u64 \<Rightarrow> proc_state_t \<Rightarrow> 'a process_scheme \<Rightarrow> 'a process_scheme" where
  "set_kstate p st s = s\<lparr>store := store32 (store s) (k_state p) (state_code st)\<rparr>"

partial_function (option) ring_last :: "memory \<Rightarrow> u64 \<Rightarrow> u64 \<Rightarrow> u64 option" where
  "ring_last m head p = (if load64 m (k_next p) \<noteq> head then ring_last m head (load64 m (k_next p)) else Some p)"

definition move_to_end :: "u64 \<Rightarrow> 'a process_scheme \<Rightarrow> 'a process_scheme option" where
  "move_to_end pcb s =
     (let head = processes s;
          s1 = (if load32 (store s) (k_state pcb) \<noteq> state_code READY then set_kstate pcb READY s else s)
      in if processes s1 = load64 (store s1) (k_next (processes s1)) then Some s1
         else do {
           p \<leftarrow> ring_last (store s1) head (processes s1);
           let m2 = store64 (store s1) (k_next p) pcb;
           Some (s1\<lparr>store := m2, processes := head\<rparr>)
         })"

definition add_to_ready_list :: "u64 \<Rightarrow> 'a process_scheme \<Rightarrow> 'a process_scheme" where
  "add_to_ready_list pcb s =
     (let s1 = s\<lparr>proc_count_in_list := proc_count_in_list s + 1\<rparr>
      in if proc_count_in_list s1 = 1
         then s1\<lparr>processes := pcb, store := store64 (store s1) (k_next pcb) pcb\<rparr>
         else s1\<lparr>store := store64 (store s1) (k_next (processes s1)) pcb\<rparr>)"

definition add_to_ready_list_user :: "u64 \<Rightarrow> 'a process_scheme \<Rightarrow> 'a process_scheme" where
  "add_to_ready_list_user pcb s =
     (let slot = ready_slot (ucast (process_count s) - 1) s;
          s1 = s\<lparr>store := copy_task (store s) slot pcb\<rparr>
      in if process_count s = 1 then s1\<lparr>curr_upcb := slot\<rparr> else s1)"

partial_function (option) next_ready :: "memory \<Rightarrow> u64 \<Rightarrow> u16 \<Rightarrow> u16 option" where
  "next_ready m queue i =
     (if load32 m (t_state (queue + ucast i * sizeof_task)) \<noteq> state_code READY
      then next_ready m queue (i + 1) else Some i)"

definition move_to_next_pcb :: "'a process_scheme \<Rightarrow> 'a process_scheme option" where
  "move_to_next_pcb s =
     (let i = ucast (idx_pcb s) :: u64
      in if process_count s \<noteq> 0 \<and>
            load64 (store s) (ready_slot i s) \<noteq> load64 (store s) (ready_slot (i + 1) s)
         then do {
           let m1 = copy_task (store s) (ready_slot i s) (ready_slot (i + 1) s);
           k \<leftarrow> next_ready m1 (ready_queue s) (idx_pcb s + 1);
           let s1 = s\<lparr>store := m1, idx_pcb := k\<rparr>;
           Some (if load64 m1 (ready_slot (ucast k) s1) \<noteq> 0
                 then s1\<lparr>curr_upcb := ready_slot (ucast k) s1\<rparr> else s1)
         }
         else kprintf (bytes ''Error: No processes to move to'' @ [char_newline]) [] s)"

definition move_to_next :: "'a process_scheme \<Rightarrow> 'a process_scheme option" where
  "move_to_next s =
     (let n = load64 (store s) (k_next (processes s))
      in if n \<noteq> 0 \<and> n \<noteq> processes s then Some (s\<lparr>processes := n\<rparr>)
         else kprintf (bytes ''Error: No processes to move to'' @ [char_newline]) [] s)"

section \<open>sys/process.c: memory areas and program loading\<close>

definition init_queues :: "'a process_scheme \<Rightarrow> 'a process_scheme" where
  "init_queues s =
     (let (zq, s1) = kmalloc (NUM_PROCS * sizeof_task) s;
          (rq, s2) = kmalloc (NUM_PROCS * sizeof_task) (s1\<lparr>zombie_queue := zq\<rparr>)
      in s2\<lparr>ready_queue := rq\<rparr>)"

partial_function (option) last_vma :: "memory \<Rightarrow> u64 \<Rightarrow> u64 option" where
  "last_vma m vm = (if load64 m (vm_next vm) \<noteq> 0 then last_vma m (load64 m (vm_next vm)) else Some vm)"

definition malloc_vma :: "u64 \<Rightarrow> 'a process_scheme \<Rightarrow> (u64 \<times> 'a process_scheme) option" where
  "malloc_vma mm s =
     (if load64 (store s) mm = 0 then
        (let (vm, s1) = kmalloc sizeof_vma s;
             m1 = store64 (store s1) mm vm;
             m2 = store32 m1 (mm_count mm) (load32 m1 (mm_count mm) + 1)
         in Some (vm, s1\<lparr>store := m2\<rparr>))
      else do {
        vm \<leftarrow> last_vma (store s) (load64 (store s) mm);
        let m1 = store64 (store s) (vm_next vm) (vm + sizeof_vma);
        let m2 = store32 m1 (mm_count mm) (load32 m1 (mm_count mm) + 1);
        Some (load64 m2 (vm_next vm), s\<lparr>store := m2\<rparr>)
      })"

fun allocate_loop :: "nat \<Rightarrow> nat \<Rightarrow> u64 \<Rightarrow> 'a user_paging_scheme \<Rightarrow> 'a user_paging_scheme option" where
  "allocate_loop i 0 va s = Some s"
| "allocate_loop i (Suc n) va s = do {
     (r, s') \<leftarrow> memmap (va + scast (of_nat i * 0x1000 :: u32)) PAGE_SIZE USR_PERM_BITS ACCESSED_NOT_PRESENT s;
     allocate_loop (Suc i) n va s'
   }"

definition allocate_regions :: "u64 \<Rightarrow> u64 \<Rightarrow> 'a user_paging_scheme \<Rightarrow> 'a user_paging_scheme option" where
  "allocate_regions va len s =
     (let va_start = ROUNDDOWN va PAGE_SIZE;
          va_end = ROUNDUP (va + len) PAGE_SIZE;
          sz = ucast (va_end - va_start) :: u32;
          num = sz div 0x1000 + sz mod 0x1000
      in allocate_loop 0 (nat (sint num)) va s)"

text \<open>The body of the loop of \<open>load_segment\<close> for a loadable program header.\<close>

definition load_program ::
  "u64 \<Rightarrow> u64 \<Rightarrow> u64 \<Rightarrow> 'a process_scheme \<Rightarrow> 'a process_scheme option" where
  "load_program pcb elf ph s = do {
     s1 \<leftarrow> (if load64 (store s) (p_filesz ph) > load64 (store s) (p_memsz ph)
           then kprintf (bytes ''Invalid file size'' @ [char_newline]) [] s else Some s);
     s2 \<leftarrow> allocate_regions (load64 (store s1) (p_vaddr ph)) (load64 (store s1) (p_memsz ph)) s1;
     let m = kmemcpy (store s2) (load64 (store s2) (p_vaddr ph))
       (elf + load64 (store s2) (p_offset ph)) (load64 (store s2) (p_filesz ph));
     let m =
       (if load64 m (p_filesz ph) < load64 m (p_memsz ph)
        then memset m (load64 m (p_vaddr ph) + load64 m (p_filesz ph)) 0
          (ucast (load64 m (p_memsz ph) - load64 m (p_filesz ph)))
        else m);
     (vm, s3) \<leftarrow> malloc_vma (load64 m (t_mm pcb)) (s2\<lparr>store := m\<rparr>);
     let m = store64 (store s3) (vm_start vm) (load64 (store s3) (p_vaddr ph));
     let m = store64 m (vm_end vm) (load64 m (vm_start vm) + load64 m (p_memsz ph));
     let m = store64 m (vm_mmsz vm) (load64 m (p_memsz ph));
     let m = store64 m (vm_next vm) 0;
     let m = store64 m (vm_file vm) elf;
     let m = store64 m (vm_flags vm) (ucast (load32 m (p_flags ph)));
     let m = store64 m (vm_offset vm) (load64 m (p_offset ph));
     Some (s3\<lparr>store := m\<rparr>)
   }"

text \<open>The program headers are stepped through by bytes, and the number of headers is read again
  before every step.\<close>

function load_segment_loop ::
  "nat \<Rightarrow> u64 \<Rightarrow> u64 \<Rightarrow> 'a process_scheme \<Rightarrow> 'a process_scheme option" where
  "load_segment_loop i pcb elf s =
     (if i < unat (load16 (store s) (e_phnum elf)) then
        (let ph = elf + load64 (store s) (e_phoff elf) + of_nat i
         in if load32 (store s) ph \<noteq> ELF_PROG_LOAD then load_segment_loop (Suc i) pcb elf s
            else do {
              s' \<leftarrow> load_program pcb elf ph s;
              load_segment_loop (Suc i) pcb elf s'
            })
      else Some s)"
  by pat_completeness auto
termination
proof (relation "measure (\<lambda>(i, _). 2 ^ 16 - i)")
  have less: "65535 - i < (65536 :: nat) - i" if "i < unat (w :: u16)" for i w
    using that unsigned_less [of w, where ?'a = nat] by simp
  show "((Suc i, pcb, elf, s), (i, pcb, elf, s)) \<in> measure (\<lambda>(i, _). 2 ^ 16 - i)"
    if "i < unat (load16 (store s) (e_phnum elf))" for i pcb elf and s :: "'a process_scheme"
    using less [OF that] by simp
  show "((Suc i, pcb, elf, s'), (i, pcb, elf, s)) \<in> measure (\<lambda>(i, _). 2 ^ 16 - i)"
    if "i < unat (load16 (store s) (e_phnum elf))" for i pcb elf and s s' :: "'a process_scheme"
    using less [OF that] by simp
qed simp

definition load_segment :: "u64 \<Rightarrow> u64 \<Rightarrow> 'a process_scheme \<Rightarrow> 'a process_scheme option" where
  "load_segment pcb file s = do {
     offset \<leftarrow> file_exists file s;
     if offset = 0 \<or> offset = 999 then Some s
     else do {
       let elf = tarfs_start s + scast offset;
       s1 \<leftarrow> load_segment_loop 0 pcb elf s;
       let m = store64 (store s1) (t_entry pcb) (load64 (store s1) (e_entry elf));
       (heap, s2) \<leftarrow> memmap 0 PAGE_SIZE USR_PERM_BITS NEW_PAGE (s1\<lparr>store := m\<rparr>);
       let m = store64 (store s2) (t_heap_vma pcb) heap;
       tmp \<leftarrow> last_vma m (load64 m (load64 m (t_mm pcb)));
       let at = 0x6e000 + ALIGN_DOWN (load64 m (vm_end tmp) + 100 * PAGE_SIZE);
       let m = store64 m (vm_end (load64 m (t_heap_vma pcb))) at;
       let m = store64 m (vm_start (load64 m (t_heap_vma pcb))) at;
       let m = store64 m (vm_mmsz (load64 m (t_heap_vma pcb))) PAGE_SIZE;
       allocate_regions (load64 m (vm_start (load64 m (t_heap_vma pcb))))
         (load64 m (vm_mmsz (load64 m (t_heap_vma pcb)))) (s2\<lparr>store := m\<rparr>)
     }
   }"

definition get_pid :: "'a process_scheme \<Rightarrow> u64" where
  "get_pid s = load64 (store s) (curr_upcb s)"

definition get_ppid :: "'a process_scheme \<Rightarrow> u64" where
  "get_ppid s = load64 (store s) (t_ppid (curr_upcb s))"

section \<open>sys/pcb\_init.c\<close>

text \<open>\<open>while (x >= lo) kstack[x--] = y++\<close> with the steps left.\<close>

fun fill_kstack :: "memory \<Rightarrow> u64 \<Rightarrow> nat \<Rightarrow> u64 \<Rightarrow> u64 \<Rightarrow> memory" where
  "fill_kstack m pcb 0 x y = m"
| "fill_kstack m pcb (Suc n) x y = fill_kstack (store64 m (t_kstack pcb x) y) pcb n (x - 1) (y + 1)"

definition init_usr_pcb :: "u64 \<Rightarrow> 'a process_scheme \<Rightarrow> (u64 \<times> 'a process_scheme) option" where
  "init_usr_pcb file_name s =
     (let (pcb, s) = kmalloc sizeof_task s;
          (mm, s) = kmalloc sizeof_mm s;
          m = store64 (store s) (t_mm pcb) mm;
          m = store32 m (mm_count mm) 0;
          m = store64 m mm 0;
          s = (if upid s = 0 then s\<lparr>upid := 1\<rparr> else s);
          m = store64 m pcb (ucast (upid s));
          m = store64 m (t_ppid pcb) (ucast (upid s) - 1);
          m = store32 m (t_state pcb) (state_code READY)
      in do {
        len \<leftarrow> kstrlen m file_name;
        let s = s\<lparr>store := kmemcpy m (t_pname pcb) file_name len, process_count := process_count s + 1\<rparr>;
        (stack, s) \<leftarrow> memmap 0 PAGE_SIZE USR_PERM_BITS GROWS_DOWN s;
        let m = store64 (store s) (t_stack pcb) stack;
        let m = memset m (load64 m (t_stack pcb) - PAGE_SIZE) 0 0x1000;
        let s = s\<lparr>dif_ctxt := False\<rparr>;
        let m = store64 m (t_pml4e pcb) (pml4_shared s);
        let m = store64 m (t_cr3 pcb) (pml4_shared s - VIRT_BASE);
        let m = fill_kstack m pcb 15 506 1;
        let m = store64 m (t_kstack pcb 491) (irq0 (isrs s) + 34);
        let m = store64 m (t_ctx_rsp pcb) (t_kstack pcb 490);
        let m = store64 m (t_kstack pcb 511) 0x23;
        let m = store64 m (t_kstack pcb 510) (load64 m (t_stack pcb) + 8 * 511);
        let m = store64 m (t_kstack pcb 509) 0x246;
        let m = store64 m (t_kstack pcb 508) 0x2b;
        s \<leftarrow> load_segment pcb file_name (s\<lparr>store := m\<rparr>);
        let m = store64 (store s) (t_kstack pcb 507) (load64 (store s) (t_entry pcb));
        let s = tlb_flush (pml4_shared s - VIRT_BASE) (s\<lparr>store := m\<rparr>);
        Some (pcb, if load64 (store s) pcb = 1 then add_to_ready_list_user pcb s else s)
      })"

definition create_usr_pcb :: "u64 \<Rightarrow> 'a process_scheme \<Rightarrow> (u64 \<times> 'a process_scheme) option" where
  "create_usr_pcb file s = do {
     (pcb, s') \<leftarrow> init_usr_pcb file s;
     Some (if pcb = 0 then 0 else pcb, s')
   }"

definition init_pcb :: "u64 \<Rightarrow> 'a process_scheme \<Rightarrow> u64 \<times> 'a process_scheme" where
  "init_pcb t s =
     (let (pcb, s) = page_alloc s;
          m = store64 (store s) (k_stack pcb (STACK_SIZE - 1)) t;
          m = store64 m (k_rip pcb) (load64 m (k_stack pcb (STACK_SIZE - 1)));
          m = store64 m (k_pid pcb) (ucast (p_id s));
          s = s\<lparr>p_id := p_id s + 1\<rparr>;
          m = store64 m (k_rsp pcb) (k_stack pcb (STACK_SIZE - 2));
          m = store32 m (k_state pcb) (state_code READY);
          m = store32 m (k_exit_status pcb) 0
      in (pcb, s\<lparr>store := m\<rparr>))"

definition create_pcb :: "u64 \<Rightarrow> 'a process_scheme \<Rightarrow> u32 \<times> 'a process_scheme" where
  "create_pcb t s =
     (let (pcb, s) = init_pcb t s
      in if pcb = 0 then (0, s)
         else (1, add_to_ready_list pcb (s\<lparr>ready_procs := ready_procs s + 1\<rparr>)))"

section \<open>sys/process.c: the life of a process\<close>

definition exec ::
  "u64 \<Rightarrow> u64 \<Rightarrow> u64 \<Rightarrow> 'a process_scheme \<Rightarrow> (u64 outcome \<times> 'a process_scheme) option" where
  "exec file argv envp s = do {
     m \<leftarrow> kstrcpy (store s) (pathname_buf s) file;
     (index, m) \<leftarrow>
       (if argv \<noteq> 0 \<and> load64 m argv \<noteq> 0
        then do { m' \<leftarrow> kstrcpy m (tmp_arg_buf s) (load64 m argv); Some (1 :: u64, m') }
        else Some (0, m));
     let pcb = global_child s;
     s \<leftarrow> load_segment pcb (pathname_buf s) (s\<lparr>store := m\<rparr>);
     len \<leftarrow> kstrlen (store s) (t_pname pcb);
     let m = memset (store s) (t_pname pcb) 0 (ucast len);
     len \<leftarrow> kstrlen m (pathname_buf s);
     let m = kstrncpy m (t_pname pcb) (pathname_buf s) len;
     let s = s\<lparr>store := m, process_count := process_count s + 1\<rparr>;
     let s = add_to_ready_list_user pcb s;
     m \<leftarrow> (if argv \<noteq> 0 then kstrcpy (store s) (load64 (store s) argv) (tmp_arg_buf s) else Some (store s));
     let m = store64 m (load64 m (t_stack pcb) - 0x8) index;
     let (i, m) =
       (if argv \<noteq> 0 then (11, store64 m (load64 m (t_stack pcb) - 0x8 * 10) (load64 m argv)) else (10, m));
     let m = (if envp \<noteq> 0 then store64 m (load64 m (t_stack pcb) - 0x8 * i) (load64 m envp) else m);
     let s = s\<lparr>store := m, curr_upcb := pcb\<rparr>;
     enter_usermode (load64 m (t_entry pcb)) (load64 m (t_stack pcb)) s
   }"

text \<open>The copy of saved registers in \<open>fork_process\<close>, with the steps left.\<close>

fun copy_kstack :: "memory \<Rightarrow> u64 \<Rightarrow> u64 \<Rightarrow> nat \<Rightarrow> u64 \<Rightarrow> u64 \<Rightarrow> memory" where
  "copy_kstack m child parent 0 x y = m"
| "copy_kstack m child parent (Suc n) x y =
     copy_kstack (store64 m (t_kstack child x) (load64 m (t_kstack parent y))) child parent n (x - 1) (y - 1)"

partial_function (option) reload_area :: "u64 \<Rightarrow> u64 \<Rightarrow> memory \<Rightarrow> memory option" where
  "reload_area j vm m =
     (if j < load64 m (vm_mmsz vm)
      then reload_area (j + 1) vm
        (store64 m (load64 m (vm_start vm) + j) (load64 m (load64 m (vm_file vm) + load64 m (vm_offset vm) + j)))
      else Some m)"

partial_function (option) copy_areas ::
  "u64 \<Rightarrow> u64 \<Rightarrow> 'a process_scheme \<Rightarrow> 'a process_scheme option" where
  "copy_areas child parent_vm s =
     (if parent_vm = 0 then Some s
      else do {
        (vm, s1) \<leftarrow> malloc_vma (load64 (store s) (t_mm child)) s;
        let m = store64 (store s1) (vm_start vm) (load64 (store s1) (vm_start parent_vm));
        let m = store64 m (vm_end vm) (load64 m (vm_end parent_vm));
        let m = store64 m (vm_mmsz vm) (load64 m (vm_mmsz parent_vm));
        let m = store64 m (vm_next vm) 0;
        let m = store64 m (vm_file vm) (load64 m (vm_file parent_vm));
        let m = store64 m (vm_flags vm) (load64 m (vm_flags parent_vm));
        let m = store64 m (vm_offset vm) (load64 m (vm_offset parent_vm));
        m \<leftarrow> reload_area 0 parent_vm m;
        copy_areas child (load64 m (vm_next parent_vm)) (s1\<lparr>store := m\<rparr>)
      })"

definition fork_process :: "'a process_scheme \<Rightarrow> (u32 \<times> 'a process_scheme) option" where
  "fork_process s =
     (let parent = curr_upcb s;
          (child, s) = kmalloc sizeof_task s
      in if child = 0 then do {
           s \<leftarrow> kprintf (bytes ''Out of Memory'' @ [char_newline]) [] s;
           Some (- 1, s)
         }
         else
           (let (mm, s) = kmalloc sizeof_task s;
                m = store64 (store s) (t_mm child) mm;
                m = store32 m (mm_count mm) 0;
                m = store64 m mm 0;
                s = s\<lparr>upid := upid s + 1\<rparr>;
                m = store64 m child (ucast (upid s));
                s = s\<lparr>child_pid := ucast (load64 m child)\<rparr>;
                m = store64 m (t_ppid child) (load64 m parent);
                m = store32 m (t_state child) (state_code READY)
            in do {
              len \<leftarrow> kstrlen m (t_pname parent);
              let m = kmemcpy m (t_pname child) (t_pname parent) len;
              (stack, s) \<leftarrow> memmap 0 PAGE_SIZE USR_PERM_BITS GROWS_DOWN (s\<lparr>store := m\<rparr>);
              let m = store64 (store s) (t_stack child) stack;
              let m = store64 m (t_pml4e child) (pml4_shared s);
              let m = store64 m (t_cr3 child) (pml4_shared s - VIRT_BASE);
              let m = kmemcpy m (load64 m (t_stack child) - PAGE_SIZE) (load64 m (t_stack parent) - PAGE_SIZE) PAGE_SIZE;
              let m = store64 m (t_kstack child 511) 0x23;
              let m = store64 m (t_kstack child 510) (load64 m (t_stack child) + 8 * 511);
              let m = store64 m (t_kstack child 509) 0x200286;
              let m = store64 m (t_kstack child 508) 0x2b;
              let m = store64 m (t_kstack child 507) (load64 m (t_kstack parent 505));
              let m = store64 m (t_kstack child 491) (irq0 (isrs s) + 34);
              let m = store64 m (t_kstack child 490) 16;
              let m = store64 m (t_kstack child 506) 0;
              let m = copy_kstack m child parent 14 505 503;
              let m = store64 m (t_ctx_rsp child) (t_kstack child 490);
              s \<leftarrow> copy_areas child (load64 m (load64 m (t_mm parent))) (s\<lparr>store := m\<rparr>);
              (heap, s) \<leftarrow> memmap 0 PAGE_SIZE USR_PERM_BITS NEW_PAGE s;
              let m = store64 (store s) (t_heap_vma child) heap;
              tmp \<leftarrow> last_vma m (load64 m (load64 m (t_mm child)));
              let at = ALIGN_DOWN (load64 m (vm_end tmp) + PAGE_SIZE);
              let m = store64 m (vm_end (load64 m (t_heap_vma child))) at;
              let m = store64 m (vm_start (load64 m (t_heap_vma child))) at;
              let m = store64 m (vm_mmsz (load64 m (t_heap_vma child))) PAGE_SIZE;
              let s = tlb_flush (load64 m (t_cr3 parent)) (s\<lparr>store := m\<rparr>);
              Some (child_pid s, s\<lparr>global_child := child\<rparr>)
            }))"

text \<open>The searches and shifts of \<open>exit_process\<close>, with the steps left.\<close>

fun find_ready :: "'a process_scheme \<Rightarrow> u64 \<Rightarrow> nat \<Rightarrow> nat \<Rightarrow> nat" where
  "find_ready s pid i 0 = i"
| "find_ready s pid i (Suc n) =
     (if load64 (store s) (ready_slot (of_nat i) s) = pid then i else find_ready s pid (Suc i) n)"

fun shift_ready :: "nat \<Rightarrow> nat \<Rightarrow> 'a process_scheme \<Rightarrow> 'a process_scheme" where
  "shift_ready i 0 s = s"
| "shift_ready i (Suc n) s =
     shift_ready (Suc i) n
       (s\<lparr>store := copy_task (store s) (ready_slot (of_nat i) s) (ready_slot (of_nat (i + 1)) s)\<rparr>)"

definition zombie_pid :: "u64 \<Rightarrow> 'a process_scheme \<Rightarrow> u64" where
  "zombie_pid z s = load64 (store s) (zombies s + 8 * z)"

function reap_zombie :: "nat \<Rightarrow> 'a process_scheme \<Rightarrow> 'a process_scheme" where
  "reap_zombie z s =
     (if z \<le> unat (zom_count s) then
        (let slot = zombie_pid (of_nat z) s
         in if load64 (store s) (zombie_slot slot s) = load64 (store s) (curr_upcb s)
            then reap_zombie (z + 2)
              (s\<lparr>store := copy_task (store s) (zombie_slot slot s) (zombie_slot (slot + 1) s)\<rparr>)
            else reap_zombie (z + 1) s)
      else s)"
  by pat_completeness auto
termination
  by (relation "measure (\<lambda>(z, s). Suc (unat (zom_count s)) - z)") (simp_all add: Let_def)

fun find_parent_slot :: "'a process_scheme \<Rightarrow> nat \<Rightarrow> nat \<Rightarrow> nat option" where
  "find_parent_slot s j 0 = None"
| "find_parent_slot s j (Suc n) =
     (if load64 (store s) (ready_slot (of_nat j) s) = load64 (store s) (t_ppid (curr_upcb s))
      then Some j else find_parent_slot s (Suc j) n)"

definition bury :: "u32 \<Rightarrow> 'a process_scheme \<Rightarrow> 'a process_scheme" where
  "bury state s =
     (let cur = curr_upcb s;
          s = set_state cur ZOMBIE s;
          m = store32 (store s) (t_exit_status (zombie_slot (load64 (store s) cur) s)) state;
          m = copy_task m (zombie_slot (load64 m cur) s) cur;
          s = (if state \<noteq> 0 then s else s\<lparr>zom_count := zom_count s + 1\<rparr>)
      in s\<lparr>store := store64 m (zombies s + 8 * ucast (zom_count s)) (load64 m cur)\<rparr>)"

definition remove_ready :: "'a process_scheme \<Rightarrow> 'a process_scheme" where
  "remove_ready s =
     (let n = unat (process_count s);
          i = find_ready s (load64 (store s) (curr_upcb s)) 1 n
      in if i < n then shift_ready i (n - i) s else s)"

definition exit_process :: "u32 \<Rightarrow> 'a process_scheme \<Rightarrow> (unit outcome \<times> 'a process_scheme) option" where
  "exit_process state s =
     (let s = remove_ready (bury state s)
      in if state = 1 then
           (let s = reap_zombie 0 s in Some (Returned (), s\<lparr>zom_count := zom_count s - 1\<rparr>))
         else
           (let s = s\<lparr>process_count := process_count s - 1\<rparr>;
                s = (case find_parent_slot s 0 (unat (process_count s)) of
                       Some j \<Rightarrow> s\<lparr>curr_upcb := ready_slot (of_nat j) s\<rparr>
                     | None \<Rightarrow> s)
            in pop_and_jump (load_krsp s)))"

partial_function (option) kill_loop :: "u32 \<Rightarrow> u64 \<Rightarrow> u32 option" where
  "kill_loop i pid = (if scast i \<noteq> pid \<and> scast i < pid then kill_loop (i + 1) pid else Some i)"

definition kill_process :: "u64 \<Rightarrow> 'a process_scheme \<Rightarrow> (unit outcome \<times> 'a process_scheme) option" where
  "kill_process pid s =
     (let kill_proc = curr_upcb s
      in continue
        (if pid \<le> 0 then
           do { s \<leftarrow> kprintf ([char_newline] @ bytes ''Failed to kill the process'' @ [char_newline]) [] s;
                Some (Returned (), s) }
         else do {
           i \<leftarrow> kill_loop 0 pid;
           if scast i = pid then
             if load64 (store s) (zombie_slot (scast i) s) = pid
             then exit_process 1 (s\<lparr>curr_upcb := zombie_slot (scast i) s\<rparr>)
             else do { s \<leftarrow> kprintf ([char_newline] @ bytes ''Wrong pid'' @ [char_newline]) [] s;
                       Some (Returned (), s) }
           else do { s \<leftarrow> kprintf (bytes ''Cannot find the process'' @ [char_newline]) [] s;
                     Some (Returned (), s) }
         })
        (\<lambda>_ s. Some (Returned (), s\<lparr>curr_upcb := kill_proc\<rparr>)))"

definition sleep_switch :: "'a process_scheme \<Rightarrow> (u64 outcome \<times> 'a process_scheme) option" where
  "sleep_switch s =
     (let pcb = curr_upcb s;
          s = s\<lparr>store := store64 (store s) (t_ctx_rsp pcb) (rsp s)\<rparr>
      in pop_and_jump (load_krsp s))"

definition sleep_proc :: "u64 \<Rightarrow> 'a process_scheme \<Rightarrow> (u64 outcome \<times> 'a process_scheme) option" where
  "sleep_proc time s =
     sleep_switch (s\<lparr>store := store32 (store s) (t_sleep_time (curr_upcb s)) (ucast time)\<rparr>)"

definition malloc :: "u64 \<Rightarrow> 'a process_scheme \<Rightarrow> u64 \<times> 'a process_scheme" where
  "malloc sz s =
     (let pcb = curr_upcb s;
          m = store s;
          old = load64 m (vm_end (load64 m (t_heap_vma pcb)));
          m = store64 m (vm_end (load64 m (t_heap_vma pcb))) (load64 m (vm_end (load64 m (t_heap_vma pcb))) + sz);
          m = store64 m old 0;
          heap = load64 m (t_heap_vma pcb)
      in (if load64 m (vm_end heap) - load64 m (vm_start heap) > PAGE_SIZE then 0 else old,
          s\<lparr>store := m\<rparr>))"

fun find_child :: "'a process_scheme \<Rightarrow> (u64 \<Rightarrow> bool) \<Rightarrow> nat \<Rightarrow> nat \<Rightarrow> nat option" where
  "find_child s P i 0 = None"
| "find_child s P i (Suc n) = (if P (ready_slot (of_nat i) s) then Some i else find_child s P (Suc i) n)"

text \<open>The parameter \<open>status\<close> is only assigned to.\<close>

definition syswaitpid :: "u32 \<Rightarrow> u32 \<Rightarrow> 'a process_scheme \<Rightarrow> u32 outcome \<times> 'a process_scheme" where
  "syswaitpid pid status s =
     (let pcb = curr_upcb s;
          ppid = load64 (store s) pcb;
          n = unat (process_count s);
          waiting = (\<lambda>child s. s\<lparr>store := store64 (store s) (t_wait_pid pcb) (load64 (store s) child)\<rparr>);
          status_of = (\<lambda>child s. load32 (store s) (t_exit_status (zombie_slot (load64 (store s) child) s)));
          zombie = (\<lambda>child s. load32 (store s) (t_state child) = state_code ZOMBIE);
          unwait = (\<lambda>s. set_state pcb READY (s\<lparr>store := store64 (store s) (t_wait_pid pcb) 0\<rparr>))
      in if pid <s 0 then
           (case find_child s (\<lambda>p. load64 (store s) (t_ppid p) = ppid) 1 n of
              None \<Rightarrow> (Returned 0, s)
            | Some i \<Rightarrow>
                (let child = ready_slot (of_nat i) s; s = waiting child s
                 in if zombie child s then (Returned (status_of child s), s)
                    else (Jumped (Interrupt 0x81), waiting child (set_state pcb WAIT s))))
         else
           (case find_child s (\<lambda>p. load64 (store s) p = scast pid) 1 n of
              None \<Rightarrow> (Returned 0, unwait s)
            | Some i \<Rightarrow>
                (let child = ready_slot (of_nat i) s; s = waiting child (set_state pcb WAIT s)
                 in if zombie child s then (Returned (status_of child s), unwait s)
                    else (Jumped (Interrupt 0x81), waiting child (set_state pcb WAIT s)))))"

fun dp_ready :: "nat \<Rightarrow> nat \<Rightarrow> 'a process_scheme \<Rightarrow> 'a process_scheme option" where
  "dp_ready i 0 s = Some s"
| "dp_ready i (Suc n) s = do {
     let pcb = ready_slot (of_nat i) s;
     s' \<leftarrow> kprintf ([char_newline] @ bytes ''pid %d ppid %d name %s'' @ [char_newline])
       [load64 (store s) pcb, load64 (store s) (t_ppid pcb), t_pname pcb] s;
     dp_ready (Suc i) n s'
   }"

fun dp_zombies :: "nat \<Rightarrow> nat \<Rightarrow> 'a process_scheme \<Rightarrow> 'a process_scheme option" where
  "dp_zombies i 0 s = Some s"
| "dp_zombies i (Suc n) s = do {
     let pcb = zombie_slot (zombie_pid (of_nat i) s) s;
     s' \<leftarrow> kprintf (bytes ''pid %d ppid %d name %s'' @ [char_newline])
       [load64 (store s) pcb, load64 (store s) (t_ppid pcb), t_pname pcb] s;
     dp_zombies (Suc i) n s'
   }"

definition dp :: "'a process_scheme \<Rightarrow> 'a process_scheme option" where
  "dp s = do {
     s' \<leftarrow> dp_ready 0 (unat (process_count s)) s;
     dp_zombies 0 (unat (zom_count s')) s'
   }"

text \<open>\<open>while (num--)\<close> of \<open>kshutdown\<close>: the first round empties the queue.\<close>

fun shutdown_loop :: "nat \<Rightarrow> nat \<Rightarrow> 'a process_scheme \<Rightarrow> 'a process_scheme" where
  "shutdown_loop 0 i s = s"
| "shutdown_loop (Suc num) i s =
     (let n = unat (process_count s);
          s' = (if i < n then shift_ready i (n - i) s else s);
          i' = (if i < n then n else i)
      in shutdown_loop num i' (s'\<lparr>process_count := 0\<rparr>))"

definition kshutdown :: "'a process_scheme \<Rightarrow> 'a process_scheme" where
  "kshutdown s = (let s = load_krsp s in shutdown_loop (unat (process_count s)) 1 s)"

section \<open>The heap of a process\<close>

text \<open>
  What the heap promises: requests are served one behind the other from a page, and one that
  does not fit is refused. The model is the number of bytes handed out so far.
\<close>

fun heap_serve :: "nat \<Rightarrow> nat list \<Rightarrow> nat option list" where
  "heap_serve used [] = []"
| "heap_serve used (n # ns) = (if used + n \<le> 4096 then Some used else None) # heap_serve (used + n) ns"

fun mallocs :: "nat list \<Rightarrow> 'a process_scheme \<Rightarrow> u64 list \<times> 'a process_scheme" where
  "mallocs [] s = ([], s)"
| "mallocs (n # ns) s =
     (let (p, s) = malloc (of_nat n) s; (ps, s) = mallocs ns s in (p # ps, s))"

text \<open>The heap of the current process has its area structure at \<open>hv\<close>, starts at \<open>base\<close> and has
  \<open>used\<close> bytes handed out; the first \<open>room\<close> bytes from its start do not overlap with the structures.\<close>

definition heap_at :: "u64 \<Rightarrow> u64 \<Rightarrow> nat \<Rightarrow> 'a process_scheme \<Rightarrow> bool" where
  "heap_at hv base used s \<longleftrightarrow>
     load64 (store s) (t_heap_vma (curr_upcb s)) = hv \<and>
     load64 (store s) (vm_start hv) = base \<and> load64 (store s) (vm_end hv) = base + of_nat used"

definition heap_apart :: "u64 \<Rightarrow> u64 \<Rightarrow> nat \<Rightarrow> 'a process_scheme \<Rightarrow> bool" where
  "heap_apart hv base room s \<longleftrightarrow>
     disjoint_regions base room hv 72 \<and> disjoint_regions base room (t_heap_vma (curr_upcb s)) 8 \<and>
     disjoint_regions hv 72 (t_heap_vma (curr_upcb s)) 8"

lemma heap_apart_cells:
  assumes "heap_apart hv base room s" and "used + 8 \<le> room"
  shows "disjoint_regions (base + of_nat used) 8 (t_heap_vma (curr_upcb s)) 8"
    "disjoint_regions (base + of_nat used) 8 (vm_start hv) 8"
    "disjoint_regions (base + of_nat used) 8 (vm_end hv) 8"
    "disjoint_regions (vm_end hv) 8 (t_heap_vma (curr_upcb s)) 8"
    "disjoint_regions (vm_end hv) 8 (vm_start hv) 8"
proof -
  let ?t = "t_heap_vma (curr_upcb s)"
  have d: "disjoint_regions base room hv 72" "disjoint_regions base room ?t 8" "disjoint_regions hv 72 ?t 8"
    using assms(1) by (simp_all add: heap_apart_def)
  show "disjoint_regions (base + of_nat used) 8 ?t 8"
    using disjoint_subs [OF d(2), of used 8 0 8] assms(2) by simp
  show "disjoint_regions (base + of_nat used) 8 (vm_start hv) 8"
    using disjoint_subs [OF d(1), of used 8 8 8] assms(2) by simp
  show "disjoint_regions (base + of_nat used) 8 (vm_end hv) 8"
    using disjoint_subs [OF d(1), of used 8 16 8] assms(2) by simp
  show "disjoint_regions (vm_end hv) 8 ?t 8" using disjoint_subs [OF d(3), of 16 8 0 8] by simp
  show "disjoint_regions (vm_end hv) 8 (vm_start hv) 8" by (simp add: disjoint_regions_def)
qed

lemma malloc_serves:
  assumes "heap_at hv base used s" and "heap_apart hv base room s" and "used + 8 \<le> room"
    and "used + n < 2 ^ 63"
  shows "fst (malloc (of_nat n) s) = (if used + n \<le> 4096 then base + of_nat used else 0)"
    "heap_at hv base (used + n) (snd (malloc (of_nat n) s))"
    "curr_upcb (snd (malloc (of_nat n) s)) = curr_upcb s"
proof -
  note cells = heap_apart_cells [OF assms(2,3)]
  have h: "load64 (store s) (t_heap_vma (curr_upcb s)) = hv" "load64 (store s) (vm_start hv) = base"
    "load64 (store s) (vm_end hv) = base + of_nat used"
    using assms(1) by (simp_all add: heap_at_def)
  let ?m1 = "store64 (store s) (vm_end hv) (base + of_nat used + of_nat n)"
  let ?m2 = "store64 ?m1 (base + of_nat used) 0"
  have m2: "load64 ?m2 (t_heap_vma (curr_upcb s)) = hv" "load64 ?m2 (vm_start hv) = base"
    "load64 ?m2 (vm_end hv) = base + of_nat (used + n)"
    using h cells by (simp_all add: load64_store_disjoint add.assoc)
  have "unat (of_nat (used + n) :: u64) = used + n" using assms(4) by (intro unat_of_nat64) simp
  then have "(of_nat (used + n) :: u64) > PAGE_SIZE \<longleftrightarrow> used + n > 4096" by (simp add: word_less_nat_alt)
  then have "malloc (of_nat n) s = (if used + n \<le> 4096 then base + of_nat used else 0, s\<lparr>store := ?m2\<rparr>)"
    unfolding malloc_def Let_def h m2 by (simp add: not_less)
  then show "fst (malloc (of_nat n) s) = (if used + n \<le> 4096 then base + of_nat used else 0)"
    "heap_at hv base (used + n) (snd (malloc (of_nat n) s))"
    "curr_upcb (snd (malloc (of_nat n) s)) = curr_upcb s"
    using m2 by (simp_all add: heap_at_def)
qed

lemma malloc_frame:
  assumes "heap_at hv base used s"
  shows "\<exists>m. snd (malloc sz s) = s\<lparr>store := m\<rparr>"
    and "disjoint_regions (vm_end hv) 8 q k \<Longrightarrow> disjoint_regions (base + of_nat used) 8 q k \<Longrightarrow>
      get_bytes (store (snd (malloc sz s))) q k = get_bytes (store s) q k"
  using assms by (auto simp add: malloc_def Let_def heap_at_def store64_def get_put_disjoint)

text \<open>C7. Any sequence of requests to \<open>malloc\<close> is answered as the heap promises: the blocks follow
  one another from the start of the heap, and a request is refused exactly when the bytes asked for
  so far, including those of refused requests, exceed a page.\<close>

theorem malloc_refines_heap:
  assumes "heap_at hv base used s" and "heap_apart hv base room s"
    and "used + sum_list ns + 8 \<le> room" and "room < 2 ^ 63"
  shows "fst (mallocs ns s) = map (\<lambda>r. case r of Some k \<Rightarrow> base + of_nat k | None \<Rightarrow> 0) (heap_serve used ns) \<and>
    heap_at hv base (used + sum_list ns) (snd (mallocs ns s))"
  using assms
proof (induction ns arbitrary: used s)
  case (Cons n ns)
  obtain p s' where p: "malloc (of_nat n) s = (p, s')" by (cases "malloc (of_nat n) s")
  obtain ps s'' where ps: "mallocs ns s' = (ps, s'')" by (cases "mallocs ns s'")
  have "used + 8 \<le> room" "used + n < 2 ^ 63" using Cons.prems(3,4) by simp_all
  from malloc_serves [OF Cons.prems(1,2) this] have step:
    "p = (if used + n \<le> 4096 then base + of_nat used else 0)" "heap_at hv base (used + n) s'"
    "curr_upcb s' = curr_upcb s"
    unfolding p by simp_all
  have apart: "heap_apart hv base room s'" using Cons.prems(2) step(3) by (simp add: heap_apart_def)
  show ?case
    using Cons.IH [OF step(2) apart] Cons.prems(3,4) step(1) by (simp add: p ps add.assoc)
qed simp_all

text \<open>A state with one user process in the first slot of the ready queue.\<close>

definition demo_process :: process where
  "demo_process = cpu.extend demo_cpu
     \<lparr>child_pid = 0, p_id = 0, ready_procs = 0, upid = 1, zombies = 0xFFFFFFFF80260000, process_count = 1,
      zom_count = 0, zombie_queue = 0xFFFFFFFF80600000, ready_queue = 0xFFFFFFFF80680000, global_child = 0,
      proc_count_in_list = 0, idx_pcb = 0, processes = 0xFFFFFFFF80700000, curr_upcb = 0xFFFFFFFF80680000,
      shell_pcb = 0, first_boot = True, tick = 0, boot_done = True, str_sbush = 0xFFFFFFFF80202000,
      pathname_buf = 0xFFFFFFFF80203000, tmp_arg_buf = 0xFFFFFFFF80203100, idle_fn = 0xFFFFFFFF80201100,
      init_entry_fn = 0xFFFFFFFF80201200\<rparr>"

lemma demo_process_simps [simp]:
  "zombies demo_process = 0xFFFFFFFF80260000" "process_count demo_process = 1" "zom_count demo_process = 0"
  "zombie_queue demo_process = 0xFFFFFFFF80600000" "ready_queue demo_process = 0xFFFFFFFF80680000"
  "curr_upcb demo_process = 0xFFFFFFFF80680000" "processes demo_process = 0xFFFFFFFF80700000"
  "rsp demo_process = 0xFFFFFFFF80240000"
  by (simp_all add: demo_process_def demo_cpu_def cpu.defs tarfs.defs)

theorem malloc_refines_heap_witness:
  "fst (mallocs [100, 4000, 8] (demo_process\<lparr>store :=
     fold (\<lambda>(a, v) m. store64 m a v)
       [(0xFFFFFFFF80681128, 0x8eee70000), (0x8eee70008, 0x600000), (0x8eee70010, 0x600000)] (\<lambda>_. 0)\<rparr>)) =
   [0x600000, 0, 0]"
  (is "fst (mallocs _ ?s) = _")
proof -
  have "heap_at 0x8eee70000 0x600000 0 ?s"
    by (simp add: heap_at_def load64_store_disjoint disjoint_regions_def)
  moreover have "heap_apart 0x8eee70000 0x600000 0x2000 ?s"
    by (simp add: heap_apart_def disjoint_regions_def)
  ultimately show ?thesis using malloc_refines_heap [of "0x8eee70000" "0x600000" 0 ?s "0x2000" "[100, 4000, 8]"] by simp
qed

section \<open>The end of a process\<close>

lemma copy_task_inside:
  assumes "i + k \<le> 4400"
  shows "get_bytes (copy_task m dst src) (dst + of_nat i) k = get_bytes m (src + of_nat i) k"
  using assms by (simp add: copy_task_def get_bytes_copied)

lemma copy_task_outside:
  assumes "disjoint_regions dst 4400 q k"
  shows "get_bytes (copy_task m dst src) q k = get_bytes m q k"
  using assms by (simp add: copy_task_def get_put_disjoint)

lemma shift_ready_store: "\<exists>m. shift_ready i n s = s\<lparr>store := m\<rparr>"
proof (induction n arbitrary: i s)
  case 0
  show ?case by (rule exI [of _ "store s"]) simp
next
  case (Suc n)
  let ?s = "s\<lparr>store := copy_task (store s) (ready_slot (of_nat i) s) (ready_slot (of_nat (i + 1)) s)\<rparr>"
  from Suc.IH obtain m where "shift_ready (Suc i) n ?s = ?s\<lparr>store := m\<rparr>" by blast
  then show ?case by (intro exI [of _ m]) simp
qed

lemma shift_ready_outside:
  assumes "disjoint_regions (ready_queue s) N q k" and "(i + n) * 4400 \<le> N"
  shows "get_bytes (store (shift_ready i n s)) q k = get_bytes (store s) q k"
  using assms
proof (induction n arbitrary: i s)
  case (Suc n)
  let ?s = "s\<lparr>store := copy_task (store s) (ready_slot (of_nat i) s) (ready_slot (of_nat (i + 1)) s)\<rparr>"
  have q: "disjoint_regions q k (ready_queue s) N"
    by (rule disjoint_regions_sym [THEN iffD1, OF Suc.prems(1)])
  have "i * 4400 + 4400 \<le> N" using Suc.prems(2) by simp
  from disjoint_sub [OF q this] have "disjoint_regions (ready_queue s + of_nat (i * 4400)) 4400 q k"
    by (subst disjoint_regions_sym) simp
  then have "get_bytes (store ?s) q k = get_bytes (store s) q k"
    by (simp add: copy_task_outside ready_slot_def)
  moreover have "get_bytes (store (shift_ready (Suc i) n ?s)) q k = get_bytes (store ?s) q k"
    using Suc.prems by (intro Suc.IH) simp_all
  ultimately show ?case by simp
qed simp

lemma remove_ready_store: "\<exists>m. remove_ready s = s\<lparr>store := m\<rparr>"
proof (cases "find_ready s (load64 (store s) (curr_upcb s)) 1 (unat (process_count s)) < unat (process_count s)")
  case True
  then show ?thesis using shift_ready_store by (simp add: remove_ready_def Let_def)
next
  case False
  then show ?thesis by (intro exI [of _ "store s"]) (simp add: remove_ready_def Let_def)
qed

lemma remove_ready_outside:
  assumes "disjoint_regions (ready_queue s) N q k" and "unat (process_count s) * 4400 \<le> N"
  shows "get_bytes (store (remove_ready s)) q k = get_bytes (store s) q k"
  using assms shift_ready_outside [OF assms(1)] by (simp add: remove_ready_def Let_def)

lemma load32_bytes: "get_bytes m a 4 = get_bytes m' b 4 \<Longrightarrow> load32 m a = load32 m' b"
  by (simp add: load32_def)

lemma bury_status:
  assumes "cur = curr_upcb s" and "slot = zombie_slot (load64 (store s) cur) s"
    and "disjoint_regions slot 4400 cur 4400"
    and "disjoint_regions (zombies s + 8 * ucast (zom_count (bury st s))) 8 slot 4400"
  shows "load32 (store (bury st s)) (t_exit_status slot) = load32 (store s) (t_exit_status cur)"
proof -
  let ?m1 = "store32 (store s) (t_state cur) (state_code ZOMBIE)"
  let ?m2 = "store32 ?m1 (t_exit_status slot) st"
  let ?m3 = "copy_task ?m2 slot cur"
  let ?cell = "zombies s + 8 * ucast (zom_count (bury st s))"
  have "disjoint_regions (t_exit_status slot) 4 cur 8" "disjoint_regions (t_exit_status slot) 4 (t_exit_status cur) 4"
    using disjoint_subs [OF assms(3), of 4368 4 0 8] disjoint_subs [OF assms(3), of 4368 4 4368 4] by simp_all
  then have m2: "load64 ?m2 cur = load64 (store s) cur" "load32 ?m2 (t_exit_status cur) = load32 (store s) (t_exit_status cur)"
    by (simp_all add: load64_store_disjoint load32_store_disjoint disjoint_regions_def)
  have pid1: "load64 ?m1 cur = load64 (store s) cur" by (simp add: load64_store_disjoint disjoint_regions_def)
  have "load32 ?m3 (t_exit_status slot) = load32 ?m2 (t_exit_status cur)"
    using copy_task_inside [of 4368 4 ?m2 slot cur] by (intro load32_bytes) simp
  moreover have "disjoint_regions ?cell 8 (t_exit_status slot) 4"
    using disjoint_sub [OF assms(4), of 4368 4] by simp
  moreover have "store (bury st s) = store64 ?m3 ?cell (load64 ?m3 cur)"
    using assms(1,2) m2(1) pid1 by (simp add: bury_def Let_def set_state_def zombie_slot_def)
  ultimately show ?thesis using m2(2) by (simp add: load32_store_disjoint)
qed

text \<open>C35. The exit status is lost. \<open>exit_process\<close> stores the status that the process passes into its
  slot of the zombie queue and then overwrites the slot with a copy of the control block: what
  \<open>syswaitpid\<close> can find there is the status field of the control block, whatever was passed.\<close>

theorem exit_status_lost:
  assumes "st \<noteq> 1" and "slot = zombie_slot (load64 (store s) (curr_upcb s)) s"
    and "disjoint_regions slot 4400 (curr_upcb s) 4400"
    and "disjoint_regions (zombies s + 8 * ucast (zom_count (bury st s))) 8 slot 4400"
    and "disjoint_regions (ready_queue s) (unat (process_count s) * 4400) slot 4400"
  shows "\<exists>c s'. exit_process st s = Some (Jumped c, s') \<and>
    load32 (store s') (t_exit_status slot) = load32 (store s) (t_exit_status (curr_upcb s))"
proof -
  let ?b = "bury st s"
  have b: "ready_queue ?b = ready_queue s" "process_count ?b = process_count s"
    by (simp_all add: bury_def Let_def set_state_def)
  have "disjoint_regions (ready_queue ?b) (unat (process_count ?b) * 4400) (t_exit_status slot) 4"
    using disjoint_sub [OF assms(5), of 4368 4] unfolding b by simp
  then have "load32 (store (remove_ready ?b)) (t_exit_status slot) = load32 (store ?b) (t_exit_status slot)"
    using remove_ready_outside [of ?b "unat (process_count ?b) * 4400" "t_exit_status slot" 4]
    by (intro load32_bytes) simp
  then show ?thesis
    using assms(1) bury_status [OF refl assms(2,3,4)]
    by (simp add: exit_process_def Let_def pop_and_jump_def load_krsp_def split: option.split)
qed

theorem exit_status_lost_witness:
  "\<exists>c s'. exit_process 7 (demo_process\<lparr>store := store64 (\<lambda>_. 0) 0xFFFFFFFF80680000 1\<rparr>) = Some (Jumped c, s') \<and>
    load32 (store s') (t_exit_status 0xFFFFFFFF80601130) = 0"
proof -
  let ?s = "demo_process\<lparr>store := store64 (\<lambda>_. 0) 0xFFFFFFFF80680000 1\<rparr>"
  have "zom_count (bury 7 ?s) = 0" by (simp add: bury_def Let_def set_state_def)
  then have "disjoint_regions (zombies ?s + 8 * ucast (zom_count (bury 7 ?s))) 8 0xFFFFFFFF80601130 4400"
    by (simp add: disjoint_regions_def)
  moreover have "0xFFFFFFFF80601130 = zombie_slot (load64 (store ?s) (curr_upcb ?s)) ?s"
    by (simp add: zombie_slot_def)
  moreover have "load32 (store ?s) (t_exit_status (curr_upcb ?s)) = 0"
    by (simp add: load32_store_disjoint disjoint_regions_def) (simp add: load32_def get_bytes_def join_bytes_def upt_rec)
  ultimately show ?thesis
    using exit_status_lost [of 7 "0xFFFFFFFF80601130" ?s] by (simp add: disjoint_regions_def)
qed

section \<open>Entering user mode\<close>

text \<open>C13. \<open>jmp_usrmode\<close> enters user mode: with the segments of the initial descriptor table, the processor
  goes on at the given function, on the given stack, with interrupts enabled, in the 64-bit code
  segment and the data segment of privilege level 3; apart from 40 bytes of the kernel's stack the memory is
  unchanged.\<close>

theorem jmp_usrmode_enters_user_mode:
  assumes "gdt s ! 4 = gdt_init ! 4" and "gdt s ! 5 = gdt_init ! 5"
  shows "\<exists>s'. jmp_usrmode f p s = Some (Jumped (To_User f p), s') \<and>
    user_mode s' \<and> rip s' = f \<and> rsp s' = p \<and> interrupts s' \<and>
    descriptor_of (seg_cs s') s' = GDT_CS OR GDT_P OR DPL3 OR GDT_L \<and>
    descriptor_of (seg_ss s') s' = GDT_DS OR GDT_P OR GDT_W OR DPL3 \<and>
    (\<forall>q n. 0 < n \<and> disjoint_regions (rsp s - 40) 40 q n \<longrightarrow> get_bytes (store s') q n = get_bytes (store s) q n)"
proof -
  let ?u = "user_frame f p s"
  have at: "rsp s - 40 + 8 = rsp s - 32" "rsp s - 40 + 16 = rsp s - 24" "rsp s - 40 + 24 = rsp s - 16"
    "rsp s - 40 + 32 = rsp s - 8" by simp_all
  have "(0x200 :: u64) = 2 ^ 9" by simp
  then have "bit (0x200 :: u64) 9" by (simp only: bit_exp_iff) simp
  then have "user_mode (iretq ?u) \<and> rip (iretq ?u) = f \<and> rsp (iretq ?u) = p \<and> interrupts (iretq ?u) \<and>
      seg_cs (iretq ?u) = 0x2B \<and> seg_ss (iretq ?u) = 0x23 \<and> gdt (iretq ?u) = gdt s \<and> store (iretq ?u) = store ?u"
    by (simp add: iretq_def Let_def user_frame_words at set_rflags_def user_mode_def bit_or_iff user_frame_same)
  then show ?thesis
    using assms user_frame_outside [of s _ _ f p] by (simp add: jmp_usrmode_def descriptor_of_def gdt_init_def)
qed

theorem jmp_usrmode_enters_user_mode_witness:
  "\<exists>s'. (jmp_usrmode 0x400000 0x7FFF000 demo_process :: (unit outcome \<times> process) option) =
      Some (Jumped (To_User 0x400000 0x7FFF000), s') \<and> user_mode s' \<and> rsp s' = 0x7FFF000"
proof -
  have "gdt demo_process = gdt_init"
    by (simp add: demo_process_def demo_cpu_def demo_tarfs_def demo_keyboard_def demo_devices_def cpu.defs tarfs.defs
        keyboard.defs devices.defs user_paging.defs)
  then show ?thesis using jmp_usrmode_enters_user_mode [of demo_process "0x400000" "0x7FFF000"] by auto
qed

end
