(* ===== verification/Scheduler.thy ===== *)
theory Scheduler
  imports Processes
begin

text \<open>
  Kernel threads and the choice of the next process (\<open>sys/scheduler.c\<close>, \<open>sys/dispatch.s\<close>,
  \<open>sys/sysinit.c\<close>, the rest of \<open>sys/swtch_to_ring3.c\<close>), and the timer (\<open>sys/timer.c\<close>).
\<close>

section \<open>Kernel threads\<close>

text \<open>\<open>dispatch\<close> receives the addresses of two \<open>struct context\<close>. It ends with a \<open>ret\<close> on the stack
  of the thread that it switches to.\<close>

definition dispatch :: "u64 \<Rightarrow> u64 \<Rightarrow> 'a process_scheme \<Rightarrow> 'b outcome \<times> 'a process_scheme" where
  "dispatch me next s =
     (let s = mov RSI next (mov RDI me s);
          s = fold push [RAX, RBX, RCX, RDX, RBP, R15, R14, R13, R12, R11, R10, R9, R8, RSI, RDI] s;
          s = s\<lparr>store := store64 (store s) (gpr s RDI + 0x10) (rsp s)\<rparr>;
          s = s\<lparr>rsp := load64 (store s) (gpr s RSI + 0x8)\<rparr>;
          s = pop RSI (pop RDI s)
      in (Jumped (To_Code (load64 (store s) (rsp s))), s\<lparr>rsp := rsp s + 8\<rparr>))"

definition schedule :: "u64 \<Rightarrow> u64 \<Rightarrow> 'a process_scheme \<Rightarrow> u32 outcome \<times> 'a process_scheme" where
  "schedule cur next s =
     (if load32 (store s) (k_state next) \<noteq> state_code READY then (Returned 0, s)
      else if next = cur then (Returned 0, s)
      else dispatch (k_rip cur) (k_rip next) (set_kstate cur READY (set_kstate next RUNNING s)))"

text \<open>The process whose control block is at \<open>pcb\<close> goes on in user mode: its tables are loaded, its
  program is loaded afresh and a page of stack is mapped.\<close>

definition resume_user :: "u64 \<Rightarrow> u64 \<Rightarrow> 'a process_scheme \<Rightarrow> 'a process_scheme option" where
  "resume_user pcb name s =
     (let s = tlb_flush (load64 (store s) (t_cr3 pcb)) s;
          s = s\<lparr>pml4_shared := load64 (store s) (t_pml4e pcb)\<rparr>
      in do {
        s \<leftarrow> load_segment pcb name s;
        (r, s) \<leftarrow> memmap (load64 (store s) (t_stack pcb)) PAGE_SIZE USR_PERM_BITS GROWS_DOWN s;
        Some s
      })"

definition clear_args :: "u64 \<Rightarrow> memory \<Rightarrow> memory" where
  "clear_args pcb m =
     (let m = store64 m (load64 m (t_stack pcb) - 0x8) 0;
          m = store64 m (load64 m (t_stack pcb) - 0x10) 0
      in store64 m (load64 m (t_stack pcb) - 0x18) 0)"

definition yield :: "'a process_scheme \<Rightarrow> (unit outcome \<times> 'a process_scheme) option" where
  "yield s =
     (if ready_procs s > 1 then
        continue (Some (schedule (processes s) (load64 (store s) (k_next (processes s))) s))
          (\<lambda>r s. if r = 0 then do {
               s \<leftarrow> resume_user (shell_pcb s) (str_sbush s) s;
               s \<leftarrow> kprintf (bytes ''sbush> '') [] (s\<lparr>store := clear_args (shell_pcb s) (store s)\<rparr>);
               jmp_usrmode (load64 (store s) (t_entry (shell_pcb s))) (load64 (store s) (t_stack (shell_pcb s))) s
             }
             else do { s \<leftarrow> move_to_next s; Some (Returned (), s) })
      else Some (Returned (), s))"

partial_function (option) idle :: "'a process_scheme \<Rightarrow> (unit outcome \<times> 'a process_scheme) option" where
  "idle s = do {
     (r, s') \<leftarrow> yield s;
     case r of Returned _ \<Rightarrow> idle s' | Jumped c \<Rightarrow> Some (Jumped c, s')
   }"

definition init_entry :: "'a process_scheme \<Rightarrow> (unit outcome \<times> 'a process_scheme) option" where
  "init_entry s = do {
     len \<leftarrow> kstrlen (store s) (str_sbush s);
     (pcb, s) \<leftarrow> create_usr_pcb (curr_file s)
       (s\<lparr>store := kmemcpy (store s) (curr_file s) (str_sbush s) len\<rparr>);
     let s = s\<lparr>store := clear_args pcb (store s)\<rparr>;
     let user_entry = load64 (store s) (t_entry pcb);
     let s = set_tss_rsp (load64 (store s) (k_rsp (processes s))) s;
     enter_usermode user_entry (load64 (store s) (t_stack pcb)) (s\<lparr>shell_pcb := pcb\<rparr>)
   }"

definition initiate_jmp :: "'a process_scheme \<Rightarrow> (unit outcome \<times> 'a process_scheme) option" where
  "initiate_jmp s = do {
     (pcb, s) \<leftarrow> create_usr_pcb (curr_file s) s;
     yield s
   }"

definition tst_usr_fn :: "'a process_scheme \<Rightarrow> 'a process_scheme option" where
  "tst_usr_fn s = kprintf (bytes ''I shouldn't be able to print this BS!!!'' @ [char_newline]) [] s"

section \<open>User processes\<close>

text \<open>The first loop of \<open>usr_schedule\<close>. With an empty queue the remainder is a division by zero.\<close>

partial_function (option) parent_search :: "u32 \<Rightarrow> 'a process_scheme \<Rightarrow> u32 outcome option" where
  "parent_search i s =
     (let pid = load64 (store s) (ready_slot (ucast (i - 1)) s)
      in if load64 (store s) (t_ppid (curr_upcb s)) \<noteq> pid \<and> pid \<noteq> 0 then
           (if i = ucast (process_count s) - 1 then Some (Returned i)
            else if process_count s = 0 then Some (Jumped (Interrupt 0))
            else if i mod ucast (process_count s) = 0 then parent_search 1 s
            else parent_search (i + 1) s)
         else Some (Returned i))"

partial_function (option) child_search :: "u32 \<Rightarrow> 'a process_scheme \<Rightarrow> u32 option" where
  "child_search j s =
     (let slot = ready_slot (ucast j) s
      in if load64 (store s) (curr_upcb s) \<noteq> load64 (store s) (t_ppid slot) \<and> load64 (store s) slot \<noteq> 0
         then child_search (j + 1) s else Some j)"

definition run_slot :: "u32 \<Rightarrow> 'a process_scheme \<Rightarrow> (unit outcome \<times> 'a process_scheme) option" where
  "run_slot i s =
     (let pcb = ready_slot (ucast i) s
      in do {
        s \<leftarrow> resume_user pcb (t_pname pcb) (s\<lparr>curr_upcb := pcb\<rparr>);
        jmp_usrmode (load64 (store s) (t_entry (curr_upcb s))) (load64 (store s) (t_stack (curr_upcb s))) s
      })"

definition usr_schedule :: "'a process_scheme \<Rightarrow> (unit outcome \<times> 'a process_scheme) option" where
  "usr_schedule s = do {
     r \<leftarrow> parent_search (ucast (process_count s)) s;
     case r of
       Jumped c \<Rightarrow> Some (Jumped c, s)
     | Returned i \<Rightarrow> do {
         j \<leftarrow> (if i = ucast (process_count s) - 1 then child_search 0 s else Some 0);
         let i = i - 1;
         if load64 (store s) (t_ppid (curr_upcb s)) = load64 (store s) (ready_slot (ucast i) s)
         then run_slot i s
         else if load64 (store s) (curr_upcb s) = load64 (store s) (t_ppid (ready_slot (ucast j) s))
         then run_slot j s
         else idle s
       }
   }"

section \<open>The timer\<close>

definition timer_callback :: "'a process_scheme \<Rightarrow> (unit outcome \<times> 'a process_scheme) option" where
  "timer_callback s =
     (let s = PIC_sendEOI 0 s;
          s = s\<lparr>tick := tick s + 1\<rparr>
      in if tick s mod 160 = 0 \<and> boot_done s \<and> process_count s > 1
         then usr_schedule s else Some (Returned (), s))"

partial_function (option) sleep_loop :: "u64 \<Rightarrow> u64 \<Rightarrow> u64 option" where
  "sleep_loop tmp_tick secs = (if tmp_tick \<le> secs then sleep_loop (tmp_tick + 1) secs else Some tmp_tick)"

definition sleep_shell :: "u64 \<Rightarrow> 'a process_scheme \<Rightarrow> 'a process_scheme option" where
  "sleep_shell secs s = do {
     let tmp_tick = (ucast (tick s mod 100) :: u64);
     t \<leftarrow> (if tmp_tick = 0 then sleep_loop tmp_tick secs else Some tmp_tick);
     kprintf [char_newline] [] s
   }"

section \<open>Starting and leaving a thread\<close>

text \<open>A thread that has been set up and not run yet.\<close>

definition thread_at :: "memory \<Rightarrow> u64 \<Rightarrow> u64 \<Rightarrow> bool" where
  "thread_at m p t \<longleftrightarrow> load64 m (k_rip p) = t \<and> load64 m (k_rsp p) = k_stack p (STACK_SIZE - 2) \<and>
     load32 m (k_state p) = state_code READY"

lemma init_pcb_thread:
  assumes "init_pcb t s = (p, s')"
  shows "p = next_frame s + VIRT_BASE" "thread_at (store s') p t"
    "s' = (snd (page_alloc s))\<lparr>p_id := p_id s', store := store s'\<rparr>"
    "disjoint_regions p 4096 q n \<Longrightarrow> get_bytes (store s') q n = get_bytes (store (snd (page_alloc s))) q n"
proof -
  show "p = next_frame s + VIRT_BASE"
    using assms page_alloc_head [of s] by (auto simp add: init_pcb_def Let_def split: prod.splits)
  show "thread_at (store s') p t"
    using assms by (auto simp add: init_pcb_def Let_def thread_at_def load64_store_disjoint
        load32_store_disjoint disjoint_regions_def split: prod.splits)
  show "s' = (snd (page_alloc s))\<lparr>p_id := p_id s', store := store s'\<rparr>"
    using assms by (auto simp add: init_pcb_def Let_def split: prod.splits)
  assume dis: "disjoint_regions p 4096 q n"
  have sub: "disjoint_regions (p + of_nat i) k q n" if "i + k \<le> 4096" "0 < k" for i k
    using disjoint_sub [of q n p 4096 i k] dis that by (simp add: disjoint_regions_sym)
  show "get_bytes (store s') q n = get_bytes (store (snd (page_alloc s))) q n"
    using assms sub [of 2040 8] sub [of 2048 8] sub [of 2064 8] sub [of 2056 8] sub [of 2072 4] sub [of 2076 4]
    by (auto simp add: init_pcb_def Let_def store64_def store32_def get_put_disjoint split: prod.splits)
qed

abbreviation dispatch_regs :: "reg list" where
  "dispatch_regs \<equiv> [RAX, RBX, RCX, RDX, RBP, R15, R14, R13, R12, R11, R10, R9, R8, RSI, RDI]"

text \<open>What \<open>dispatch\<close> does to the store: the saved registers go below the stack pointer, and the
  stack pointer to offset 16 of the old context.\<close>

definition dispatch_store :: "u64 \<Rightarrow> u64 \<Rightarrow> 'a process_scheme \<Rightarrow> memory" where
  "dispatch_store me next s =
     store64 (store (fold push dispatch_regs (mov RSI next (mov RDI me s)))) (me + 0x10) (rsp s - 120)"

lemma dispatch_effect:
  "\<exists>s'. dispatch me next s =
      (Jumped (To_Code (load64 (dispatch_store me next s) (load64 (dispatch_store me next s) (next + 8) + 16))), s') \<and>
    store s' = dispatch_store me next s"
proof -
  define t where "t = fold push dispatch_regs (mov RSI next (mov RDI me s))"
  have t: "rsp t = rsp s - 120" "gpr t RDI = me" "gpr t RSI = next"
    unfolding t_def fold_push_simps by (simp_all add: mov_def)
  show ?thesis
    unfolding dispatch_def dispatch_store_def Let_def t_def [symmetric] t by (simp add: t add.assoc)
qed

lemma dispatch_store_outside:
  assumes "disjoint_regions (rsp s - 120) 120 q n" and "disjoint_regions (me + 16) 8 q n"
  shows "get_bytes (dispatch_store me next s) q n = get_bytes (store s) q n"
proof -
  have "get_bytes (store (fold push dispatch_regs (mov RSI next (mov RDI me s)))) q n =
      get_bytes (store (mov RSI next (mov RDI me s))) q n"
    using assms(1) by (intro fold_push_outside) (simp_all add: mov_def)
  then show ?thesis
    using assms(2) by (simp add: dispatch_store_def store64_def get_put_disjoint mov_def)
qed

text \<open>The state after two threads have been created in an empty list.\<close>

lemma two_threads:
  assumes empty: "proc_count_in_list s = 0" "ready_procs s = 0"
    and p: "p = next_frame s + VIRT_BASE" and nz: "p \<noteq> 0" "p + 4096 \<noteq> 0"
    and slot: "disjoint_regions (freelist_slot (snd (page_alloc s))) 4 p 4096"
    and s2: "s2 = snd (create_pcb t1 (snd (create_pcb t0 s)))"
  shows "processes s2 = p" "load64 (store s2) (k_next p) = p + 4096" "thread_at (store s2) (p + 4096) t1"
    "thread_at (store s2) p t0" "ready_procs s2 = 2" "rsp s2 = rsp s"
proof -
  obtain pa sa where a: "init_pcb t0 s = (pa, sa)" by (cases "init_pcb t0 s")
  note ia = init_pcb_thread [OF a]
  have pa: "pa = p" using ia(1) p by simp
  let ?s1 = "sa\<lparr>ready_procs := 1, proc_count_in_list := 1, processes := p, store := store64 (store sa) (k_next p) p\<rparr>"
  have sa: "proc_count_in_list sa = 0" "ready_procs sa = 0" "rsp sa = rsp s" "freelist sa = freelist s"
    "counter sa = counter s + 1" "next_frame sa = next_frame s + 4096"
    using empty page_alloc_fields [of s]
    by (subst ia(3), simp add: page_alloc_def clear_freelist_slot_def Let_def next_frame_def)+
  have s1: "snd (create_pcb t0 s) = ?s1"
    using sa nz by (simp add: create_pcb_def a pa add_to_ready_list_def Let_def)
  obtain pb sb where b: "init_pcb t1 ?s1 = (pb, sb)" by (cases "init_pcb t1 ?s1")
  note ib = init_pcb_thread [OF b]
  have "next_frame ?s1 = next_frame sa" by (simp add: next_frame_def)
  moreover have "freelist_slot ?s1 = freelist_slot (snd (page_alloc s))"
    using sa page_alloc_fields [of s] by (simp add: freelist_slot_def)
  ultimately have frame: "next_frame ?s1 = next_frame s + 4096"
    "freelist_slot ?s1 = freelist_slot (snd (page_alloc s))" using sa(6) by simp_all
  have "pb = next_frame s + 4096 + VIRT_BASE" using ib(1) unfolding frame .
  then have pb: "pb = p + 4096" using p by (simp add: add_ac)
  have apart: "apart ?s1 p 4096"
    using slot frame p by (simp add: apart_def disjoint_regions_def)
  have keep: "get_bytes (store sb) (p + of_nat i) k = get_bytes (store ?s1) (p + of_nat i) k"
    if "i + k \<le> 4096" "0 < k" for i k
  proof -
    have "disjoint_regions pb 4096 (p + of_nat i) k"
      unfolding pb using disjoint_within [of i k 4096 4096 p] that by (subst disjoint_regions_sym) simp
    from ib(4) [OF this] page_alloc_apart [OF apart that] show ?thesis by simp
  qed
  have sb: "processes sb = p" "ready_procs sb = 1" "proc_count_in_list sb = 1" "rsp sb = rsp s"
    using sa by (subst ib(3), simp add: page_alloc_def clear_freelist_slot_def Let_def)+
  have s2': "s2 = sb\<lparr>ready_procs := 2, proc_count_in_list := 2, store := store64 (store sb) (k_next p) (p + 4096)\<rparr>"
    using sb nz unfolding s2 s1 by (simp add: create_pcb_def b pb add_to_ready_list_def Let_def)
  have "disjoint_regions (k_next p) 8 (p + 4096 + of_nat i) k" if "i + k \<le> 4096" "0 < k" for i k
    using disjoint_within [of 2080 8 "4096 + i" k p] that by (simp add: add.assoc)
  from this [of 2048 8] this [of 2056 8] this [of 2072 4] show "thread_at (store s2) (p + 4096) t1"
    using ib(2) unfolding s2' pb by (simp add: thread_at_def load64_store_disjoint load32_store_disjoint)
  have "thread_at (store sa) p t0" using ia(2) pa by simp
  then have "thread_at (store ?s1) p t0"
    by (simp add: thread_at_def load64_store_disjoint load32_store_disjoint disjoint_regions_def)
  then have "thread_at (store sb) p t0"
    using load64_bytes [OF keep, of 2048] load64_bytes [OF keep, of 2056] load32_bytes [OF keep, of 2072]
    by (simp add: thread_at_def)
  then show "thread_at (store s2) p t0"
    unfolding s2' by (simp add: thread_at_def load64_store_disjoint load32_store_disjoint disjoint_regions_def)
  show "processes s2 = p" "load64 (store s2) (k_next p) = p + 4096" "ready_procs s2 = 2" "rsp s2 = rsp s"
    using sb unfolding s2' by simp_all
qed

text \<open>C8. Booting reaches \<open>init_entry\<close>: when the two kernel threads of \<open>boot\<close> have been created in an
  empty list, the idle loop switches to the second one, at its entry point and on its own stack.\<close>

theorem idle_starts_second_thread:
  assumes "proc_count_in_list s = 0" "ready_procs s = 0"
    and "p = next_frame s + VIRT_BASE" "p \<noteq> 0" "p + 4096 \<noteq> 0"
    and "disjoint_regions (freelist_slot (snd (page_alloc s))) 4 p 4096"
    and stack: "disjoint_regions (rsp s - 120) 120 p 8192"
  shows "\<exists>s'. idle (snd (create_pcb t1 (snd (create_pcb t0 s)))) = Some (Jumped (To_Code t1), s')"
proof -
  define s2 where "s2 = snd (create_pcb t1 (snd (create_pcb t0 s)))"
  note two = two_threads [OF assms(1-6) s2_def]
  let ?q = "p + 4096"
  let ?s3 = "set_kstate p READY (set_kstate ?q RUNNING s2)"
  have "?q \<noteq> p" by simp
  then have sched: "schedule p ?q s2 = dispatch (k_rip p) (k_rip ?q) ?s3"
    using two(3) by (simp add: schedule_def thread_at_def)
  let ?m = "dispatch_store (k_rip p) (k_rip ?q) ?s3"
  have far: "disjoint_regions (rsp ?s3 - 120) 120 (p + of_nat i) k" if "i + k \<le> 8192" "0 < k" for i k
    using disjoint_sub [OF stack that] two(6) by (simp add: set_kstate_def)
  have m: "load64 ?m (p + of_nat i) = load64 (store s2) (p + of_nat i)"
    if "4096 + 2048 \<le> i" "i + 8 \<le> 4096 + 2072" for i
  proof -
    have "get_bytes ?m (p + of_nat i) 8 = get_bytes (store ?s3) (p + of_nat i) 8"
      using far [of i 8] that disjoint_within [of "2048 + 16" 8 i 8 p]
      by (intro dispatch_store_outside) (simp_all add: add.assoc)
    then have "load64 ?m (p + of_nat i) = load64 (store ?s3) (p + of_nat i)" by (rule load64_bytes)
    moreover have "disjoint_regions (p + 2072) 4 (p + of_nat i) 8"
      using disjoint_within [of 2072 4 i 8 p] that by simp
    moreover have "disjoint_regions (p + of_nat i) 8 (p + of_nat (4096 + 2072)) 4"
      using that by (intro disjoint_within) simp_all
    then have "disjoint_regions (p + 4096 + 2072) 4 (p + of_nat i) 8"
      by (subst disjoint_regions_sym) (simp add: add.assoc)
    ultimately show ?thesis by (simp add: set_kstate_def load64_store_disjoint)
  qed
  have "load64 ?m (k_rip ?q + 8) = k_stack ?q 254" "load64 ?m (k_stack ?q 254 + 16) = t1"
    using m [of "4096 + 2056"] m [of "4096 + 2048"] two(3) by (simp_all add: thread_at_def add.assoc)
  then obtain s' where "schedule p ?q s2 = (Jumped (To_Code t1), s')"
    using dispatch_effect [of "k_rip p" "k_rip ?q" ?s3] unfolding sched by auto
  then have "yield s2 = Some (Jumped (To_Code t1), s')"
    using two(1,2,5) by (simp add: yield_def)
  then have "idle s2 = Some (Jumped (To_Code t1), s')" by (subst idle.simps) simp
  then show ?thesis unfolding s2_def by blast
qed

lemma demo_process_frame [simp]:
  "next_frame demo_process = 0x300000" "freelist_slot (snd (page_alloc demo_process)) = 0xFFFFFFFF80250004"
  by (simp_all add: next_frame_def freelist_slot_def page_alloc_fields demo_process_def demo_cpu_def demo_tarfs_def
      demo_keyboard_def demo_devices_def demo_user_def cpu.defs tarfs.defs devices.defs user_paging.defs keyboard.defs)

theorem idle_starts_second_thread_witness:
  "\<exists>s'. idle (snd (create_pcb 0x2000 (snd (create_pcb 0x1000 demo_process)))) = Some (Jumped (To_Code 0x2000), s')"
proof -
  have "proc_count_in_list demo_process = 0" "ready_procs demo_process = 0" by (simp_all add: demo_process_def cpu.defs)
  from idle_starts_second_thread [OF this, of "0xFFFFFFFF80300000" "0x2000" "0x1000"] show ?thesis
    by (simp add: disjoint_regions_def)
qed

text \<open>C36. \<open>dispatch\<close> saves the stack pointer in the wrong place: the thread that is left keeps the
  stack pointer of its last start, and its process number is overwritten by the stack pointer that
  should have been saved. A later switch to the thread starts it from the beginning.\<close>

theorem dispatch_forgets_stack:
  assumes "disjoint_regions (rsp s - 120) 120 old 2088"
  shows "\<exists>c s'. dispatch (k_rip old) next s = (Jumped c :: u32 outcome, s') \<and>
    load64 (store s') (k_rsp old) = load64 (store s) (k_rsp old) \<and> load64 (store s') (k_pid old) = rsp s - 120"
proof -
  obtain c s' where run: "dispatch (k_rip old) next s = (Jumped c :: u32 outcome, s')"
    and st: "store s' = dispatch_store (k_rip old) next s"
    using dispatch_effect [of "k_rip old" "next" s] by blast
  have "disjoint_regions (rsp s - 120) 120 (k_rsp old) 8" using disjoint_sub [OF assms, of 2056 8] by simp
  then have "get_bytes (dispatch_store (k_rip old) next s) (k_rsp old) 8 = get_bytes (store s) (k_rsp old) 8"
    by (intro dispatch_store_outside) (simp_all add: disjoint_regions_def)
  then have "load64 (store s') (k_rsp old) = load64 (store s) (k_rsp old)" unfolding st by (rule load64_bytes)
  moreover have "load64 (store s') (k_pid old) = rsp s - 120"
    unfolding st dispatch_store_def by (simp add: add.assoc)
  ultimately show ?thesis using run by blast
qed

theorem dispatch_forgets_stack_witness:
  "\<exists>c s'. dispatch (k_rip 0xFFFFFFFF80700000) 0xFFFFFFFF80711800 (demo_process\<lparr>store := \<lambda>_. 0\<rparr>) =
      (Jumped c :: u32 outcome, s') \<and>
    load64 (store s') (k_rsp 0xFFFFFFFF80700000) = load64 (\<lambda>_. 0) (k_rsp 0xFFFFFFFF80700000) \<and>
    load64 (store s') (k_pid 0xFFFFFFFF80700000) = 0xFFFFFFFF8023FF88"
  using dispatch_forgets_stack [of "demo_process\<lparr>store := \<lambda>_. 0\<rparr>" "0xFFFFFFFF80700000" "0xFFFFFFFF80711800"]
  by (simp add: disjoint_regions_def)

section \<open>The search of the scheduler\<close>

definition slot_pid :: "nat \<Rightarrow> 'a process_scheme \<Rightarrow> u64" where
  "slot_pid i s = load64 (store s) (ready_slot (of_nat i) s)"

lemma parent_search_unfold:
  assumes "1 \<le> k" and "k \<le> n" and "n = unat (process_count s)" and "1 < n"
  shows "parent_search (of_nat k) s =
    (if load64 (store s) (t_ppid (curr_upcb s)) \<noteq> slot_pid (k - 1) s \<and> slot_pid (k - 1) s \<noteq> 0 \<and> k \<noteq> n - 1
     then parent_search (of_nat (if k = n then 1 else k + 1)) s else Some (Returned (of_nat k)))"
proof -
  have n: "n < 2 ^ 16" using unsigned_less [of "process_count s", where ?'a = nat] assms(3) by simp
  have pc: "(ucast (process_count s) :: u32) = of_nat n" unfolding assms(3) by simp
  have u: "unat (of_nat j :: u32) = j" if "j \<le> n" for j
    using that n by (simp add: unat_of_nat)
  have "(of_nat k - 1 :: u32) = of_nat (k - 1)" using assms(1) by simp
  moreover have "unat (of_nat (k - 1) :: u32) = k - 1" using u [of "k - 1"] assms(2) by simp
  moreover have "ucast (of_nat (k - 1) :: u32) = (of_nat (unat (of_nat (k - 1) :: u32)) :: u64)"
    by (rule of_nat_unat [symmetric])
  ultimately have idx: "ucast (of_nat k - 1 :: u32) = (of_nat (k - 1) :: u64)" by (simp only:)
  have "(of_nat n - 1 :: u32) = of_nat (n - 1)" using assms(4) by simp
  moreover have "(of_nat k :: u32) = of_nat (n - 1) \<longleftrightarrow> k = n - 1"
  proof
    assume "(of_nat k :: u32) = of_nat (n - 1)"
    then have "unat (of_nat k :: u32) = unat (of_nat (n - 1) :: u32)" by (rule arg_cong)
    then show "k = n - 1" using u [OF assms(2)] u [OF diff_le_self] by (simp only:)
  qed simp
  ultimately have last: "(of_nat k :: u32) = of_nat n - 1 \<longleftrightarrow> k = n - 1" by (simp only:)
  have modn: "(of_nat k :: u32) mod of_nat n = 0 \<longleftrightarrow> k = n"
  proof -
    have "unat ((of_nat k :: u32) mod of_nat n) = k mod n" using u assms(2) by (simp add: unat_mod)
    then have "(of_nat k :: u32) mod of_nat n = 0 \<longleftrightarrow> k mod n = 0" by (simp add: unat_eq_0 [symmetric])
    then show ?thesis using assms(1,2) by (auto simp add: mod_if)
  qed
  have pc0: "process_count s \<noteq> 0" using assms(3,4) by auto
  have "of_nat (if k = n then 1 else k + 1) = (if k = n then 1 else of_nat k + 1 :: u32)" by simp
  then show ?thesis
    unfolding parent_search.simps [of "of_nat k" s] Let_def pc idx last modn slot_pid_def using pc0 by simp
qed

definition search_done :: "nat \<Rightarrow> 'a process_scheme \<Rightarrow> bool" where
  "search_done j s \<longleftrightarrow> slot_pid (j - 1) s = load64 (store s) (t_ppid (curr_upcb s)) \<or>
     slot_pid (j - 1) s = 0 \<or> j = unat (process_count s) - 1"

lemma parent_search_ends:
  assumes "1 \<le> k" and "k < n" and "n = unat (process_count s)" and "1 < n"
  shows "\<exists>j. k \<le> j \<and> j < n \<and> parent_search (of_nat k) s = Some (Returned (of_nat j)) \<and> search_done j s"
  using assms
proof (induction "n - k" arbitrary: k rule: less_induct)
  case less
  show ?case
  proof (cases "search_done k s")
    case True
    then have "parent_search (of_nat k) s = Some (Returned (of_nat k))"
      using parent_search_unfold [of k n s] less.prems by (auto simp add: search_done_def)
    then show ?thesis using True less.prems by auto
  next
    case False
    then have "parent_search (of_nat k) s = parent_search (of_nat (k + 1)) s"
      using parent_search_unfold [of k n s] less.prems by (auto simp add: search_done_def)
    moreover have k: "k + 1 < n" using False less.prems by (auto simp add: search_done_def)
    then have "n - (k + 1) < n - k" by simp
    from less.hyps [OF this _ k less.prems(3,4)] obtain j where "k + 1 \<le> j" "j < n" "parent_search (of_nat (k + 1)) s = Some (Returned (of_nat j))"
      "search_done j s"
      by auto
    ultimately show ?thesis by (intro exI [of _ j]) simp
  qed
qed

text \<open>C25. The search for the parent in \<open>usr_schedule\<close> ends whenever there is more than one process,
  which is when the timer calls it: it stops at a slot of the queue that holds the parent, at an
  unused slot, or at the last slot but one.\<close>

theorem parent_search_terminates:
  assumes "1 < unat (process_count s)"
  shows "\<exists>j. 1 \<le> j \<and> j \<le> unat (process_count s) \<and>
    parent_search (ucast (process_count s)) s = Some (Returned (of_nat j)) \<and> search_done j s"
proof -
  let ?n = "unat (process_count s)"
  have start: "ucast (process_count s) = (of_nat ?n :: u32)" by simp
  obtain j where j: "1 \<le> j" "j < ?n" "parent_search (of_nat 1) s = Some (Returned (of_nat j))" "search_done j s"
    using parent_search_ends [of 1 ?n s] assms by auto
  show ?thesis
  proof (cases "search_done ?n s")
    case True
    then have "parent_search (of_nat ?n) s = Some (Returned (of_nat ?n))"
      using parent_search_unfold [of ?n ?n s] assms by (auto simp add: search_done_def)
    then show ?thesis unfolding start using True assms by (intro exI [of _ ?n]) simp
  next
    case False
    then have "parent_search (of_nat ?n) s = parent_search (of_nat 1) s"
      using parent_search_unfold [of ?n ?n s] assms by (auto simp add: search_done_def)
    then show ?thesis unfolding start using j by (intro exI [of _ j]) simp
  qed
qed

theorem parent_search_terminates_witness:
  "\<exists>j. 1 \<le> j \<and> j \<le> 2 \<and>
    parent_search 2 (demo_process\<lparr>process_count := 2\<rparr>) = Some (Returned (of_nat j)) \<and>
    search_done j (demo_process\<lparr>process_count := 2\<rparr>)"
  using parent_search_terminates [of "demo_process\<lparr>process_count := 2\<rparr>"] by simp

end
