(* ===== verification/Interrupts.thy ===== *)
theory Interrupts
  imports Scheduler
begin

text \<open>
  The handlers behind the interrupt stubs: exceptions and device interrupts (\<open>sys/idt.c\<close>), page
  faults (\<open>include/sys/fault.h\<close>) and system calls (\<open>sys/syscall.c\<close>). A handler finds the saved
  registers at the address \<open>reg\<close> of the stack; a system call finds its number and arguments in
  the registers.
\<close>

section \<open>Page faults\<close>

definition panic :: "string \<Rightarrow> 'a process_scheme \<Rightarrow> 'a process_scheme option" where
  "panic msg s = do {
     s \<leftarrow> kprintf (bytes msg @ [char_newline]) [] s;
     Some (kshutdown s)
   }"

text \<open>A write of the kernel to a page that is not present. The lookups are given indices where they
  expect tables, as in the source.\<close>

definition kernel_write_fault :: "u64 \<Rightarrow> 'a process_scheme \<Rightarrow> 'a process_scheme" where
  "kernel_write_fault addr s =
     (let page = ROUNDDOWN addr PAGE_SIZE;
          pml = pml4_shared s;
          (pdp, s) = get_pdp page (get_pml4_offset page) s;
          (pd, s) = get_pd page (get_pdp_offset page) s;
          (pt, s) = get_pt page (get_pml4_offset page) s;
          pte = pt + 8 * get_pt_offset page;
          m = store64 (store s) pte (page_floor (load64 (store s) pte) OR KERN_PERM_BITS);
          m = store64 m (pd + 8 * get_pd_offset addr) (pt - VIRT_BASE);
          m = store64 m (pdp + 8 * get_pdp_offset addr) (pd - VIRT_BASE);
          m = store64 m (pml + 8 * get_pml4_offset addr) (pdp - VIRT_BASE);
          s = s\<lparr>store := m, pdp_shared := pdp, pd_shared := pd, pt_shared := pt\<rparr>
      in tlb_flush (pml4_shared s - VIRT_BASE) s)"

definition page_fault_handler ::
  "u64 \<Rightarrow> 'a process_scheme \<Rightarrow> (unit outcome \<times> 'a process_scheme) option" where
  "page_fault_handler error_no s =
     (let addr = cr2 s;
          kernbase = VIRT_BASE + physbase s;
          kernfree = VIRT_BASE + physfree s
      in do {
        s \<leftarrow> (if kernbase \<le> addr \<and> addr < kernfree then panic ''Kernel Address Accessed. Exiting'' s else Some s);
        let s = (if addr > VIRT_BASE \<and> error_no = 7 then set_kernel_page_user (ROUNDDOWN addr PAGE_SIZE) s else s);
        s \<leftarrow> (if error_no = 1 then panic ''Kernel Panic'' s else Some s);
        let s = (if error_no = 2 then kernel_write_fault addr s else s);
        s \<leftarrow> (if error_no = 3 then panic ''Kernel Panic'' s else Some s);
        s \<leftarrow> (if error_no = 4 then map_option snd (memmap addr PAGE_SIZE COW_PERM_BITS ACCESSED_NOT_PRESENT s)
             else Some s);
        continue
          (if error_no = 5 then do {
             s \<leftarrow> kprintf (bytes ''Segfault'' @ [char_newline]) [] s;
             exit_process 1 s
           }
           else Some (Returned (), s))
          (\<lambda>_ s. do {
             s \<leftarrow> (if error_no = 6 then map_option snd (memmap addr PAGE_SIZE USR_PERM_BITS ACCESSED_NOT_PRESENT s)
                  else Some s);
             s \<leftarrow> (if error_no = 7 then map_option snd (memmap addr PAGE_SIZE USR_PERM_BITS SET_COW_RW s) else Some s);
             Some (Returned (), s)
           })
      })"

section \<open>Exceptions and device interrupts\<close>

definition irq_handler :: "u64 \<Rightarrow> 'a process_scheme \<Rightarrow> 'a process_scheme" where
  "irq_handler reg s =
     (let s = (if load64 (store s) (reg_int_no reg) = 33 then keyboard_handler s else s)
      in outb 0x20 0x20 s)"

definition isr_handler :: "u64 \<Rightarrow> 'a process_scheme \<Rightarrow> (unit outcome \<times> 'a process_scheme) option" where
  "isr_handler reg s =
     (let int_no = load64 (store s) (reg_int_no reg)
      in if int_no = 32 \<or> int_no = 33 then Some (Returned (), irq_handler reg s)
         else if int_no = 10 then do {
           s \<leftarrow> kprintf (bytes ''TSS Exception '' @ [char_newline]) [] s;
           Some (Returned (), s)
         }
         else if int_no = 0 then do {
           s \<leftarrow> panic ''Divide by Zero'' s;
           Some (Returned (), s)
         }
         else if int_no = 14 then page_fault_handler (load64 (store s) (reg_err_no reg)) s
         else Some (Returned (), s))"

section \<open>System calls\<close>

partial_function (option) read_str :: "memory \<Rightarrow> u64 \<Rightarrow> u8 list option" where
  "read_str m p = (if m p = 0 then Some [] else do { cs \<leftarrow> read_str m (p + 1); Some (m p # cs) })"

text \<open>\<open>movq val, %rax\<close>. The branches that do not load \<open>%rax\<close> leave it as it is in the model.\<close>

definition ret_rax :: "u64 \<Rightarrow> 'a process_scheme \<Rightarrow> unit outcome \<times> 'a process_scheme" where
  "ret_rax val s = (Returned (), mov RAX val s)"

definition ret_unit :: "'a process_scheme \<Rightarrow> unit outcome \<times> 'a process_scheme" where
  "ret_unit s = (Returned (), s)"

text \<open>The scan codes that arrive while the call waits for input are an argument. What \<open>exec\<close> and
  \<open>sleep_proc\<close> would return is not seen, because they jump.\<close>

definition isr_handler128 ::
  "u8 list \<Rightarrow> 'a process_scheme \<Rightarrow> (unit outcome \<times> 'a process_scheme) option" where
  "isr_handler128 codes s =
     (let syscall_no = gpr s RAX; buf = gpr s RBX; arg1 = gpr s RCX; arg2 = gpr s RDX
      in if syscall_no = 2 then do {
           fmt \<leftarrow> read_str (store s) buf;
           map_option ret_unit (kprintf fmt [] s)
         }
         else if syscall_no = 3 then (let (ptr, s) = page_alloc s in Some (ret_rax ptr s))
         else if syscall_no = 4 then do {
           (val, s) \<leftarrow> fork_process s;
           Some (ret_rax (if tick s mod 120 \<noteq> 0 then 0 else scast val) s)
         }
         else if syscall_no = 5 then exit_process (ucast buf) s
         else if syscall_no = 6 then continue (sleep_proc buf s) (\<lambda>val s. Some (ret_rax val s))
         else if syscall_no = 7 then (let (val, s) = malloc buf s in Some (ret_rax val s))
         else if syscall_no = 8 then Some (ret_rax (get_pid s) s)
         else if syscall_no = 9 then Some (ret_rax (get_ppid s) s)
         else if syscall_no = 10 then continue (exec buf arg1 arg2 s) (\<lambda>val s. Some (ret_rax val s))
         else if syscall_no = 11 then Some (ret_unit (sti s))
         else if syscall_no = 12 then do { (hdr, s) \<leftarrow> opendir buf s; Some (ret_rax hdr s) }
         else if syscall_no = 13 then do { (val, s) \<leftarrow> readdir buf s; Some (ret_rax val s) }
         else if syscall_no = 14 then do { (fd, s) \<leftarrow> openfile buf s; Some (ret_rax fd s) }
         else if syscall_no = 15 then do {
           (bytes_read, s, rest) \<leftarrow> readfile codes buf (ucast arg1) arg2 s;
           Some (ret_rax bytes_read s)
         }
         else if syscall_no = 16 then
           continue (Some (syswaitpid (ucast buf) (ucast arg1) s)) (\<lambda>val s. Some (ret_rax (scast val) s))
         else if syscall_no = 17 then map_option ret_unit (dp s)
         else if syscall_no = 18 then map_option ret_unit (sleep_shell buf (sti s))
         else if syscall_no = 19 then Some (ret_unit (kshutdown s))
         else if syscall_no = 20 then (let (val, s) = putc (ucast buf) s in Some (ret_rax (word_of_int val) s))
         else if syscall_no = 21 then kill_process buf s
         else if syscall_no = 22 then Some (ret_unit (clear_screen s))
         else Some (ret_unit s))"

section \<open>Faults of user code\<close>

text \<open>C3. A page fault of user code on a page that is not mapped is repaired: whether the access was a
  read or a write, the handler returns, and in the tables that are then loaded every address of the
  page leads to the next user frame, readable by user code, and writable after a write.\<close>

theorem user_fault_maps_page:
  assumes "\<not> (VIRT_BASE + physbase s \<le> cr2 s \<and> cr2 s < VIRT_BASE + physfree s)"
    and "layout_ok 3 s" and "path_ok s (cr2 s)" and "frame_ok (usr_phys_addr s)"
    and "ROUNDDOWN va PAGE_SIZE = ROUNDDOWN (cr2 s) PAGE_SIZE"
  shows "\<exists>s'. page_fault_handler (if write then 6 else 4) s = Some (Returned (), s') \<and>
    walk VIRT_BASE (store s') (cr3 s') va =
      Some (usr_phys_addr s + (va AND 0xFFF), if write then USR_PERM_BITS else COW_PERM_BITS)"
proof -
  let ?perm = "if write then USR_PERM_BITS else COW_PERM_BITS"
  have "perm_ok ?perm" by simp
  from memmap_fault_page [OF assms(2-4) this] assms(5) obtain s' where
    "memmap (cr2 s) PAGE_SIZE ?perm ACCESSED_NOT_PRESENT s = Some (cr2 s, s')"
    "walk VIRT_BASE (store s') (cr3 s') va = Some (usr_phys_addr s + (va AND 0xFFF), ?perm)"
    by blast
  then show ?thesis
    using assms(1) by (cases "write") (auto simp add: page_fault_handler_def Let_def)
qed

lemmas demo_defs = demo_process_def demo_cpu_def demo_tarfs_def demo_keyboard_def demo_devices_def demo_user_def
  cpu.defs tarfs.defs keyboard.defs devices.defs user_paging.defs

theorem user_fault_maps_page_witness:
  "\<exists>s'. page_fault_handler 6 (demo_process\<lparr>store := \<lambda>_. 0, cr2 := 0x8eee71234\<rparr>) = Some (Returned (), s') \<and>
    walk VIRT_BASE (store s') (cr3 s') 0x8eee71008 = Some (0x5000008, USR_PERM_BITS)"
proof -
  let ?s = "demo_process\<lparr>store := \<lambda>_. 0, cr2 := 0x8eee71234\<rparr>"
  have zero: "load64 (\<lambda>_. 0) a = 0" for a by (simp add: load64_zero)
  have "layout_ok 3 ?s" "frame_ok (usr_phys_addr ?s)" "path_ok ?s (cr2 ?s)"
    "\<not> (VIRT_BASE + physbase ?s \<le> cr2 ?s \<and> cr2 ?s < VIRT_BASE + physfree ?s)"
    by (simp_all add: demo_defs layout_ok_def page_aligned_def koff_def next_frame_def frame_ok_def path_ok_def
        pool_page_def zero)
  moreover have "usr_phys_addr ?s = 0x5000000" by (simp add: demo_defs)
  ultimately show ?thesis
    using user_fault_maps_page [of ?s "0x8eee71008" True] by (simp add: ROUNDDOWN_def)
qed

section \<open>Keyboard interrupts\<close>

lemma keyboard_handler_store:
  assumes "screen_ok s" and "\<not> in_video a" and "a \<noteq> kbd_cell s"
  shows "store (keyboard_handler s) a = store s a"
proof -
  have put: "store (putch c t) a = store t a" if "con_x t = con_x s" "con_y t = con_y s" for c and t :: "'a keyboard_scheme"
    using tty.step_outside [of t a c] assms(1,2) that by (simp add: screen_ok_def)
  have "store (accept_key v t) a = store t a"
    if "con_x t = con_x s" "con_y t = con_y s" "kbd_cell t = kbd_cell s" for v and t :: "'a keyboard_scheme"
    using put that assms(3) by (simp add: accept_key_def Let_def set_kcounter_def)
  then show ?thesis
    by (simp add: keyboard_handler_def Let_def PIC_sendEOI_def outb_def kbd_cell_def kcounter_def)
qed

lemma putch_rsp [simp]: "rsp (putch c s) = rsp s" "gpr (putch c s) = gpr s"
  by (simp_all add: putch_def emit_char_def tab_step_def newline_step_def wrap_cursor_def placechar_def Let_def)

lemma irq_handler_rsp: "rsp (irq_handler reg s) = rsp s"
  by (simp add: irq_handler_def keyboard_handler_def accept_key_def PIC_sendEOI_def outb_def set_kcounter_def Let_def)

lemma irq_handler_store:
  assumes "screen_ok s" and "\<not> in_video a" and "a \<noteq> kbd_cell s"
  shows "store (irq_handler reg s) a = store s a"
  using keyboard_handler_store [OF assms] by (simp add: irq_handler_def outb_def Let_def)

text \<open>The states in which the handler of device interrupts keeps the frame: what it writes, the
  screen and the next cell of the line buffer, is not on the stack.\<close>

definition frame_safe :: "u64 \<Rightarrow> 'a process_scheme \<Rightarrow> bool" where
  "frame_safe p s \<longleftrightarrow> screen_ok s \<and> disjoint_regions VIDEO_ADDR 4000 p 176 \<and> disjoint_regions (kbd_cell s) 1 p 176"

interpretation device_irq: frame_keeping "\<lambda>s. frame_safe (rsp s) s" "\<lambda>s. irq_handler (rsp s) s"
proof unfold_locales
  fix s :: "'a process_scheme" assume safe: "frame_safe (rsp s) s"
  show "rsp (irq_handler (rsp s) s) = rsp s" by (rule irq_handler_rsp)
  show "get_bytes (store (irq_handler (rsp s) s)) (rsp s) 176 = get_bytes (store s) (rsp s) 176"
  proof (rule nth_equalityI)
    fix i assume "i < length (get_bytes (store (irq_handler (rsp s) s)) (rsp s) 176)"
    then have i: "i < 176" by simp
    have "4000 \<le> unat (rsp s + of_nat i - VIDEO_ADDR)" "1 \<le> unat (rsp s + of_nat i - kbd_cell s)"
      using safe i by (auto intro!: disjoint_offset [where k = 176] simp add: frame_safe_def)
    then have "store (irq_handler (rsp s) s) (rsp s + of_nat i) = store s (rsp s + of_nat i)"
      using safe by (intro irq_handler_store) (auto simp add: frame_safe_def in_video_def)
    then show "get_bytes (store (irq_handler (rsp s) s)) (rsp s) 176 ! i = get_bytes (store s) (rsp s) 176 ! i"
      using i by simp
  qed simp
qed

lemma irq1_enter_state: "\<exists>m g. irq1_enter s = s\<lparr>interrupts := False, rsp := rsp s - 136, store := m, gpr := g\<rparr>"
proof -
  define t where "t = push_val 0x21 (push_val 0 (cli s))"
  define u where "u = PUSHA t"
  have "u = t\<lparr>rsp := rsp u, store := store u\<rparr>" unfolding u_def PUSHA_def by (subst fold_push) simp
  moreover have "rsp u = rsp s - 136" by (simp add: u_def t_def PUSHA_frame push_val_def cli_def)
  ultimately have "u = s\<lparr>interrupts := False, rsp := rsp s - 136, store := store u\<rparr>"
    by (simp add: t_def push_val_def cli_def)
  then have "u\<lparr>gpr := g\<rparr> = s\<lparr>interrupts := False, rsp := rsp s - 136, store := store u, gpr := g\<rparr>" for g
    by (rule arg_cong)
  moreover have "irq1_enter s = u\<lparr>gpr := (gpr u)(RDI := rsp u)\<rparr>"
    by (simp add: irq1_enter_def isr_coord_enter_def u_def t_def Let_def mov_def)
  ultimately have "irq1_enter s = s\<lparr>interrupts := False, rsp := rsp s - 136, store := store u, gpr := (gpr u)(RDI := rsp u)\<rparr>"
    by (simp only:)
  then show ?thesis by blast
qed

text \<open>The two words that the stub pushes lie below the processor's frame.\<close>

lemma hw_frame_push:
  assumes "hw_frame s0 (store t) (rsp t)"
  shows "hw_frame s0 (store (push_val v (push_val w (cli t)))) (rsp (push_val v (push_val w (cli t))) + 16)"
  using assms by (simp add: hw_frame_def push_val_def cli_def load64_store_disjoint disjoint_regions_def)

text \<open>C10. A keyboard interrupt is invisible to the code that it interrupts, in user mode as in the
  kernel: as long as the stack of the interrupt does not overlap with the screen and the line buffer,
  the processor's switch to the handler, the stub, the handler, the stub's return path and \<open>iretq\<close>
  give back the program counter, the mode, the stack, the flags and all registers.\<close>

theorem keyboard_interrupt_transparent:
  assumes "frame_safe (interrupt_stack s - 176) s" and "u = irq1_enter (take_interrupt h s)"
  shows "\<exists>r. isr_handler (rsp u) u = Some (Returned (), r) \<and>
    resumes s (iretq (isr_coord_leave r)) \<and> gpr (iretq (isr_coord_leave r)) = gpr s"
proof -
  let ?t = "take_interrupt h s"
  let ?v = "push_val 0x21 (push_val 0 (cli ?t))"
  have enter: "u = isr_coord_enter ?v" by (simp add: assms(2) irq1_enter_def)
  obtain m g where st: "u = ?t\<lparr>interrupts := False, rsp := rsp ?t - 136, store := m, gpr := g\<rparr>"
    using irq1_enter_state assms(2) by blast
  obtain m' where t: "?t = s\<lparr>rsp := interrupt_stack s - 40, store := m', interrupts := False, rip := h, seg_cs := 8,
      seg_ss := (if user_mode s then 0 else seg_ss s)\<rparr>"
    using take_interrupt_frame(4) by blast
  have "rsp ?t = interrupt_stack s - 40" by (rule take_interrupt_frame)
  moreover have "screen_ok ?t = screen_ok s" "kbd_cell ?t = kbd_cell s"
    by (simp_all add: t screen_ok_def kbd_cell_def kcounter_def)
  ultimately have "frame_safe (rsp u) u"
    using assms(1) unfolding st by (simp add: frame_safe_def screen_ok_def kbd_cell_def kcounter_def)
  moreover have "hw_frame s (store ?v) (rsp ?v + 16)"
    by (intro hw_frame_push) (simp add: take_interrupt_frame)
  ultimately have "resumes s (iretq (isr_coord_leave (irq_handler (rsp u) u)))"
    "gpr (iretq (isr_coord_leave (irq_handler (rsp u) u))) = gpr ?v"
    unfolding enter by (rule device_irq.interrupted_code_resumes)+
  moreover have "load64 (store u) (reg_int_no (rsp u)) = 33"
    unfolding enter isr_coord_enter_reads push_val_reads by simp
  then have "isr_handler (rsp u) u = Some (Returned (), irq_handler (rsp u) u)"
    unfolding isr_handler_def Let_def by simp
  moreover have "gpr ?v = gpr s" by (simp add: push_val_def cli_def take_interrupt_frame)
  ultimately show ?thesis by simp
qed

theorem keyboard_interrupt_transparent_witness:
  "\<exists>r. isr_handler (rsp (irq1_enter (take_interrupt 0 demo_process))) (irq1_enter (take_interrupt 0 demo_process)) =
      Some (Returned (), r) \<and>
    rip (iretq (isr_coord_leave r)) = 0x401000 \<and> rsp (iretq (isr_coord_leave r)) = 0xFFFFFFFF80240000 \<and>
    gpr (iretq (isr_coord_leave r)) = gpr demo_process"
proof -
  have "interrupt_stack demo_process = 0xFFFFFFFF80240000"
    by (simp add: interrupt_stack_def user_mode_def demo_defs)
  then have "frame_safe (interrupt_stack demo_process - 176) demo_process"
    by (simp add: frame_safe_def demo_defs screen_ok_def disjoint_regions_def kbd_cell_def kcounter_def)
  moreover have "rip demo_process = 0x401000" by (simp add: demo_defs)
  ultimately show ?thesis
    using keyboard_interrupt_transparent [of demo_process _ 0] by (auto simp add: resumes_def)
qed

section \<open>Waiting for a child\<close>

lemma find_child_at: "find_child s P i n = Some j \<Longrightarrow> P (ready_slot (of_nat j) s)"
  by (induction n arbitrary: i) (auto split: if_splits)

text \<open>C26. Waiting for a child that is still alive raises an interrupt that nobody handles: \<open>syswaitpid\<close> marks the
  process as waiting and raises interrupt \<open>0x81\<close>, but the table that \<open>set_up_idt\<close> leaves has no
  gate for it.\<close>

theorem waitpid_raises_missing_interrupt:
  assumes "set_up_idt s0 = Some s1" and "length (ivt s0) = NUMBER_OF_IDT_ENTRIES" and "ivt s0 ! 0x81 = gate 0 0 0"
    and "ivt s = ivt s1" and "0 \<le>s pid"
    and "find_child s (\<lambda>p. load64 (store s) p = scast pid) 1 (unat (process_count s)) = Some i"
    and "load32 (store s) (t_state (ready_slot (of_nat i) s)) \<noteq> state_code ZOMBIE"
    and "disjoint_regions (curr_upcb s) 4400 (ready_slot (of_nat i) s) 4400"
  shows "\<exists>s'. syswaitpid pid status s = (Jumped (Interrupt 0x81), s') \<and>
    load32 (store s') (t_state (curr_upcb s)) = state_code WAIT \<and> type_attr (ivt s' ! 0x81) AND 0x80 = 0"
proof -
  let ?c = "ready_slot (of_nat i) s" and ?p = "curr_upcb s"
  have "ivt s1 ! 0x81 = gate 0 0 0"
    using assms(1-3) by (auto simp add: set_up_idt_def ivt_set_gate_def load_idtr_def enable_interrupt_flag_def Let_def split: if_splits option.splits)
  then have gate: "type_attr (ivt s ! 0x81) = 0" using assms(4) by (simp add: gate_def)
  have "\<not> pid <s 0" using assms(5) by (simp add: word_sless_alt word_sle_eq)
  moreover have "disjoint_regions (t_state ?p) 4 (t_state ?c) 4" "disjoint_regions (t_wait_pid ?p) 8 (t_state ?c) 4"
    using disjoint_subs [OF assms(8), of 4128 4 4128 4] disjoint_subs [OF assms(8), of 4320 8 4128 4] by simp_all
  moreover have "disjoint_regions (t_wait_pid ?p) 8 (t_state ?p) 4" by (simp add: disjoint_regions_def)
  ultimately show ?thesis
    using assms(6,7) gate by (simp add: syswaitpid_def Let_def set_state_def load32_store_disjoint)
qed

theorem waitpid_raises_missing_interrupt_witness:
  "\<exists>s1 s'. set_up_idt demo_process = Some s1 \<and>
    syswaitpid 7 0 (demo_process\<lparr>store := store64 (\<lambda>_. 0) 0xFFFFFFFF80681130 7, ivt := ivt s1\<rparr>) =
      (Jumped (Interrupt 0x81), s') \<and>
    load32 (store s') (t_state 0xFFFFFFFF80680000) = 0 \<and> type_attr (ivt s' ! 0x81) AND 0x80 = 0"
proof -
  have len: "length (ivt demo_process) = NUMBER_OF_IDT_ENTRIES" "ivt demo_process ! 0x81 = gate 0 0 0"
    by (simp_all add: demo_defs nth_replicate)
  have "ivt demo_process \<noteq> []" using len(1) by auto
  then obtain s1 where s1: "set_up_idt demo_process = Some s1"
    using len(1) by (auto simp add: set_up_idt_def ivt_set_gate_def load_idtr_def enable_interrupt_flag_def Let_def)
  let ?s = "demo_process\<lparr>store := store64 (\<lambda>_. 0) 0xFFFFFFFF80681130 7, ivt := ivt s1\<rparr>"
  have slot: "ready_slot (of_nat 1) ?s = 0xFFFFFFFF80681130" by (simp add: ready_slot_def)
  have zero: "load32 (\<lambda>_. 0) a = 0" for a by (simp add: load32_def get_bytes_def join_bytes_def upt_rec)
  have child: "find_child ?s (\<lambda>p. load64 (store ?s) p = scast (7 :: u32)) 1 (unat (process_count ?s)) = Some 1"
    using slot by simp
  have alive: "load32 (store ?s) (t_state (ready_slot (of_nat 1) ?s)) \<noteq> state_code ZOMBIE"
    unfolding slot by (simp add: load32_store_disjoint disjoint_regions_def zero)
  have apart: "disjoint_regions (curr_upcb ?s) 4400 (ready_slot (of_nat 1) ?s) 4400"
    unfolding slot by (simp add: disjoint_regions_def)
  have "ivt ?s = ivt s1" "0 \<le>s (7 :: u32)" by (simp_all add: word_sle_eq)
  from waitpid_raises_missing_interrupt [OF s1 len this child alive apart, of 0] s1 show ?thesis by auto
qed

end
