(* ===== verification/Libc.thy ===== *)
theory Libc
  imports Interrupts
begin

text \<open>
  The C library and the start-up code of user programs (\<open>libc\<close>, \<open>crt/crt1.c\<close>,
  \<open>include/sys/syscall.h\<close>). User code runs on the state of the whole machine: a system call is the interrupt
  \<open>0x80\<close>, handled by \<open>isr_handler128\<close>. The string functions have the text of the kernel's and
  are therefore the same functions.
\<close>

section \<open>System calls\<close>

text \<open>
  The interrupt, the stub \<open>isr128\<close> around the handler, and the return. The program counter is not followed
  through C code: its value stands for the return address. The scan codes that arrive meanwhile are an
  argument.
\<close>

definition int80 :: "u8 list \<Rightarrow> 'a process_scheme \<Rightarrow> (u64 outcome \<times> 'a process_scheme) option" where
  "int80 codes s =
     continue (isr_handler128 codes (PUSHA (take_interrupt (isr128 (isrs s)) s)))
       (\<lambda>_ t. let u = iretq (isr128_leave t) in Some (Returned (gpr u RAX), u))"

definition syscall0 :: "u64 \<Rightarrow> 'a process_scheme \<Rightarrow> (u64 outcome \<times> 'a process_scheme) option" where
  "syscall0 n s = int80 [] (mov RAX n s)"

definition syscall1 :: "u64 \<Rightarrow> u64 \<Rightarrow> 'a process_scheme \<Rightarrow> (u64 outcome \<times> 'a process_scheme) option" where
  "syscall1 n1 n2 s = int80 [] (mov RBX n2 (mov RAX n1 s))"

definition syscall2 ::
  "u64 \<Rightarrow> u64 \<Rightarrow> u64 \<Rightarrow> 'a process_scheme \<Rightarrow> (u64 outcome \<times> 'a process_scheme) option" where
  "syscall2 n1 n2 n3 s = int80 [] (mov RCX n3 (mov RBX n2 (mov RAX n1 s)))"

definition syscall3 ::
  "u8 list \<Rightarrow> u64 \<Rightarrow> u64 \<Rightarrow> u64 \<Rightarrow> u64 \<Rightarrow> 'a process_scheme \<Rightarrow> (u64 outcome \<times> 'a process_scheme) option" where
  "syscall3 codes n1 n2 n3 n4 s = int80 codes (mov RDX n4 (mov RCX n3 (mov RBX n2 (mov RAX n1 s))))"

text \<open>Discarding and truncating the result.\<close>

definition as_unit :: "('r outcome \<times> 's) option \<Rightarrow> (unit outcome \<times> 's) option" where
  "as_unit r = continue r (\<lambda>_ s. Some (Returned (), s))"

definition as_u32 :: "(u64 outcome \<times> 's) option \<Rightarrow> (u32 outcome \<times> 's) option" where
  "as_u32 r = continue r (\<lambda>v s. Some (Returned (ucast v), s))"

definition fork :: "'a process_scheme \<Rightarrow> (u32 outcome \<times> 'a process_scheme) option" where
  "fork s = as_u32 (syscall0 4 s)"

definition exit :: "u32 \<Rightarrow> 'a process_scheme \<Rightarrow> (u32 outcome \<times> 'a process_scheme) option" where
  "exit status s = as_u32 (syscall1 5 (scast status) s)"

definition sleep :: "u64 \<Rightarrow> 'a process_scheme \<Rightarrow> (u64 outcome \<times> 'a process_scheme) option" where
  "sleep seconds s = syscall1 6 seconds s"

definition user_malloc :: "u64 \<Rightarrow> 'a process_scheme \<Rightarrow> (u64 outcome \<times> 'a process_scheme) option" where
  "user_malloc sz s = syscall1 7 sz s"

definition getpid :: "'a process_scheme \<Rightarrow> (u32 outcome \<times> 'a process_scheme) option" where
  "getpid s = as_u32 (syscall0 8 s)"

definition getppid :: "'a process_scheme \<Rightarrow> (u32 outcome \<times> 'a process_scheme) option" where
  "getppid s = as_u32 (syscall0 9 s)"

definition kill :: "u64 \<Rightarrow> 'a process_scheme \<Rightarrow> (unit outcome \<times> 'a process_scheme) option" where
  "kill pid s = as_unit (syscall1 21 pid s)"

definition execvpe ::
  "u64 \<Rightarrow> u64 \<Rightarrow> u64 \<Rightarrow> 'a process_scheme \<Rightarrow> (u32 outcome \<times> 'a process_scheme) option" where
  "execvpe path argv envp s = as_u32 (syscall3 [] 10 path argv envp s)"

definition user_opendir :: "u64 \<Rightarrow> 'a process_scheme \<Rightarrow> (u64 outcome \<times> 'a process_scheme) option" where
  "user_opendir dir s = syscall1 12 dir s"

definition read_dir :: "u64 \<Rightarrow> 'a process_scheme \<Rightarrow> (unit outcome \<times> 'a process_scheme) option" where
  "read_dir dir s = as_unit (syscall1 13 dir s)"

definition open_file :: "u64 \<Rightarrow> 'a process_scheme \<Rightarrow> (u64 outcome \<times> 'a process_scheme) option" where
  "open_file file_name s = continue (syscall1 14 file_name s)
     (\<lambda>addr s. if addr = 0 then Some (Returned 0, s) else Some (Returned addr, s))"

definition read_fd ::
  "u8 list \<Rightarrow> u64 \<Rightarrow> u64 \<Rightarrow> u64 \<Rightarrow> 'a process_scheme \<Rightarrow> (u64 outcome \<times> 'a process_scheme) option" where
  "read_fd codes fd buf count s = syscall3 codes 15 fd count buf s"

definition waitpid :: "u32 \<Rightarrow> u32 \<Rightarrow> 'a process_scheme \<Rightarrow> (u32 outcome \<times> 'a process_scheme) option" where
  "waitpid pid status s = as_u32 (syscall2 16 (scast pid) (scast status) s)"

definition ps :: "'a process_scheme \<Rightarrow> (unit outcome \<times> 'a process_scheme) option" where
  "ps s = as_unit (syscall0 17 s)"

definition shutdown :: "'a process_scheme \<Rightarrow> (unit outcome \<times> 'a process_scheme) option" where
  "shutdown s = as_unit (syscall0 19 s)"

definition sleepshell :: "u64 \<Rightarrow> 'a process_scheme \<Rightarrow> (unit outcome \<times> 'a process_scheme) option" where
  "sleepshell ticks s = as_unit (syscall1 18 ticks s)"

definition clear :: "'a process_scheme \<Rightarrow> (unit outcome \<times> 'a process_scheme) option" where
  "clear s = as_unit (syscall0 22 s)"

section \<open>Strings\<close>

definition strcmp :: "memory \<Rightarrow> u64 \<Rightarrow> u64 \<Rightarrow> int option" where
  "strcmp m str1 str2 = kstrcmp m str1 str2"

definition strncmp :: "memory \<Rightarrow> u64 \<Rightarrow> u64 \<Rightarrow> u64 \<Rightarrow> int option" where
  "strncmp m str1 str2 n = kstrncmp m str1 str2 n"

definition strlen :: "memory \<Rightarrow> u64 \<Rightarrow> u64 option" where
  "strlen m str = kstrlen m str"

definition strcpy :: "memory \<Rightarrow> u64 \<Rightarrow> u64 \<Rightarrow> memory option" where
  "strcpy m dst src = kstrcpy m dst src"

definition strncpy :: "memory \<Rightarrow> u64 \<Rightarrow> u64 \<Rightarrow> u64 \<Rightarrow> memory" where
  "strncpy m dst src n = kstrncpy m dst src n"

definition strcat :: "memory \<Rightarrow> u64 \<Rightarrow> u64 \<Rightarrow> memory option" where
  "strcat m str1 str2 = kstrcat m str1 str2"

definition memcpy :: "memory \<Rightarrow> u64 \<Rightarrow> u64 \<Rightarrow> u64 \<Rightarrow> memory" where
  "memcpy m dest src n = kmemcpy m dest src n"

definition memmove :: "memory \<Rightarrow> u64 \<Rightarrow> u64 \<Rightarrow> u64 \<Rightarrow> memory" where
  "memmove m dest src n = kmemmove m dest src n"

definition strtok ::
  "strtok_state \<Rightarrow> memory \<Rightarrow> u64 \<Rightarrow> u64 \<Rightarrow> (strtok_state \<times> memory \<times> u64) option" where
  "strtok st m str delim = kstrtok st m str delim"

definition user_stoi :: "memory \<Rightarrow> u64 \<Rightarrow> u64" where
  "user_stoi m str = stoi m str"

definition user_itoa :: "memory \<Rightarrow> int \<Rightarrow> u64 \<Rightarrow> int \<Rightarrow> (memory \<times> u64) option" where
  "user_itoa m value str base = itoa m value str base"

definition user_power :: "u64 \<Rightarrow> nat \<Rightarrow> u64" where
  "user_power base pow = kpower base pow"

definition user_oct2dec :: "u64 \<Rightarrow> u64" where
  "user_oct2dec oct = oct2dec oct"

text \<open>\<open>user_memory.c\<close> repeats two routines of \<open>str_ops.c\<close>, and \<open>vm.c\<close> holds the stubs of an allocator without memory.\<close>

definition user_memory_memcpy :: "memory \<Rightarrow> u64 \<Rightarrow> u64 \<Rightarrow> u64 \<Rightarrow> memory" where
  "user_memory_memcpy m dest src n = kmemcpy m dest src n"

definition user_memory_memmove :: "memory \<Rightarrow> u64 \<Rightarrow> u64 \<Rightarrow> u64 \<Rightarrow> memory" where
  "user_memory_memmove m dest src n = kmemmove m dest src n"

definition vm_free :: "u64 \<Rightarrow> 'a process_scheme \<Rightarrow> 'a process_scheme" where
  "vm_free ptr s = s"

definition vm_malloc :: "u64 \<Rightarrow> u64" where
  "vm_malloc n = (if n = 0 then 0 else 0)"

section \<open>Input and output\<close>

text \<open>\<open>vsprintf\<close> has the text of the kernel's \<open>vasprintf\<close>.\<close>

definition vsprintf :: "memory \<Rightarrow> u64 \<Rightarrow> u8 list \<Rightarrow> u64 list \<Rightarrow> memory option" where
  "vsprintf m buf fmt args = vasprintf m buf fmt args"

definition printf ::
  "u8 list \<Rightarrow> u64 list \<Rightarrow> 'a process_scheme \<Rightarrow> (unit outcome \<times> 'a process_scheme) option" where
  "printf fmt args s =
     continue (user_malloc 64 s) (\<lambda>buf s. do {
       m \<leftarrow> vsprintf (store s) buf fmt args;
       as_unit (syscall1 2 buf (s\<lparr>store := m\<rparr>))
     })"

definition scanf :: "u8 list \<Rightarrow> u64 \<Rightarrow> 'a process_scheme \<Rightarrow> (unit outcome \<times> 'a process_scheme) option" where
  "scanf codes str s =
     continue (user_malloc 32 s) (\<lambda>read_buf s.
     continue (read_fd codes 0 read_buf 0 s) (\<lambda>n s.
       Some (Returned (), s\<lparr>store := strncpy (store s) str read_buf (scast (ucast n :: u32))\<rparr>)))"

definition putchar :: "u32 \<Rightarrow> 'a process_scheme \<Rightarrow> (u32 outcome \<times> 'a process_scheme) option" where
  "putchar c s = as_u32 (syscall1 20 (scast c) s)"

abbreviation EOF :: u32 where
  "EOF \<equiv> - 1"

text \<open>The characters are signed.\<close>

partial_function (option) puts :: "u64 \<Rightarrow> 'a process_scheme \<Rightarrow> (u32 outcome \<times> 'a process_scheme) option" where
  "puts p s =
     (if store s p = 0
      then continue (putchar (ucast char_newline) s)
        (\<lambda>v s. Some (Returned (if v = ucast char_newline then 0 else EOF), s))
      else let c = store s p in do {
        (r, s') \<leftarrow> putchar (scast c) s;
        case r of
          Returned v \<Rightarrow> if v \<noteq> scast c then Some (Returned EOF, s') else puts (p + 1) s'
        | Jumped j \<Rightarrow> Some (Jumped j, s')
      })"

section \<open>Starting a program\<close>

text \<open>The loop that copies the arguments; \<open>last_arg\<close> counts words below the stack.\<close>

fun copy_args :: "nat \<Rightarrow> u64 \<Rightarrow> u64 \<Rightarrow> nat \<Rightarrow> memory \<Rightarrow> memory \<times> nat" where
  "copy_args 0 stack argv last_arg m = (m, last_arg)"
| "copy_args (Suc n) stack argv last_arg m =
     copy_args n stack argv (Suc last_arg)
       (store64 m (argv + 8 * of_nat (last_arg - 2)) (load64 m (stack - 8 * of_nat last_arg)))"

definition start_args :: "u64 \<Rightarrow> memory \<Rightarrow> u32 \<times> u64 \<times> u64 \<times> memory" where
  "start_args stack m =
     (let argc = ucast (load64 m (stack - 8)) :: u32;
          argv = stack - 8 * 10
      in if argc = 0 \<or> argc = 1 then (argc, argv, stack - 8 * 11, store64 m argv (load64 m argv))
         else let (m, last_arg) = copy_args (unat (argc - 1)) stack argv 10 m;
                  envp = stack - 8 * of_nat last_arg
              in (argc, argv, envp, store64 m envp (stack - 8 * of_nat last_arg)))"

text \<open>The program's \<open>main\<close> is an argument.\<close>

definition start_user ::
  "(u32 \<Rightarrow> u64 \<Rightarrow> u64 \<Rightarrow> 'a process_scheme \<Rightarrow> (u32 outcome \<times> 'a process_scheme) option)
    \<Rightarrow> 'a process_scheme \<Rightarrow> (unit outcome \<times> 'a process_scheme) option" where
  "start_user main s =
     (let (argc, argv, envp, m) = start_args (gpr s RBX) (store s)
      in continue (main argc argv envp (s\<lparr>store := m\<rparr>)) (\<lambda>res s. as_unit (exit res s)))"

section \<open>What a system call keeps\<close>

lemma fold_pop_keeps:
  "fold pop rs s = s\<lparr>rsp := rsp (fold pop rs s), gpr := gpr (fold pop rs s)\<rparr>"
  "RAX \<notin> set rs \<Longrightarrow> gpr (fold pop rs s) RAX = gpr s RAX"
proof -
  show "fold pop rs s = s\<lparr>rsp := rsp (fold pop rs s), gpr := gpr (fold pop rs s)\<rparr>"
  proof (induction rs arbitrary: s)
    case (Cons r rs)
    show ?case by (simp, subst Cons.IH) (simp add: pop_def mov_def Let_def)
  qed simp
  show "RAX \<notin> set rs \<Longrightarrow> gpr (fold pop rs s) RAX = gpr s RAX"
    by (induction rs arbitrary: s) (simp_all add: pop_def mov_def Let_def)
qed

lemma isr128_leave_keeps:
  "\<exists>p g. isr128_leave s = s\<lparr>rsp := p, gpr := g\<rparr> \<and> g RAX = gpr s RAX"
  unfolding isr128_leave_def
  by (rule exI, rule exI, rule conjI [OF fold_pop_keeps(1)], rule fold_pop_keeps(2)) simp

text \<open>The state in which the kernel's handler starts: the registers are those of the caller, and the
  saved ones take 120 bytes of the kernel's stack below the processor's frame.\<close>

lemma kernel_entry:
  fixes h s
  defines "k \<equiv> PUSHA (take_interrupt h s)" and "K \<equiv> interrupt_stack s"
  shows "\<exists>m. k = s\<lparr>interrupts := False, rip := h, seg_cs := 8, seg_ss := (if user_mode s then 0 else seg_ss s),
      rsp := K - 160, store := m\<rparr>"
    and "hw_frame s (store k) (K - 40)"
    and "disjoint_regions (K - 160) 160 q n \<Longrightarrow> 0 < n \<Longrightarrow> get_bytes (store k) q n = get_bytes (store s) q n"
proof -
  let ?rs = "[RDI, RAX, RBX, RCX, RDX, RBP, RSI, R8, R9, R10, R11, R12, R13, R14, R15]"
  let ?t = "take_interrupt h s"
  have k: "k = fold push ?rs ?t" unfolding k_def PUSHA_def ..
  have t: "rsp ?t = K - 40" unfolding K_def by (rule take_interrupt_frame)
  have "k = ?t\<lparr>rsp := rsp ?t - 8 * of_nat (length ?rs), store := store k\<rparr>" unfolding k by (rule fold_push)
  moreover obtain m where "?t = s\<lparr>rsp := interrupt_stack s - 40, store := m, interrupts := False, rip := h, seg_cs := 8,
      seg_ss := (if user_mode s then 0 else seg_ss s)\<rparr>"
    using take_interrupt_frame(4) by blast
  ultimately have "k = s\<lparr>interrupts := False, rip := h, seg_cs := 8, seg_ss := (if user_mode s then 0 else seg_ss s),
      rsp := K - 160, store := store k\<rparr>"
    using t by simp
  then show "\<exists>m. k = s\<lparr>interrupts := False, rip := h, seg_cs := 8, seg_ss := (if user_mode s then 0 else seg_ss s),
      rsp := K - 160, store := m\<rparr>"
    by blast
  have "same_above (rsp ?t) (store ?t) (store k)" unfolding k_def by (rule PUSHA_frame)
  then have "get_bytes (store k) (K - 40) 40 = get_bytes (store ?t) (K - 40) 40"
    unfolding t by (rule same_above_bytes) simp
  then show "hw_frame s (store k) (K - 40)"
    unfolding K_def by (rule hw_frame_bytes [OF take_interrupt_frame(3)])
  assume dis: "disjoint_regions (K - 160) 160 q n" and n: "0 < n"
  have regs: "disjoint_regions (rsp ?t - 8 * of_nat (length ?rs)) (8 * length ?rs) q n"
    and words: "disjoint_regions (interrupt_stack s - 40) 40 q n"
    using disjoint_subs [OF dis, of 0 120 0 n] disjoint_subs [OF dis, of 120 40 0 n] n by (simp_all add: t K_def)
  have "get_bytes (store k) q n = get_bytes (store ?t) q n" unfolding k using regs by (rule fold_push_outside) simp
  then show "get_bytes (store k) q n = get_bytes (store s) q n" using take_interrupt_outside [OF words] by simp
qed

text \<open>A handler that keeps the stack pointer and the processor's frame returns to the caller: \<open>iretq\<close> resumes it with the
  result of the handler in \<open>%rax\<close>.\<close>

lemma int80_returns:
  assumes "isr_handler128 codes (PUSHA (take_interrupt (isr128 (isrs s)) s)) = Some (Returned (), t)"
    and "rsp t = interrupt_stack s - 160" and "hw_frame s (store t) (interrupt_stack s - 40)"
  shows "\<exists>s'. int80 codes s = Some (Returned (gpr t RAX), s') \<and> resumes s s' \<and> store s' = store t \<and>
    curr_upcb s' = curr_upcb t"
proof -
  obtain p g where leave: "isr128_leave t = t\<lparr>rsp := p, gpr := g\<rparr>" and rax: "g RAX = gpr t RAX"
    using isr128_leave_keeps by blast
  have "rsp (isr128_leave t) = rsp t + 120"
    by (simp add: isr128_leave_def)
  then have p: "p = interrupt_stack s - 40" using leave assms(2) by simp
  let ?u = "iretq (isr128_leave t)"
  have "hw_frame s (store (isr128_leave t)) (rsp (isr128_leave t))" using assms(3) by (simp add: leave p)
  from iretq_resumes [OF this]
  have "resumes s ?u" "gpr ?u RAX = gpr t RAX" "store ?u = store t" by (simp_all add: leave rax)
  moreover have "curr_upcb ?u = curr_upcb t" by (simp add: leave iretq_def Let_def set_rflags_def)
  ultimately show ?thesis by (simp add: int80_def assms(1))
qed

end
