(* ===== verification/User_Programs.thy ===== *)
theory User_Programs
  imports Libc
begin

text \<open>
  The user programs (\<open>bin\<close>): the shell \<open>sbush\<close> and the commands that it starts. The addresses of
  string literals are given by a function \<open>lit\<close>, those of local arrays and of local variables
  whose address is taken are arguments.
\<close>

abbreviation char_space :: u8 where
  "char_space \<equiv> 32"

abbreviation char_slash :: u8 where
  "char_slash \<equiv> 47"

abbreviation char_amp :: u8 where
  "char_amp \<equiv> 38"

section \<open>Commands\<close>

fun cat_loop :: "nat \<Rightarrow> u64 \<Rightarrow> 'a process_scheme \<Rightarrow> (unit outcome \<times> 'a process_scheme) option" where
  "cat_loop 0 p s = Some (Returned (), s)"
| "cat_loop (Suc n) p s =
     continue (printf (bytes ''%c'') [scast (store s p)] s) (\<lambda>_ s. cat_loop n (p + 1) s)"

definition cat_main ::
  "u64 \<Rightarrow> u64 \<Rightarrow> u32 \<Rightarrow> u64 \<Rightarrow> u64 \<Rightarrow> 'a process_scheme \<Rightarrow> (u32 outcome \<times> 'a process_scheme) option" where
  "cat_main str buf argc argv envp s = do {
     m \<leftarrow> strcpy (store s) str (load64 (store s) argv);
     len \<leftarrow> strlen m str;
     let s = s\<lparr>store := m(str + len := 0)\<rparr>;
     continue (open_file str s) (\<lambda>fd s.
       if fd = 0 then Some (Returned 0, s)
       else continue (read_fd [] fd buf 256 s) (\<lambda>bytes_read s.
            continue (printf [char_newline] [] s) (\<lambda>_ s.
            continue (cat_loop (unat (ucast bytes_read :: u32)) buf s) (\<lambda>_ s. Some (Returned 0, s)))))
   }"

definition clear_main ::
  "u32 \<Rightarrow> u64 \<Rightarrow> u64 \<Rightarrow> 'a process_scheme \<Rightarrow> (u32 outcome \<times> 'a process_scheme) option" where
  "clear_main argc argv envp s = continue (clear s) (\<lambda>_ s. Some (Returned 0, s))"

text \<open>The argument of \<open>%s\<close> is an address.\<close>

definition echo_main ::
  "u64 \<Rightarrow> u32 \<Rightarrow> u64 \<Rightarrow> u64 \<Rightarrow> 'a process_scheme \<Rightarrow> (u32 outcome \<times> 'a process_scheme) option" where
  "echo_main str argc argv envp s = do {
     m \<leftarrow> strcpy (store s) str (load64 (store s) argv);
     continue (printf (char_newline # bytes ''%s'') [str] (s\<lparr>store := m\<rparr>)) (\<lambda>_ s.
     continue (printf [char_newline] [] s) (\<lambda>_ s. Some (Returned 0, s)))
   }"

text \<open>The number of the process starts behind the first space of the argument, or at its end.\<close>

partial_function (option) kill_arg :: "memory \<Rightarrow> u64 \<Rightarrow> u64 option" where
  "kill_arg m p =
     (if m p \<noteq> char_space then if m (p + 1) \<noteq> 0 then kill_arg m (p + 1) else Some (p + 1)
      else Some (p + 1))"

definition kill_main ::
  "u32 \<Rightarrow> u64 \<Rightarrow> u64 \<Rightarrow> 'a process_scheme \<Rightarrow> (u32 outcome \<times> 'a process_scheme) option" where
  "kill_main argc argv envp s = do {
     pid \<leftarrow> kill_arg (store s) (load64 (store s) argv);
     let id = (ucast (user_stoi (store s) pid) :: u32);
     continue (kill (scast id) s) (\<lambda>_ s.
     continue (printf [char_newline] [] s) (\<lambda>_ s. Some (Returned 0, s)))
   }"

definition ls_main ::
  "(string \<Rightarrow> u64) \<Rightarrow> u32 \<Rightarrow> u64 \<Rightarrow> u64 \<Rightarrow> 'a process_scheme \<Rightarrow> (u32 outcome \<times> 'a process_scheme) option" where
  "ls_main lit argc argv envp s =
     (let pwd = load64 (store s) argv
      in continue (if pwd = 0 then as_unit (user_opendir (lit []) s) else Some (Returned (), s)) (\<lambda>_ s.
         continue (if store s pwd = char_slash then user_opendir (pwd + 1) s else user_opendir pwd s) (\<lambda>dir_add s.
         continue (read_dir dir_add s) (\<lambda>_ s.
         continue (printf [char_newline] [] s) (\<lambda>_ s. Some (Returned 0, s))))))"

definition ps_main ::
  "u32 \<Rightarrow> u64 \<Rightarrow> u64 \<Rightarrow> 'a process_scheme \<Rightarrow> (u32 outcome \<times> 'a process_scheme) option" where
  "ps_main argc argv envp s = continue (ps s) (\<lambda>_ s. Some (Returned 0, s))"

definition sleep_main ::
  "u32 \<Rightarrow> u64 \<Rightarrow> u64 \<Rightarrow> 'a process_scheme \<Rightarrow> (u32 outcome \<times> 'a process_scheme) option" where
  "sleep_main argc argv envp s =
     continue (sleepshell (user_stoi (store s) (load64 (store s) argv)) s) (\<lambda>_ s. Some (Returned 0, s))"

text \<open>The loops of \<open>test\<close> end only when a system call does not return.\<close>

partial_function (option) test_loop ::
  "string \<Rightarrow> u32 \<Rightarrow> u32 \<Rightarrow> 'a process_scheme \<Rightarrow> (u32 outcome \<times> 'a process_scheme) option" where
  "test_loop who a i s =
     (if a + 1 = 100000000 then do {
        (r, s') \<leftarrow> printf (bytes (who @ '' %d'') @ [char_newline, char_newline]) [ucast (a + 1 + i)] s;
        case r of Returned _ \<Rightarrow> test_loop who 0 ((i + 1) mod 10) s' | Jumped j \<Rightarrow> Some (Jumped j, s')
      }
      else test_loop who (a + 1) i s)"

definition test_main ::
  "u32 \<Rightarrow> u64 \<Rightarrow> u64 \<Rightarrow> 'a process_scheme \<Rightarrow> (u32 outcome \<times> 'a process_scheme) option" where
  "test_main argc argv envp s =
     continue (fork s) (\<lambda>pid s. if pid = 0 then test_loop ''Parent'' 100 0 s else test_loop ''Child'' 100 0 s)"

section \<open>The shell\<close>

partial_function (option) skip_spaces :: "memory \<Rightarrow> u64 \<Rightarrow> u64 option" where
  "skip_spaces m str = (if m str = char_space then skip_spaces m (str + 1) else Some str)"

partial_function (option) trim_end :: "memory \<Rightarrow> u64 \<Rightarrow> u64 \<Rightarrow> u64 option" where
  "trim_end m str str_end =
     (if str_end > str \<and> m str_end = char_space then trim_end m str (str_end - 1) else Some str_end)"

definition trim :: "memory \<Rightarrow> u64 \<Rightarrow> (u64 \<times> memory) option" where
  "trim m str =
     (if m str = 0 then Some (str, m)
      else do {
        str \<leftarrow> skip_spaces m str;
        len \<leftarrow> strlen m str;
        str_end \<leftarrow> trim_end m str (str + len - 1);
        Some (str, m(str_end + 1 := 0))
      })"

text \<open>The path of a command: the loop copies the name behind what \<open>strlen\<close> measures. The flag says
  whether there is a name.\<close>

partial_function (option) append_name :: "memory \<Rightarrow> u64 \<Rightarrow> u64 \<Rightarrow> memory option" where
  "append_name m p name =
     (if m name \<noteq> 0 then append_name (m(p := m name)) (p + 1) (name + 1) else Some (m(p := 0)))"

definition build_path :: "u64 \<Rightarrow> u64 \<Rightarrow> u64 \<Rightarrow> memory \<Rightarrow> (bool \<times> memory) option" where
  "build_path pwd path name m = do {
     m \<leftarrow> strcpy m path pwd;
     path_len \<leftarrow> strlen m path;
     if m name = 0 then Some (False, m) else map_option (Pair True) (append_name m (path + path_len) name)
   }"

definition get_file ::
  "(string \<Rightarrow> u64) \<Rightarrow> u64 \<Rightarrow> u64 \<Rightarrow> 'a process_scheme \<Rightarrow> (bool outcome \<times> 'a process_scheme) option" where
  "get_file lit path name s = do {
     (named, m) \<leftarrow> build_path (lit ''bin/'') path name (store s);
     let s = s\<lparr>store := m\<rparr>;
     if \<not> named then Some (Returned False, s)
     else continue (open_file path s) (\<lambda>fd s. Some (Returned (fd \<noteq> 0), s))
   }"

text \<open>What all branches of \<open>execute_command\<close> do with a program.\<close>

definition run_program ::
  "(string \<Rightarrow> u64) \<Rightarrow> u8 \<Rightarrow> string \<Rightarrow> u64 \<Rightarrow> 'a process_scheme \<Rightarrow> (unit outcome \<times> 'a process_scheme) option" where
  "run_program lit bg_flag path argv s =
     continue (fork s) (\<lambda>pid s.
       if pid \<noteq> 0
       then if bg_flag \<noteq> char_amp then as_unit (waitpid pid 0 s)
            else printf (bytes ''Background Process'' @ [char_newline]) [] s
       else continue (execvpe (lit path) argv 0 s) (\<lambda>_ s. as_unit (exit 1 s)))"

text \<open>The branches with an argument; \<open>slot\<close> is the address of the local variable that holds its copy, and
  \<open>cat\<close> drops a slash at its front.\<close>

definition run_with_arg ::
  "(string \<Rightarrow> u64) \<Rightarrow> u64 \<Rightarrow> u8 \<Rightarrow> string \<Rightarrow> u64 \<Rightarrow> bool \<Rightarrow> u64 \<Rightarrow> 'a process_scheme
    \<Rightarrow> (unit outcome \<times> 'a process_scheme) option" where
  "run_with_arg lit slot bg_flag path sz drop_slash arg s =
     continue (user_malloc sz s) (\<lambda>p s. do {
       m \<leftarrow> strcpy (store s) p arg;
       let p = (if drop_slash \<and> m p = char_slash then p + 1 else p);
       run_program lit bg_flag path slot (s\<lparr>store := store64 m slot p\<rparr>)
     })"

definition execute_command ::
  "(string \<Rightarrow> u64) \<Rightarrow> u64 \<Rightarrow> u64 \<Rightarrow> u64 \<Rightarrow> u8 \<Rightarrow> 'a process_scheme \<Rightarrow> (unit outcome \<times> 'a process_scheme) option" where
  "execute_command lit slot cmd arg bg_flag s =
     (let is = (\<lambda>name n. map_option (\<lambda>c. c = 0) (strncmp (store s) cmd (lit name) n)) in do {
        ls \<leftarrow> is ''ls'' 2;
        if ls then run_with_arg lit slot bg_flag ''bin/ls'' 16 False arg s else do {
        cat \<leftarrow> is ''cat'' 3;
        if cat then run_with_arg lit slot bg_flag ''bin/cat'' 16 True arg s else do {
        ps \<leftarrow> is ''ps'' 2;
        if ps then run_program lit bg_flag ''bin/ps'' 0 s else do {
        sleep \<leftarrow> is ''sleep'' 5;
        if sleep then run_with_arg lit slot bg_flag ''bin/sleep'' 8 False arg s else do {
        echo \<leftarrow> is ''echo'' 4;
        if echo then run_with_arg lit slot bg_flag ''bin/echo'' 16 False arg s else do {
        kill \<leftarrow> is ''kill'' 4;
        if kill then run_with_arg lit slot bg_flag ''bin/kill'' 16 False arg s else do {
        clear \<leftarrow> is ''clear'' 4;
        if clear then run_program lit bg_flag ''bin/clear'' 0 s else do {
        help \<leftarrow> is ''help'' 4;
        if help then printf (bytes ''ls, cat, echo, sleep, ps, kill, clear'' @ [char_newline]) [] s else do {
        test \<leftarrow> is ''test'' 4;
        if test then run_program lit bg_flag ''bin/test'' 0 s
        else printf (char_newline # bytes ''Command not found.'') [] s
        }}}}}}}}})"

text \<open>The end of the command word, and the flag that asks for a background process.\<close>

partial_function (option) find_space :: "memory \<Rightarrow> u64 \<Rightarrow> nat \<Rightarrow> nat option" where
  "find_space m input i =
     (if m (input + of_nat i) \<noteq> char_space \<and> m (input + of_nat i) \<noteq> 0 then find_space m input (Suc i) else Some i)"

definition parse_line :: "memory \<Rightarrow> u64 \<Rightarrow> (u64 \<times> u8 \<times> nat) option" where
  "parse_line m input = do {
     len \<leftarrow> strlen m input;
     let bg_flag = m (input + len - 1);
     i \<leftarrow> find_space m input 0;
     Some (len, bg_flag, i)
   }"

text \<open>One round of the loop of \<open>main\<close>; \<open>codes\<close> are the keys pressed while it waits for a line.\<close>

definition sbush_round ::
  "(string \<Rightarrow> u64) \<Rightarrow> u64 \<Rightarrow> u64 \<Rightarrow> u64 \<Rightarrow> u8 list \<Rightarrow> 'a process_scheme \<Rightarrow> (unit outcome \<times> 'a process_scheme) option" where
  "sbush_round lit path slot input codes s =
     continue (read_fd codes 0 input 0 s) (\<lambda>n s.
       if store s input = char_newline \<or> store s input = char_space \<or> store s input = 0 \<or> (ucast n :: u32) = 0
       then Some (Returned (), s)
       else do {
         (len, bg_flag, i) \<leftarrow> parse_line (store s) input;
         continue (user_malloc 6 s) (\<lambda>str s.
           let s = s\<lparr>store := strncpy (store s) str input (of_nat i)\<rparr>
           in continue (user_malloc 16 s) (\<lambda>arg s.
             let s = s\<lparr>store := strncpy (store s) arg (input + of_nat i + 1) (len - of_nat i + 1)\<rparr>
             in continue (get_file lit path str s) (\<lambda>file_exists s.
               if file_exists then execute_command lit slot str arg bg_flag s else Some (Returned (), s))))
       })"

fun sbush_loop ::
  "(string \<Rightarrow> u64) \<Rightarrow> u64 \<Rightarrow> u64 \<Rightarrow> u64 \<Rightarrow> u8 list list \<Rightarrow> 'a process_scheme
    \<Rightarrow> (unit outcome \<times> 'a process_scheme) option" where
  "sbush_loop lit path slot input [] s = do {
     c \<leftarrow> strncmp (store s) input (lit ''exit'') 4;
     if c = 0 then Some (Returned (), s) else None
   }"
| "sbush_loop lit path slot input (codes # rest) s = do {
     c \<leftarrow> strncmp (store s) input (lit ''exit'') 4;
     if c = 0 then Some (Returned (), s)
     else continue (sbush_round lit path slot input codes s) (\<lambda>_ s. sbush_loop lit path slot input rest s)
   }"

text \<open>Without another line the shell waits for ever.\<close>

definition sbush_main ::
  "(string \<Rightarrow> u64) \<Rightarrow> u64 \<Rightarrow> u64 \<Rightarrow> u8 list list \<Rightarrow> u32 \<Rightarrow> u64 \<Rightarrow> u64 \<Rightarrow> 'a process_scheme
    \<Rightarrow> (u32 outcome \<times> 'a process_scheme) option" where
  "sbush_main lit path slot inputs argc argv envp s =
     continue (user_malloc 32 s) (\<lambda>input s.
     continue (sbush_loop lit path slot input inputs s) (\<lambda>_ s.
     continue (printf (char_newline # bytes ''Exiting...'') [] s) (\<lambda>_ s.
     continue (exit (- 1) s) (\<lambda>_ s. Some (Returned 0, s)))))"

section \<open>Finding a command\<close>

lemma append_name_cstr:
  "cstr m src t \<Longrightarrow> length t < unat (dst - src) \<Longrightarrow> append_name m dst src = Some (put_bytes m dst (t @ [0]))"
proof (induction t arbitrary: m dst src)
  case Nil
  then show ?case by (subst append_name.simps) simp
next
  case (Cons c cs)
  have "length cs < unat (dst - (src + 1))"
    using Cons.prems unat_diff_Suc [of dst src] by (cases "dst = src") auto
  then have "cstr (m(dst := c)) (src + 1) cs" using Cons.prems by (intro cstr_update_outside) auto
  moreover have "length cs < unat (dst + 1 - (src + 1))" using Cons.prems by simp
  ultimately have "append_name (m(dst := c)) (dst + 1) (src + 1) = Some (put_bytes (m(dst := c)) (dst + 1) (cs @ [0]))"
    by (rule Cons.IH)
  then show ?case using Cons.prems by (subst append_name.simps) auto
qed

text \<open>C40. The shell asks the kernel for the directory and not for the command: \<open>strlen\<close> counts the NUL of
  \<open>bin/\<close>, so that the name of the command is stored behind it, and the path that \<open>open\<close> sees is \<open>bin/\<close>
  whatever the command is.\<close>

theorem path_without_command:
  assumes "cstr m pwd (bytes ''bin/'')" and "cstr m name t" and "t \<noteq> []"
    and "disjoint_regions path (6 + length t) pwd 5" and "disjoint_regions path (6 + length t) name (Suc (length t))"
  shows "\<exists>m'. build_path pwd path name m = Some (True, m') \<and> cstr m' path (bytes ''bin/'') \<and> cstr m' (path + 5) t"
proof -
  let ?b = "bytes ''bin/''"
  define m1 where "m1 = put_bytes m path (?b @ [0])"
  have len: "length ?b = 4" and nz: "0 \<notin> set ?b" by (simp_all add: bytes_def)
  have "strcpy m path pwd = Some m1"
    unfolding strcpy_def m1_def using assms(1,4) by (intro kstrcpy_cstr) (simp_all add: len disjoint_regions_def)
  moreover have dir: "cstr m1 path ?b" unfolding m1_def by (rule cstr_put_bytes [OF nz]) (simp add: len)
  moreover have "strlen m1 path = Some 5"
    using kstrlen_of_cstr [OF dir] by (simp add: strlen_def kstrlen_of_def bytes_def)
  moreover have name: "cstr m1 name t"
    unfolding m1_def using assms(2,5) by (intro cstr_put_bytes_disjoint) (auto simp add: len elim: disjoint_regions_mono)
  then have "m1 name \<noteq> 0" using assms(3) by (cases t) auto
  moreover have small: "6 + length t < 2 ^ 64" using assms(4) unat_bound64 [of "pwd - path"] assms(1)
    by (simp add: disjoint_regions_def)
  have "disjoint_regions (path + of_nat 5) (Suc (length t)) name (Suc (length t))"
    using disjoint_subs [OF assms(5), of 5 "Suc (length t)" 0 "Suc (length t)"] by simp
  then have "append_name m1 (path + 5) name = Some (put_bytes m1 (path + 5) (t @ [0]))"
    by (intro append_name_cstr [OF name]) (simp add: disjoint_regions_def)
  ultimately have run: "build_path pwd path name m = Some (True, put_bytes m1 (path + 5) (t @ [0]))"
    by (simp add: build_path_def)
  have "cstr (put_bytes m1 (path + of_nat 5) (t @ [0])) path ?b"
    using dir small by (intro cstr_put_behind) (simp_all add: len)
  moreover have "cstr (put_bytes m1 (path + 5) (t @ [0])) (path + 5) t"
    using cstr_nonzero [OF name] small by (intro cstr_put_bytes) simp_all
  ultimately show ?thesis using run by simp
qed

definition demo_line :: memory where
  "demo_line = put_bytes (put_bytes (\<lambda>_. 0) 0x1000 (bytes ''bin/'' @ [0])) 0x2000 (bytes ''echo 42 &'' @ [0])"

lemma demo_line_cstr: "cstr demo_line 0x1000 (bytes ''bin/'')" "cstr demo_line 0x2000 (bytes ''echo 42 &'')"
  by code_simp+

theorem path_without_command_witness:
  "\<exists>m'. build_path 0x1000 0x3000 0x2000 demo_line = Some (True, m') \<and> cstr m' 0x3000 (bytes ''bin/'') \<and>
    cstr m' (0x3000 + 5) (bytes ''echo 42 &'')"
  by (rule path_without_command [OF demo_line_cstr]) (simp_all add: bytes_def disjoint_regions_def)

section \<open>Reading a command line\<close>

lemma find_space_cstr:
  "cstr m (input + of_nat i) t \<Longrightarrow> find_space m input i = Some (i + length (takeWhile (\<lambda>c. c \<noteq> char_space) t))"
proof (induction t arbitrary: i)
  case Nil
  then show ?case by (subst find_space.simps) simp
next
  case (Cons c cs)
  have "input + of_nat i + 1 = input + of_nat (Suc i)" by simp
  then have "cstr m (input + of_nat (Suc i)) cs" using Cons.prems by (simp only: cstr.simps)
  from Cons.IH [OF this] show ?case using Cons.prems by (subst find_space.simps) simp
qed

text \<open>The shell cuts the command word off at the first space, but never sees the ampersand that asks for a
  background process: the flag that it reads is the NUL at the end of the line.\<close>

lemma line_has_no_background:
  assumes "cstr m input t" and "t \<noteq> []" and "Suc (length t) < 2 ^ 31"
  shows "parse_line m input = Some (of_nat (Suc (length t)), 0, length (takeWhile (\<lambda>c. c \<noteq> char_space) t))"
proof -
  have "input + of_nat (Suc (length t)) - 1 = input + of_nat (length t)" by simp
  then have "m (input + of_nat (Suc (length t)) - 1) = 0" using cstr_end [OF assms(1)] by (simp only:)
  moreover have "find_space m input 0 = Some (length (takeWhile (\<lambda>c. c \<noteq> char_space) t))"
    using find_space_cstr [of m input 0 t] assms(1) by simp
  moreover have "strlen m input = Some (of_nat (Suc (length t)))"
    using kstrlen_of_cstr [OF assms(1,3)] assms(2) by (simp add: strlen_def kstrlen_of_def)
  ultimately show ?thesis by (simp add: parse_line_def)
qed

section \<open>The argument of kill\<close>

lemma kill_arg_space:
  "cstr m p (w @ char_space # rest) \<Longrightarrow> char_space \<notin> set w \<Longrightarrow> kill_arg m p = Some (p + of_nat (length w) + 1)"
proof (induction w arbitrary: p)
  case Nil
  then show ?case by (subst kill_arg.simps) simp
next
  case (Cons c cs)
  then have "cstr m (p + 1) (cs @ char_space # rest)" "m p \<noteq> char_space" by auto
  moreover from this(1) have "m (p + 1) \<noteq> 0" by (cases cs) auto
  moreover have "kill_arg m (p + 1) = Some (p + 1 + of_nat (length cs) + 1)"
    using Cons.IH [of "p + 1"] Cons.prems calculation(1) by simp
  ultimately show ?case by (subst kill_arg.simps) (simp only: length_Cons ptr_Suc simp_thms if_True)
qed

text \<open>The value of a list of digits, most significant first.\<close>

definition number :: "nat list \<Rightarrow> nat" where
  "number ds = foldl (\<lambda>a d. 10 * a + d) 0 ds"

text \<open>C27. \<open>kill\<close> with an option and a number of at most eleven digits asks the kernel to end the process of that number:
  the number behind the first space of the argument is read, kept in an \<open>int\<close>, and passed to the system
  call. The process meant is ended for a number below \<open>2 ^ 31\<close>; a larger one is cut to 32 bits.\<close>

theorem kill_reads_number:
  assumes "cstr (store s) (load64 (store s) argv) (w @ char_space # map digit_char ds)" and "char_space \<notin> set w"
    and "\<forall>d \<in> set ds. d < 10" and "length ds \<le> 11"
  shows "kill_main argc argv envp s =
      continue (kill (scast (of_nat (number ds) :: u32)) s) (\<lambda>_ s.
      continue (printf [char_newline] [] s) (\<lambda>_ s. Some (Returned 0, s))) \<and>
    (number ds < 2 ^ 31 \<longrightarrow> (scast (of_nat (number ds) :: u32) :: u64) = of_nat (number ds))"
proof -
  let ?p = "load64 (store s) argv" let ?q = "?p + of_nat (length w) + 1"
  have q: "cstr (store s) ?q (map digit_char ds)" using assms(1) by (rule cstr_append_tail)
  have "store s (?q + of_nat (length ds)) = 0" using cstr_end [OF q] by simp
  then have "\<not> is_digit (store s (?q + of_nat (0 + length ds)))" by (simp add: is_digit_def)
  moreover have "store s (?q + of_nat (0 + k)) = digit_char (ds ! k)" if "k < length ds" for k
    using cstr_nth [OF q, of k] that by simp
  ultimately have "stoi_loop (store s) ?q 0 (of_nat 0) = of_nat (number ds)"
    unfolding number_def using assms(3,4) by (intro stoi_loop_digits) auto
  then have stoi: "user_stoi (store s) ?q = of_nat (number ds)" by (simp add: user_stoi_def stoi_def)
  have "(ucast (of_nat (number ds) :: u64) :: u32) = of_nat (number ds)"
    by (rule ucast_of_nat32)
  then show ?thesis
    using kill_arg_space [OF assms(1,2)] stoi scast_of_nat32 [of "number ds"] by (simp add: kill_main_def)
qed

theorem kill_reads_number_witness:
  "kill_main 1 0x2000 0 (demo_process\<lparr>store := store64 (put_bytes (\<lambda>_. 0) 0x1000 (bytes ''-9 42'')) 0x2000 0x1000\<rparr>) =
    continue (kill 42 (demo_process\<lparr>store := store64 (put_bytes (\<lambda>_. 0) 0x1000 (bytes ''-9 42'')) 0x2000 0x1000\<rparr>)) (\<lambda>_ s.
    continue (printf [char_newline] [] s) (\<lambda>_ s. Some (Returned 0, s)))"
proof -
  let ?s = "demo_process\<lparr>store := store64 (put_bytes (\<lambda>_. 0) 0x1000 (bytes ''-9 42'')) 0x2000 0x1000\<rparr>"
  have argv: "load64 (store ?s) 0x2000 = 0x1000" by simp
  have "cstr (store64 (put_bytes (\<lambda>_. 0) 0x1000 (bytes ''-9 42'')) 0x2000 0x1000) 0x1000
      (bytes ''-9'' @ char_space # map digit_char [4, 2])" by code_simp
  then have "cstr (store ?s) (load64 (store ?s) 0x2000) (bytes ''-9'' @ char_space # map digit_char [4, 2])"
    unfolding argv by simp
  from kill_reads_number [OF this, of 1 0] show ?thesis by (simp add: bytes_def number_def)
qed

end
