(* ===== verification/Boot.thy ===== *)
theory Boot
  imports Interrupts
begin

text \<open>
  The boot sequence (\<open>sys/main.c\<close>). The addresses of the linker's symbols and of the boot stack are
  a parameter. Before the page tables are loaded the loader's identity mapping is in force, so the
  video memory is written at its physical address first and in the kernel's half later.
\<close>

record linker_symbols =
  kernmem_sym :: u64
  physbase_sym :: u64
  initial_stack :: u64

abbreviation VIDEO_MEM :: u64 where
  "VIDEO_MEM \<equiv> 0xB8000"

abbreviation INITIAL_STACK_SIZE :: u64 where
  "INITIAL_STACK_SIZE \<equiv> 4096"

text \<open>The loader's modules are a list of 32-bit words: a type, a length, and the data. The search adds the length to a
  pointer to words.\<close>

partial_function (option) find_smap :: "memory \<Rightarrow> u64 \<Rightarrow> u64 option" where
  "find_smap m modulep =
     (if load32 m modulep \<noteq> 0x9001
      then find_smap m (modulep + 4 * ucast (load32 m (modulep + 4) + 2)) else Some modulep)"

text \<open>\<open>struct smap_t\<close> is packed: base, length and type take 20 bytes.\<close>

partial_function (option) smap_loop ::
  "u64 \<Rightarrow> u64 \<Rightarrow> 'a console_scheme \<Rightarrow> 'a console_scheme option" where
  "smap_loop modulep smap s =
     (if smap < modulep + ucast (load32 (store s) (modulep + 4)) + 2 * 4 then do {
        let base = load64 (store s) smap;
        let len = load64 (store s) (smap + 8);
        s \<leftarrow> (if load32 (store s) (smap + 16) = 1 \<and> len \<noteq> 0
             then kprintf (bytes ''Available Physical Memory [%p-%p]'' @ [char_newline]) [base, base + len] s
             else Some s);
        smap_loop modulep (smap + 20) s
      }
      else Some s)"

definition start :: "u64 \<Rightarrow> u64 \<Rightarrow> u64 \<Rightarrow> 'a process_scheme \<Rightarrow> 'a process_scheme option" where
  "start modulep physbase_arg physfree_arg s = do {
     modulep \<leftarrow> find_smap (store s) modulep;
     s \<leftarrow> smap_loop modulep (modulep + 8) s;
     let s = s\<lparr>physfree := physfree_arg, physbase := physbase_arg\<rparr>;
     s \<leftarrow> kprintf (bytes ''physbase %p'' @ [char_newline]) [physbase s] s;
     s \<leftarrow> kprintf (bytes ''physfree %p'' @ [char_newline]) [physfree s] s;
     kprintf (bytes ''tarfs in [%p:%p]'' @ [char_newline]) [tarfs_start s, tarfs_end s] s
   }"

definition whiten :: "memory \<Rightarrow> memory" where
  "whiten m = fold (\<lambda>i m. m(VIDEO_MEM + 1 + of_nat (2 * i) := 7)) [0..<160 * 25 div 2] m"

definition banner :: "memory \<Rightarrow> memory" where
  "banner m = fold (\<lambda>(i, c) m. m(VIRT_BASE + VIDEO_MEM + of_nat (2 * i) := c))
     (enumerate 0 (bytes ''!!!!! start() returned !!!!!'')) m"

definition boot ::
  "linker_symbols \<Rightarrow> 'a process_scheme \<Rightarrow> (unit outcome \<times> 'a process_scheme) option" where
  "boot lds s = do {
     let s = cli (s\<lparr>store := whiten (store s)\<rparr>);
     let loader_stack = rsp s;
     let s = s\<lparr>rsp := initial_stack lds + INITIAL_STACK_SIZE\<rparr>;
     s \<leftarrow> init_gdt s;
     s \<leftarrow> start (ucast (load32 (store s) (loader_stack + 12)) + kernmem_sym lds - physbase_sym lds)
       (physbase_sym lds) (ucast (load32 (store s) (loader_stack + 16))) s;
     s \<leftarrow> set_free_list s;
     let s = cli (s\<lparr>store := banner (store s)\<rparr>);
     s \<leftarrow> set_up_idt s;
     let s = init_timer (init_pic (s\<lparr>boot_done := True\<rparr>));
     s \<leftarrow> init_tarfs s;
     let s = init_kbd (init_queues s);
     let (r, s) = create_pcb (idle_fn s) s;
     let (r, s) = create_pcb (init_entry_fn s) s;
     idle s
   }"


section \<open>The report of the memory map\<close>

lemma kprintf_char_boot:
  "tarfs_start (kprintf_char c t) = tarfs_start t" "tarfs_end (kprintf_char c t) = tarfs_end t"
  "physfree (kprintf_char c t) = physfree t" "physbase (kprintf_char c t) = physbase t"
  by (simp_all add: kprintf_char_def emit_char_def newline_step_def wrap_cursor_def placechar_def Let_def)

lemma print_text_boot [simp]:
  "tarfs_start (print_text t u) = tarfs_start u" "tarfs_end (print_text t u) = tarfs_end u"
  "physfree (print_text t u) = physfree u" "physbase (print_text t u) = physbase u"
  by (simp_all add: print_text_def fold_kept [where f = tarfs_start] fold_kept [where f = tarfs_end]
      fold_kept [where f = physfree] fold_kept [where f = physbase] kprintf_char_boot)

text \<open>\<open>%p\<close> shows the low 32 bits of an address.\<close>

definition address_text :: "u64 \<Rightarrow> u8 list" where
  "address_text v = bytes ''0x'' @ hex_text v 8"

definition region_line :: "u64 \<Rightarrow> u64 \<Rightarrow> u8 list" where
  "region_line base len =
     bytes ''Available Physical Memory ['' @ address_text base @ bytes ''-'' @ address_text (base + len) @ bytes '']'' @ [char_newline]"

lemma address_text_chars: "0 \<notin> set (address_text v)" "char_backspace \<notin> set (address_text v)" "length (address_text v) = 10"
  using hex_chars [of v 8] by (auto simp add: address_text_def hex_text_def)

lemma format_memory_lines:
  "format_text dec_shown (\<lambda>_. None) (bytes ''Available Physical Memory [%p-%p]'' @ [char_newline]) [a, a + n] = Some (region_line a n)"
  "format_text dec_shown (\<lambda>_. None) (bytes ''physbase %p'' @ [char_newline]) [a] = Some (bytes ''physbase '' @ address_text a @ [char_newline])"
  "format_text dec_shown (\<lambda>_. None) (bytes ''physfree %p'' @ [char_newline]) [a] = Some (bytes ''physfree '' @ address_text a @ [char_newline])"
  "format_text dec_shown (\<lambda>_. None) (bytes ''tarfs in [%p:%p]'' @ [char_newline]) [a, b] =
     Some (bytes ''tarfs in ['' @ address_text a @ bytes '':'' @ address_text b @ bytes '']'' @ [char_newline])"
  by (simp_all add: conv_text_def region_line_def address_text_def)

lemma printable_memory_lines:
  "printable (region_line a n)" "printable (bytes ''physbase '' @ address_text a @ [char_newline])"
  "printable (bytes ''physfree '' @ address_text a @ [char_newline])"
  "printable (bytes ''tarfs in ['' @ address_text a @ bytes '':'' @ address_text b @ bytes '']'' @ [char_newline])"
  using address_text_chars by (simp_all add: printable_def region_line_def)

text \<open>The loader's modules before the memory map at \<open>q\<close>, with their types. The code takes the length of a module as
  a number of words where it skips one, and as a number of bytes where it reads the map. The modules before
  the map are therefore required to have no data: only then both readings agree.\<close>

fun modules_at :: "memory \<Rightarrow> u64 \<Rightarrow> u32 list \<Rightarrow> u64 \<Rightarrow> bool" where
  "modules_at m p [] q \<longleftrightarrow> p = q \<and> load32 m p = 0x9001"
| "modules_at m p (ty # tys) q \<longleftrightarrow>
     ty \<noteq> 0x9001 \<and> load32 m p = ty \<and> load32 m (p + 4) = 0 \<and> modules_at m (p + 8) tys q"

lemma find_smap_finds: "modules_at m p tys q \<Longrightarrow> find_smap m p = Some q"
  by (induction m p tys q rule: modules_at.induct) (subst find_smap.simps; simp)+

definition region_lines :: "memory \<Rightarrow> u64 \<Rightarrow> nat \<Rightarrow> u8 list list" where
  "region_lines m smap n =
     (let e = \<lambda>i. smap + of_nat (20 * i)
      in map (\<lambda>i. region_line (load64 m (e i)) (load64 m (e i + 8)))
           (filter (\<lambda>i. load32 m (e i + 16) = 1 \<and> load64 m (e i + 8) \<noteq> 0) [0..<n]))"

text \<open>A map of \<open>n\<close> entries at \<open>q\<close> that printing does not overwrite.\<close>

definition smap_at :: "'a console_scheme \<Rightarrow> u64 \<Rightarrow> nat \<Rightarrow> bool" where
  "smap_at s q n \<longleftrightarrow> load32 (store s) (q + 4) = of_nat (20 * n) \<and> 20 * n < 2 ^ 32 \<and> unat q + 20 * n + 28 < 2 ^ 64 \<and>
     disjoint_regions VIDEO_ADDR 4000 q (20 * n + 8) \<and> disjoint_regions (kprintf_buf s) 4096 q (20 * n + 8)"

lemma smap_addresses:
  assumes "smap_at s q n"
  shows "q + ucast (load32 (store s) (q + 4)) + 2 * 4 = q + of_nat (8 + 20 * n)"
    and "i \<le> 20 * n + 8 \<Longrightarrow> unat (q + of_nat i) = unat q + i"
proof -
  have n: "20 * n < 2 ^ 32" "unat q + 20 * n + 28 < 2 ^ 64" "load32 (store s) (q + 4) = of_nat (20 * n)"
    using assms by (simp_all add: smap_at_def)
  have "(ucast (of_nat (20 * n) :: u32) :: u64) = of_nat (20 * n)"
    using n(1) by (simp add: unsigned_of_nat take_bit_nat_eq_self del: of_nat_mult)
  then show "q + ucast (load32 (store s) (q + 4)) + 2 * 4 = q + of_nat (8 + 20 * n)" unfolding n(3) by simp
  show "unat (q + of_nat i) = unat q + i" if "i \<le> 20 * n + 8"
  proof -
    have "unat (of_nat i :: u64) = i" using that n(1) by (simp add: unsigned_of_nat take_bit_nat_eq_self)
    then show ?thesis using n(2) that by (simp add: unat_add_lem [THEN iffD1])
  qed
qed

lemma smap_at_kept:
  assumes "smap_at s q n" and "printer_ready s" and "printable t"
  shows "get_bytes (store (print_text t s)) q (20 * n + 8) = get_bytes (store s) q (20 * n + 8)"
    and "smap_at (print_text t s) q n"
proof -
  show b: "get_bytes (store (print_text t s)) q (20 * n + 8) = get_bytes (store s) q (20 * n + 8)"
    using assms by (intro print_text_bytes) (simp_all add: smap_at_def)
  have "load32 (store (print_text t s)) (q + 4) = load32 (store s) (q + 4)"
    using get_bytes_part [OF b, of 4 4] by (simp add: load32_def)
  then show "smap_at (print_text t s) q n" using assms(1) by (simp add: smap_at_def)
qed

lemma region_lines_Suc:
  "region_lines m p (Suc k) =
    (if load32 m (p + 16) = 1 \<and> load64 m (p + 8) \<noteq> 0 then [region_line (load64 m p) (load64 m (p + 8))] else []) @
    region_lines m (p + 20) k"
proof -
  have shift: "[0..<Suc k] = 0 # map Suc [0..<k]" by (simp add: upt_conv_Cons map_Suc_upt)
  have "p + of_nat (20 * Suc i) = p + 20 + of_nat (20 * i)" for i by simp
  then show ?thesis unfolding region_lines_def Let_def shift by (simp add: filter_map o_def add.assoc)
qed

lemma region_lines_bytes:
  assumes "get_bytes m' q N = get_bytes m q N" and "j + 20 * k \<le> N"
  shows "region_lines m' (q + of_nat j) k = region_lines m (q + of_nat j) k"
  using assms(2)
proof (induction k arbitrary: j)
  case (Suc k)
  have "get_bytes m' (q + of_nat (j + i)) l = get_bytes m (q + of_nat (j + i)) l" if "i + l \<le> 20" for i l
    using Suc.prems that by (intro get_bytes_part [OF assms(1)]) simp
  from this [of 0 8] this [of 8 8] this [of 16 4]
  have "load64 m' (q + of_nat j) = load64 m (q + of_nat j)" "load64 m' (q + of_nat j + 8) = load64 m (q + of_nat j + 8)"
    "load32 m' (q + of_nat j + 16) = load32 m (q + of_nat j + 16)"
    by (simp_all add: load64_def load32_def add.assoc)
  moreover have "region_lines m' (q + of_nat j + 20) k = region_lines m (q + of_nat j + 20) k"
    using Suc.IH [of "j + 20"] Suc.prems by (simp add: add.assoc)
  ultimately show ?case by (simp add: region_lines_Suc)
qed (simp add: region_lines_def)

lemma smap_loop_prints:
  assumes "smap_at s q n" and "printer_ready s" and "j + 20 * k = 8 + 20 * n"
  shows "smap_loop q (q + of_nat j) s = Some (fold print_text (region_lines (store s) (q + of_nat j) k) s) \<and>
    printer_ready (fold print_text (region_lines (store s) (q + of_nat j) k) s)"
  using assms
proof (induction k arbitrary: s j)
  case 0
  then have "\<not> q + of_nat j < q + ucast (load32 (store s) (q + 4)) + 2 * 4"
    unfolding smap_addresses(1) [OF 0(1)] by simp
  then show ?case using 0 by (subst smap_loop.simps) (simp add: region_lines_def)
next
  case (Suc k)
  let ?p = "q + of_nat j" and ?m = "store s"
  let ?line = "region_line (load64 ?m ?p) (load64 ?m (?p + 8))"
  have "?p < q + of_nat (8 + 20 * n)"
    using smap_addresses(2) [OF Suc.prems(1), of j] smap_addresses(2) [OF Suc.prems(1), of "8 + 20 * n"] Suc.prems(3)
    by (simp add: word_less_nat_alt del: of_nat_add of_nat_mult)
  then have more: "?p < q + ucast (load32 ?m (q + 4)) + 2 * 4" by (simp only: smap_addresses(1) [OF Suc.prems(1)])
  define s1 where "s1 = (if load32 ?m (?p + 16) = 1 \<and> load64 ?m (?p + 8) \<noteq> 0 then print_text ?line s else s)"
  have s1: "printer_ready s1" "smap_at s1 q n" "get_bytes (store s1) q (20 * n + 8) = get_bytes ?m q (20 * n + 8)"
    using smap_at_kept [OF Suc.prems(1,2) printable_memory_lines(1)] print_text_ready [OF Suc.prems(2) printable_memory_lines(1)]
      Suc.prems(1,2) by (simp_all add: s1_def)
  have step: "smap_loop q ?p s = smap_loop q (?p + 20) s1"
    using more kprintf_text [OF Suc.prems(2) format_memory_lines(1) printable_memory_lines(1)]
    by (subst smap_loop.simps) (simp add: s1_def Let_def)
  have lines: "region_lines (store s1) (?p + 20) k = region_lines ?m (?p + 20) k"
    using region_lines_bytes [OF s1(3), of "j + 20" k] Suc.prems(3) by (simp add: add.assoc)
  have "fold print_text (region_lines ?m ?p (Suc k)) s = fold print_text (region_lines (store s1) (?p + 20) k) s1"
    by (simp add: region_lines_Suc s1_def lines [unfolded s1_def])
  then show ?case using Suc.IH [OF s1(2,1), of "j + 20"] Suc.prems(3) step by (simp add: add.assoc)
qed


definition demo_smap :: memory where
  "demo_smap = store32 (store64 (store64 (store32 (store64 (store64 (store32 (store32 (store32 (store32 (\<lambda>_. 0)
     0x5000 1) 0x5004 0) 0x5008 0x9001) 0x500c 40) 0x5010 0) 0x5018 0x9fc00) 0x5020 1) 0x5024 0x9fc00) 0x502c 0x400) 0x5034 2"


end
