(* ===== verification/Ahci.thy ===== *)
theory Ahci
  imports Kernel_Prelude
begin

text \<open>
  The structures of the disk controller (\<open>include/sys/ahci.h\<close>) as layouts: the fields in their order with
  their widths in bits, and the alignment of the whole. All of them are packed, so a field starts at the
  bit behind the one before it. The code of \<open>sys/pci.c\<close> reaches the registers of a port, the registers of
  the controller and the headers of commands through them; the others describe what a device and the
  host would exchange.
\<close>

section \<open>Layouts\<close>

record layout =
  l_align :: nat
  l_fields :: "(string \<times> nat) list"

definition field_bits :: "(string \<times> nat) list \<Rightarrow> nat" where
  "field_bits fs = sum_list (map snd fs)"

text \<open>The size in bytes, rounded up to the alignment.\<close>

definition sizeof :: "layout \<Rightarrow> nat" where
  "sizeof l = (let n = field_bits (l_fields l) div 8 in ((n + l_align l - 1) div l_align l) * l_align l)"

fun bits_before :: "string \<Rightarrow> (string \<times> nat) list \<Rightarrow> nat option" where
  "bits_before f [] = None"
| "bits_before f ((g, w) # fs) = (if g = f then Some 0 else map_option ((+) w) (bits_before f fs))"

definition offset_of :: "layout \<Rightarrow> string \<Rightarrow> nat option" where
  "offset_of l f = bits_before f (l_fields l)"

definition field_address :: "layout \<Rightarrow> string \<Rightarrow> u64 \<Rightarrow> u64 option" where
  "field_address l f p = map_option (\<lambda>n. p + of_nat (n div 8)) (offset_of l f)"

section \<open>Constants\<close>

abbreviation (input) HBA_PxCMD_ST :: u32 where
  "HBA_PxCMD_ST \<equiv> 1"

abbreviation (input) HBA_PxCMD_FRE :: u32 where
  "HBA_PxCMD_FRE \<equiv> push_bit 4 1"

abbreviation (input) HBA_PxCMD_FR :: u32 where
  "HBA_PxCMD_FR \<equiv> push_bit 14 1"

abbreviation (input) HBA_PxCMD_CR :: u32 where
  "HBA_PxCMD_CR \<equiv> push_bit 15 1"

datatype fis_type_t = FIS_TYPE_REG_H2D | FIS_TYPE_REG_D2H | FIS_TYPE_DMA_ACT | FIS_TYPE_DMA_SETUP
  | FIS_TYPE_DATA | FIS_TYPE_BIST | FIS_TYPE_PIO_SETUP | FIS_TYPE_DEV_BITS

fun fis_type_code :: "fis_type_t \<Rightarrow> u8" where
  "fis_type_code FIS_TYPE_REG_H2D = 0x27"
| "fis_type_code FIS_TYPE_REG_D2H = 0x34"
| "fis_type_code FIS_TYPE_DMA_ACT = 0x39"
| "fis_type_code FIS_TYPE_DMA_SETUP = 0x41"
| "fis_type_code FIS_TYPE_DATA = 0x46"
| "fis_type_code FIS_TYPE_BIST = 0x58"
| "fis_type_code FIS_TYPE_PIO_SETUP = 0x5F"
| "fis_type_code FIS_TYPE_DEV_BITS = 0xA1"

section \<open>Structures\<close>

definition fis_reg_h2d_t :: layout where
  "fis_reg_h2d_t = \<lparr>l_align = 1, l_fields = [
     (''fis_type'', 8), (''pmport'', 4), (''rsv0'', 3), (''c'', 1), (''command'', 8), (''featurel'', 8),
     (''lba0'', 8), (''lba1'', 8), (''lba2'', 8), (''device'', 8), (''lba3'', 8), (''lba4'', 8),
     (''lba5'', 8), (''featureh'', 8), (''count'', 16), (''icc'', 8), (''control'', 8), (''aux'', 16),
     (''rsv1'', 8 * 2)]\<rparr>"

definition fis_reg_d2h_t :: layout where
  "fis_reg_d2h_t = \<lparr>l_align = 1, l_fields = [
     (''fis_type'', 8), (''pmport'', 4), (''rsv0'', 2), (''i'', 1), (''rsv1'', 1), (''status'', 8),
     (''error'', 8), (''lba0'', 8), (''lba1'', 8), (''lba2'', 8), (''device'', 8), (''lba3'', 8),
     (''lba4'', 8), (''lba5'', 8), (''rsv2'', 8), (''count'', 16), (''rsv3'', 8 * 2), (''rsv4'', 8 * 4)]\<rparr>"

definition fis_dev_bits_t :: layout where
  "fis_dev_bits_t = \<lparr>l_align = 1, l_fields = [
     (''fis_type'', 8), (''pmport'', 4), (''rsv0'', 2), (''i'', 1), (''n'', 1), (''statusl'', 3),
     (''rsv1'', 1), (''statush'', 3), (''rsv2'', 1), (''error'', 8), (''protocol'', 32)]\<rparr>"

definition fis_dma_setup_t :: layout where
  "fis_dma_setup_t = \<lparr>l_align = 1, l_fields = [
     (''fis_type'', 8), (''pmport'', 4), (''rsv0'', 1), (''d'', 1), (''i'', 1), (''a'', 1),
     (''rsved'', 8 * 2), (''buf_id'', 64), (''rsv1'', 32), (''buf_offset'', 32), (''trans_count'', 32),
     (''rsv2'', 32)]\<rparr>"

definition fis_pio_setup_t :: layout where
  "fis_pio_setup_t = \<lparr>l_align = 1, l_fields = [
     (''fis_type'', 8), (''pmport'', 4), (''rsv0'', 1), (''d'', 1), (''i'', 1), (''rsv1'', 1),
     (''status'', 8), (''error'', 8), (''lba0'', 8), (''lba1'', 8), (''lba2'', 8), (''device'', 8),
     (''lba3'', 8), (''lba4'', 8), (''lba5'', 8), (''rsv2'', 8), (''count'', 16), (''rsv3'', 8),
     (''e_status'', 8), (''trans_count'', 16), (''rsv4'', 8 * 2)]\<rparr>"

definition fis_data_t :: layout where
  "fis_data_t = \<lparr>l_align = 1, l_fields = [
     (''fis_type'', 8), (''pmport'', 4), (''rsv0'', 4), (''rsv1'', 8 * 2), (''data'', 32 * 1)]\<rparr>"

definition hba_prdt_entry_t :: layout where
  "hba_prdt_entry_t = \<lparr>l_align = 1, l_fields = [
     (''dba'', 64), (''rsv0'', 32), (''dbc'', 22), (''rsv1'', 9), (''i'', 1)]\<rparr>"

definition hba_cmd_tbl_t :: layout where
  "hba_cmd_tbl_t = \<lparr>l_align = 128, l_fields = [
     (''cfis'', 8 * 64), (''acmd'', 8 * 16), (''rsv'', 8 * 48),
     (''prdt_entry'', 8 * sizeof hba_prdt_entry_t * 1)]\<rparr>"

definition hba_cmd_header_t :: layout where
  "hba_cmd_header_t = \<lparr>l_align = 1, l_fields = [
     (''cfl'', 5), (''a'', 1), (''w'', 1), (''p'', 1), (''r'', 1), (''b'', 1), (''c'', 1),
     (''rsv0'', 1), (''pmp'', 4), (''prdtl'', 16), (''prdbc'', 32), (''ctba'', 64), (''rsv1'', 32 * 4)]\<rparr>"

definition hba_fis_t :: layout where
  "hba_fis_t = \<lparr>l_align = 256, l_fields = [
     (''dsfis'', 8 * sizeof fis_dma_setup_t), (''pad0'', 8 * 4),
     (''psfis'', 8 * sizeof fis_pio_setup_t), (''pad1'', 8 * 12), (''rfis'', 8 * sizeof fis_reg_d2h_t),
     (''pad2'', 8 * 4), (''sdbfis'', 8 * sizeof fis_dev_bits_t), (''ufis'', 8 * 64), (''rsv'', 8 * 96)]\<rparr>"

definition hba_cmd_list_t :: layout where
  "hba_cmd_list_t = \<lparr>l_align = 1024, l_fields = [
     (''headers'', 8 * sizeof hba_cmd_header_t * 32)]\<rparr>"

definition hba_port_t :: layout where
  "hba_port_t = \<lparr>l_align = 1, l_fields = [
     (''clb'', 64), (''fb'', 64), (''is_rwc'', 32), (''ie'', 32), (''cmd'', 32), (''rsv0'', 32),
     (''tfd'', 32), (''sig'', 32), (''ssts'', 32), (''sctl'', 32), (''serr_rwc'', 32), (''sact'', 32),
     (''ci'', 32), (''sntf_rwc'', 32), (''fbs'', 32), (''rsv1'', 32 * 11), (''vendor'', 32 * 4)]\<rparr>"

definition hba_mem_t :: layout where
  "hba_mem_t = \<lparr>l_align = 1, l_fields = [
     (''cap'', 32), (''ghc'', 32), (''is_rwc'', 32), (''pi'', 32), (''vs'', 32), (''ccc_ctl'', 32),
     (''ccc_pts'', 32), (''em_loc'', 32), (''em_ctl'', 32), (''cap2'', 32), (''bohc'', 32),
     (''rsv'', 8 * (0xA0 - 0x2C)), (''vendor'', 8 * (0x100 - 0xA0)),
     (''ports'', 8 * sizeof hba_port_t * 32)]\<rparr>"

lemmas structures = fis_reg_h2d_t_def fis_reg_d2h_t_def fis_dev_bits_t_def fis_dma_setup_t_def fis_pio_setup_t_def
  fis_data_t_def hba_prdt_entry_t_def hba_cmd_tbl_t_def hba_cmd_header_t_def hba_fis_t_def hba_cmd_list_t_def
  hba_port_t_def hba_mem_t_def

lemmas layout_defs = sizeof_def field_bits_def offset_of_def structures

lemma fis_type_codes: "fis_type_code a = fis_type_code b \<longleftrightarrow> a = b"
  by (cases a; cases b; simp)

end
