(* ===== verification/Pci.thy ===== *)
theory Pci
  imports Processes Ahci
begin

text \<open>
  The scan of the PCI buses and the probing of AHCI ports (\<open>sys/pci.c\<close>). Configuration space is
  reached as the hardware documents it: a double word written to port \<open>0xCF8\<close> selects a register,
  and a read of port \<open>0xCFC\<close> delivers it. The registers are a field of the state.
\<close>

section \<open>Configuration space\<close>

record pci = process +
  cfg_addr :: u32
  cfg_space :: "u32 \<Rightarrow> u32"
  got_it :: bool

definition sysOutLong :: "u16 \<Rightarrow> u32 \<Rightarrow> 'a pci_scheme \<Rightarrow> 'a pci_scheme" where
  "sysOutLong port val s = (if port = 0xCF8 then s\<lparr>cfg_addr := val\<rparr> else s)"

definition sysInLong :: "u16 \<Rightarrow> 'a pci_scheme \<Rightarrow> u32" where
  "sysInLong port s = (if port = 0xCFC then cfg_space s (cfg_addr s) else 0xFFFFFFFF)"

definition cfg_address :: "u8 \<Rightarrow> u8 \<Rightarrow> u8 \<Rightarrow> u8 \<Rightarrow> u64" where
  "cfg_address bus port function offset =
     push_bit 16 (ucast bus) OR push_bit 11 (ucast port) OR push_bit 8 (ucast function)
       OR ucast (offset AND 0xfc) OR 0x80000000"

definition getRegVal :: "u8 \<Rightarrow> u8 \<Rightarrow> u8 \<Rightarrow> u8 \<Rightarrow> 'a pci_scheme \<Rightarrow> u16 \<times> 'a pci_scheme" where
  "getRegVal bus port function offset s =
     (let s = sysOutLong 0xCF8 (ucast (cfg_address bus port function offset)) s;
          ret = (if offset = 0x24 then ucast (sysInLong 0xCFC s)
                 else ucast (drop_bit (unat ((offset AND 2) * 8)) (sysInLong 0xCFC s) AND 0xffff))
      in (ret, s))"

definition getVendorID :: "u8 \<Rightarrow> u8 \<Rightarrow> u8 \<Rightarrow> 'a pci_scheme \<Rightarrow> u16 \<times> 'a pci_scheme" where
  "getVendorID bus port function s = getRegVal bus port function 0 s"

definition getDeviceID :: "u8 \<Rightarrow> u8 \<Rightarrow> u8 \<Rightarrow> 'a pci_scheme \<Rightarrow> u16 \<times> 'a pci_scheme" where
  "getDeviceID bus port function s = getRegVal bus port function 2 s"

definition getClassId :: "u16 \<Rightarrow> u16 \<Rightarrow> u16 \<Rightarrow> 'a pci_scheme \<Rightarrow> u16 \<times> 'a pci_scheme" where
  "getClassId bus device function s =
     (let (r0, s) = getRegVal (ucast bus) (ucast device) (ucast function) 0xA s
      in (drop_bit 8 (r0 AND NOT 0x00FF), s))"

definition getSubClassId :: "u16 \<Rightarrow> u16 \<Rightarrow> u16 \<Rightarrow> 'a pci_scheme \<Rightarrow> u16 \<times> 'a pci_scheme" where
  "getSubClassId bus device function s =
     (let (r0, s) = getRegVal (ucast bus) (ucast device) (ucast function) 0xA s
      in (r0 AND NOT 0xFF00, s))"

section \<open>Ports of the disk controller\<close>

abbreviation SATA_SIG_ATAPI :: u32 where
  "SATA_SIG_ATAPI \<equiv> 0xEB140101"

abbreviation SATA_SIG_SEMB :: u32 where
  "SATA_SIG_SEMB \<equiv> 0xC33C0101"

abbreviation SATA_SIG_PM :: u32 where
  "SATA_SIG_PM \<equiv> 0x96690101"

abbreviation AHCI_DEV_SATA :: u32 where
  "AHCI_DEV_SATA \<equiv> 0x00000101"

abbreviation AHCI_DEV_SATAPI :: u32 where
  "AHCI_DEV_SATAPI \<equiv> 0xEB140101"

abbreviation AHCI_DEV_SEMB :: u32 where
  "AHCI_DEV_SEMB \<equiv> 0xC33C0101"

abbreviation AHCI_DEV_PM :: u32 where
  "AHCI_DEV_PM \<equiv> 0x96690101"

abbreviation AHCI_BASE :: u32 where
  "AHCI_BASE \<equiv> 0xfebf1000"

abbreviation (input) port_clb :: "u64 \<Rightarrow> u64" where
  "port_clb p \<equiv> p"

abbreviation (input) port_fb :: "u64 \<Rightarrow> u64" where
  "port_fb p \<equiv> p + 0x08"

abbreviation (input) port_cmd :: "u64 \<Rightarrow> u64" where
  "port_cmd p \<equiv> p + 0x18"

abbreviation (input) port_sig :: "u64 \<Rightarrow> u64" where
  "port_sig p \<equiv> p + 0x24"

abbreviation (input) port_ssts :: "u64 \<Rightarrow> u64" where
  "port_ssts p \<equiv> p + 0x28"

abbreviation (input) abar_pi :: "u64 \<Rightarrow> u64" where
  "abar_pi p \<equiv> p + 0x0C"

abbreviation (input) abar_port :: "u64 \<Rightarrow> nat \<Rightarrow> u64" where
  "abar_port p i \<equiv> p + 0x100 + 0x80 * of_nat i"

text \<open>The command register is volatile and set by the device too: what each read of it delivers is an
  argument, and a read that never comes is a wait without end.\<close>

fun next_read :: "u32 list \<Rightarrow> (u32 \<times> u32 list) option" where
  "next_read [] = None"
| "next_read (c # cs) = Some (c, cs)"

fun wait_cr :: "u32 list \<Rightarrow> u32 list option" where
  "wait_cr [] = None"
| "wait_cr (c # cs) = (if c AND HBA_PxCMD_CR \<noteq> 0 then wait_cr cs else Some cs)"

definition start_cmd :: "u64 \<Rightarrow> u32 list \<Rightarrow> memory \<Rightarrow> (memory \<times> u32 list) option" where
  "start_cmd port reads m = do {
     reads \<leftarrow> wait_cr reads;
     (c, reads) \<leftarrow> next_read reads;
     let m = store32 m (port_cmd port) (c OR HBA_PxCMD_FRE);
     (c, reads) \<leftarrow> next_read reads;
     Some (store32 m (port_cmd port) (c OR HBA_PxCMD_ST), reads)
   }"

text \<open>Each round reads the register once while \<open>FR\<close> is set, and twice otherwise.\<close>

fun wait_stopped :: "u32 list \<Rightarrow> u32 list option" where
  "wait_stopped [] = None"
| "wait_stopped (c # cs) =
     (if c AND HBA_PxCMD_FR \<noteq> 0 then wait_stopped cs
      else case cs of [] \<Rightarrow> None
        | d # ds \<Rightarrow> if d AND HBA_PxCMD_CR \<noteq> 0 then wait_stopped ds else Some ds)"

definition stop_cmd :: "u64 \<Rightarrow> u32 list \<Rightarrow> memory \<Rightarrow> (memory \<times> u32 list) option" where
  "stop_cmd port reads m = do {
     (c, reads) \<leftarrow> next_read reads;
     let m = store32 m (port_cmd port) (c AND NOT HBA_PxCMD_ST);
     reads \<leftarrow> wait_stopped reads;
     (c, reads) \<leftarrow> next_read reads;
     Some (store32 m (port_cmd port) (c AND NOT HBA_PxCMD_FRE), reads)
   }"

text \<open>The entries of the command list take 32 bytes; \<open>prdtl\<close> is at offset 2 and \<open>ctba\<close> at offset 8.\<close>

definition init_header :: "u64 \<Rightarrow> u32 \<Rightarrow> nat \<Rightarrow> memory \<Rightarrow> memory" where
  "init_header cmdheader portno i m =
     (let h = cmdheader + 32 * of_nat i;
          m = store16 m (h + 2) 8;
          m = store64 m (h + 8)
            (ucast (AHCI_BASE + push_bit 10 40 + push_bit 13 portno + push_bit 8 (of_nat i :: u32)))
      in memset m (load64 m (h + 8)) 0 256)"

definition port_rebase :: "u64 \<Rightarrow> u32 \<Rightarrow> u32 list \<Rightarrow> memory \<Rightarrow> (memory \<times> u32 list) option" where
  "port_rebase port portno reads m = do {
     (m, reads) \<leftarrow> stop_cmd port reads m;
     let m = store64 m (port_clb port) (ucast (AHCI_BASE + push_bit 10 portno));
     let m = memset m (load64 m (port_clb port)) 0 1024;
     let m = store64 m (port_fb port) (ucast (AHCI_BASE + push_bit 10 32 + push_bit 8 portno));
     let m = memset m (load64 m (port_fb port)) 0 256;
     let cmdheader = load64 m (port_clb port);
     start_cmd port reads (fold (init_header cmdheader portno) [0..<32] m)
   }"

definition check_type :: "memory \<Rightarrow> u64 \<Rightarrow> u32" where
  "check_type m port =
     (let ssts = load32 m (port_ssts port);
          ipm = drop_bit 8 ssts AND 0x0F;
          det = ssts AND 0x0F
      in if det = 0 then 0
         else if ipm = 0 then 0
         else if load32 m (port_sig port) = SATA_SIG_ATAPI then AHCI_DEV_SATAPI
         else if load32 m (port_sig port) = SATA_SIG_SEMB then AHCI_DEV_SEMB
         else if load32 m (port_sig port) = SATA_SIG_PM then AHCI_DEV_PM
         else AHCI_DEV_SATA)"

definition report_port :: "u64 \<Rightarrow> nat \<Rightarrow> 'a console_scheme \<Rightarrow> 'a console_scheme option" where
  "report_port abar i s =
     (let dt = check_type (store s) (abar_port abar i);
          name = (if dt = AHCI_DEV_SATA then ''SATA'' else if dt = AHCI_DEV_SATAPI then ''SATAPI''
                  else if dt = AHCI_DEV_SEMB then ''SEMB'' else if dt = AHCI_DEV_PM then ''PM'' else ''No'')
      in kprintf (bytes (name @ '' drive found at port %d'') @ [char_newline]) [of_nat i] s)"

fun probe_loop :: "u64 \<Rightarrow> u32 \<Rightarrow> nat \<Rightarrow> nat \<Rightarrow> 'a console_scheme \<Rightarrow> 'a console_scheme option" where
  "probe_loop abar pi i 0 s = Some s"
| "probe_loop abar pi i (Suc n) s = do {
     s \<leftarrow> (if pi AND 1 \<noteq> 0 then report_port abar i s else Some s);
     probe_loop abar (drop_bit 1 pi) (i + 1) n s
   }"

definition probe_port :: "u64 \<Rightarrow> 'a console_scheme \<Rightarrow> 'a console_scheme option" where
  "probe_port abar s = probe_loop abar (load32 (store s) (abar_pi abar)) 0 32 s"

section \<open>The scan\<close>

text \<open>The body of the loop of \<open>checkDevice\<close> over the functions of a device. The values of the last
  function are printed after the loop.\<close>

fun check_functions ::
  "u8 \<Rightarrow> u8 \<Rightarrow> u8 list \<Rightarrow> u16 list \<Rightarrow> 'a pci_scheme \<Rightarrow> (u64 \<times> 'a pci_scheme) option" where
  "check_functions bus port [] ids s = do {
     s \<leftarrow> kprintf (bytes ''Vendor ID is %x'' @ [char_newline]) [ucast (ids ! 0)] s;
     s \<leftarrow> kprintf (bytes ''device ID is %x'' @ [char_newline]) [ucast (ids ! 1)] s;
     s \<leftarrow> kprintf (bytes ''Class ID is %x'' @ [char_newline]) [ucast (ids ! 2)] s;
     s \<leftarrow> kprintf (bytes ''Sub-Class ID is %x'' @ [char_newline]) [ucast (ids ! 3)] s;
     Some (0, s)
   }"
| "check_functions bus port (function # fs) ids s =
     (let (vendorID, s) = getVendorID bus port function s;
          (deviceID, s) = getDeviceID bus port function s;
          (classID, s) = getClassId (ucast bus) (ucast port) (ucast function) s;
          (subClassID, s) = getSubClassId (ucast bus) (ucast port) (ucast function) s
      in if vendorID = 0xFFFF then Some (0, s)
         else if vendorID = 0x8086 \<and> deviceID = 0x2922 then do {
           s \<leftarrow> kprintf (bytes ''Device found %x'' @ [char_newline]) [ucast vendorID] s;
           s \<leftarrow> kprintf (bytes ''device ID is %x'' @ [char_newline]) [ucast deviceID] s;
           let (bar, s) = getRegVal bus port function 0x24 (s\<lparr>got_it := True\<rparr>);
           Some (ucast bar, s)
         }
         else check_functions bus port fs [vendorID, deviceID, classID, subClassID] s)"

definition checkDevice :: "u8 \<Rightarrow> u8 \<Rightarrow> 'a pci_scheme \<Rightarrow> (u64 \<times> 'a pci_scheme) option" where
  "checkDevice bus port s = check_functions bus port [0, 1, 2, 3, 4, 5, 6, 7] [] s"

text \<open>The scan of one bus; the result says whether the controller was found.\<close>

fun check_ports :: "u8 \<Rightarrow> u8 list \<Rightarrow> 'a pci_scheme \<Rightarrow> (bool \<times> 'a pci_scheme) option" where
  "check_ports bus [] s = Some (False, s)"
| "check_ports bus (port # ports) s = do {
     (abar, s) \<leftarrow> checkDevice bus port s;
     if got_it s then do {
       s \<leftarrow> kprintf (bytes ''Bar5 is %x'' @ [char_newline]) [abar] s;
       Some (True, s)
     }
     else check_ports bus ports s
   }"

text \<open>\<open>bus\<close> has eight bits and is converted to \<open>int\<close> for the comparison; its increment wraps.\<close>

partial_function (option) bus_loop :: "u8 \<Rightarrow> 'a pci_scheme \<Rightarrow> 'a pci_scheme option" where
  "bus_loop bus s =
     (if uint bus < 256 then do {
        (found, s) \<leftarrow> check_ports bus (map of_nat [0..<32]) s;
        if found then Some s else bus_loop (bus + 1) s
      }
      else Some s)"

definition checkAllBuses :: "'a pci_scheme \<Rightarrow> 'a pci_scheme option" where
  "checkAllBuses s = bus_loop 0 s"

section \<open>Properties\<close>

text \<open>The hardware's reading of the address: bus, device, function and register.\<close>

definition cfg_fields :: "u32 \<Rightarrow> u8 \<times> u8 \<times> u8 \<times> u8" where
  "cfg_fields a = (ucast (drop_bit 16 a), ucast (take_bit 5 (drop_bit 11 a)),
     ucast (take_bit 3 (drop_bit 8 a)), ucast a)"

lemma bit_cfg_address:
  "bit (ucast (cfg_address bus device function offset) :: u32) n \<longleftrightarrow>
     n < 32 \<and> (n = 31 \<or> 16 \<le> n \<and> bit bus (n - 16) \<or> 11 \<le> n \<and> bit device (n - 11) \<or>
       8 \<le> n \<and> bit function (n - 8) \<or> bit (offset AND 0xfc) n)"
proof -
  have "(0x80000000 :: u64) = 2 ^ 31" by simp
  then have "bit (0x80000000 :: u64) n \<longleftrightarrow> n = 31" by (simp only: bit_exp_iff) auto
  moreover have "bit (ucast (offset AND 0xfc) :: u64) n \<longleftrightarrow> bit (offset AND 0xfc) n"
    by (auto simp only: bit_ucast_iff dest: bit_imp_le_length) (auto dest!: bit_imp_le_length)
  moreover have "bit (ucast w :: u64) k \<longleftrightarrow> bit w k" for w :: u8 and k
    by (auto simp add: bit_ucast_iff dest: bit_imp_le_length)
  ultimately show ?thesis
    unfolding cfg_address_def by (auto simp only: bit_ucast_iff bit_or_iff bit_push_bit_iff) auto
qed

lemma bit_below:
  fixes w :: u8
  assumes "unat w < 2 ^ k" and "bit w n"
  shows "n < k"
proof (rule ccontr)
  assume "\<not> n < k"
  then have "(2 :: nat) ^ k \<le> 2 ^ n" by (intro power_increasing) simp_all
  then have "unat w < 2 ^ n" using assms(1) by (rule order.strict_trans2 [rotated])
  then have "unat w div 2 ^ n = 0" by (rule div_less)
  moreover have "bit (unat w) n" using assms(2) by (auto simp add: bit_unsigned_iff dest: bit_imp_le_length)
  ultimately show False by (simp add: bit_iff_odd)
qed

lemma cfg_fields_bits:
  assumes "\<And>n. bit (a :: u32) n \<longleftrightarrow> n < 32 \<and> (n = 31 \<or> 16 \<le> n \<and> bit bus (n - 16) \<or> 11 \<le> n \<and> bit device (n - 11) \<or>
       8 \<le> n \<and> bit function (n - 8) \<or> bit offset n)"
    and d: "\<And>n. bit device n \<Longrightarrow> n < 5" and f: "\<And>n. bit function n \<Longrightarrow> n < 3"
  shows "cfg_fields a = (bus, device, function, offset)"
proof -
  have off: "\<not> bit offset n" if "8 \<le> n" for n
    using that bit_imp_le_length [of offset n] by auto
  have "ucast (drop_bit 16 a) = bus"
  proof (rule bit_word_eqI)
    fix n assume "n < LENGTH(8)"
    then show "bit (ucast (drop_bit 16 a) :: u8) n \<longleftrightarrow> bit bus n"
      using d [of "5 + n"] f [of "8 + n"] off [of "16 + n"] by (auto simp add: bit_ucast_iff bit_drop_bit_eq assms(1))
  qed
  moreover have "ucast (take_bit 5 (drop_bit 11 a)) = device"
  proof (rule bit_word_eqI)
    fix n assume "n < LENGTH(8)"
    then show "bit (ucast (take_bit 5 (drop_bit 11 a)) :: u8) n \<longleftrightarrow> bit device n"
      using d [of n] f [of "3 + n"] off [of "11 + n"]
      by (auto simp add: bit_ucast_iff bit_drop_bit_eq bit_take_bit_iff assms(1))
  qed
  moreover have "ucast (take_bit 3 (drop_bit 8 a)) = function"
  proof (rule bit_word_eqI)
    fix n assume "n < LENGTH(8)"
    then show "bit (ucast (take_bit 3 (drop_bit 8 a)) :: u8) n \<longleftrightarrow> bit function n"
      using f [of n] off [of "8 + n"] by (auto simp add: bit_ucast_iff bit_drop_bit_eq bit_take_bit_iff assms(1))
  qed
  moreover have "ucast a = offset"
  proof (rule bit_word_eqI)
    fix n assume "n < LENGTH(8)"
    then show "bit (ucast a :: u8) n \<longleftrightarrow> bit offset n" by (auto simp add: bit_ucast_iff assms(1))
  qed
  ultimately show ?thesis by (simp only: cfg_fields_def)
qed

lemma cfg_fields_address:
  assumes "device < 32" and "function < 8"
  shows "cfg_fields (ucast (cfg_address bus device function offset)) = (bus, device, function, offset AND 0xfc)"
proof (rule cfg_fields_bits [OF bit_cfg_address])
  have "unat device < 2 ^ 5" "unat function < 2 ^ 3" using assms by (simp_all add: word_less_nat_alt)
  then show "bit device n \<Longrightarrow> n < 5" and "bit function n \<Longrightarrow> n < 3" for n
    by (blast intro: bit_below)+
qed

text \<open>The bus decodes an address whose enable bit is set into bus, device, function and register; of other addresses
  nothing is said.\<close>

definition decodes :: "'a pci_scheme \<Rightarrow> (u8 \<times> u8 \<times> u8 \<times> u8 \<Rightarrow> u32) \<Rightarrow> bool" where
  "decodes s dev \<longleftrightarrow> (\<forall>a. bit a 31 \<longrightarrow> cfg_space s a = dev (cfg_fields a))"

text \<open>C24. A read of a configuration register asks for the register it is meant to: when the hardware decodes
  the addresses that have the enable bit set as the PCI bus specifies, \<open>getRegVal\<close> delivers the half word at the
  offset of just that device, also for the offset \<open>0x24\<close>, where the code has a case of its own.\<close>

theorem getRegVal_reads_register:
  assumes "decodes s dev" and "device < 32" and "function < 8"
  shows "fst (getRegVal bus device function offset s) =
    ucast (drop_bit (if bit offset 1 then 16 else 0) (dev (bus, device, function, offset AND 0xfc)))"
proof -
  let ?v = "dev (bus, device, function, offset AND 0xfc)" and ?a = "ucast (cfg_address bus device function offset) :: u32"
  have "offset AND 2 = (if bit offset 1 then 2 else 0)"
  proof (rule bit_word_eqI)
    show "bit (offset AND 2) n \<longleftrightarrow> bit (if bit offset 1 then 2 else 0 :: u8) n" for n
      using bit_exp_iff [of 1 n, where 'a = u8] by (auto simp add: bit_and_iff)
  qed
  then have "unat ((offset AND 2) * 8) = (if bit offset 1 then 16 else 0)" by simp
  moreover have "bit ?a 31" by (simp add: bit_cfg_address)
  then have "sysInLong 0xCFC (sysOutLong 0xCF8 ?a s) = ?v"
    using assms(1) cfg_fields_address [OF assms(2,3), of bus offset]
    by (simp add: decodes_def sysInLong_def sysOutLong_def)
  moreover have "(ucast (w AND 0xffff) :: u16) = ucast w" for w :: u32
  proof -
    have "(0xffff :: u32) = mask 16" by (simp add: mask_eq_exp_minus_1)
    then have "w AND 0xffff = take_bit 16 w" by (simp only: take_bit_eq_mask)
    then show ?thesis by (simp only:) (rule bit_word_eqI, auto simp add: bit_ucast_iff bit_take_bit_iff)
  qed
  moreover have "\<not> bit (0x24 :: u8) 1" by (simp add: bit_iff_odd_drop_bit)
  ultimately show ?thesis by (cases "offset = 0x24") (simp_all add: getRegVal_def Let_def)
qed

definition pci_of :: "process \<Rightarrow> (u32 \<Rightarrow> u32) \<Rightarrow> pci" where
  "pci_of p cfg = process.extend p (pci.fields 0 cfg False)"

theorem getRegVal_reads_register_witness:
  "fst (getRegVal 0 31 2 0 (pci_of demo_process (\<lambda>a. if bit a 31 \<and> cfg_fields a = (0, 31, 2, 0) then 0x29228086 else 0xFFFFFFFF)))
    = 0x8086"
  using getRegVal_reads_register [of "pci_of demo_process (\<lambda>a. if bit a 31 \<and> cfg_fields a = (0, 31, 2, 0) then 0x29228086 else 0xFFFFFFFF)"
      "\<lambda>f. if f = (0, 31, 2, 0) then 0x29228086 else 0xFFFFFFFF" 31 2 0 0]
  by (simp add: decodes_def pci_of_def process.defs pci.defs)

section \<open>A scan without end\<close>

text \<open>No function of any device is the controller, whose first register holds its vendor and device number.\<close>

definition no_controller :: "'a pci_scheme \<Rightarrow> bool" where
  "no_controller s \<longleftrightarrow>
     (\<forall>bus port function. cfg_space s (ucast (cfg_address bus port function 0)) \<noteq> 0x29228086) \<and> \<not> got_it s"

definition scanning :: "'a pci_scheme \<Rightarrow> bool" where
  "scanning s \<longleftrightarrow> no_controller s \<and> printer_ready s"

lemma kprintf_char_pci: "cfg_space (kprintf_char c s) = cfg_space s" "got_it (kprintf_char c s) = got_it s"
  by (simp_all add: kprintf_char_def emit_char_def newline_step_def wrap_cursor_def placechar_def Let_def)

lemma print_text_scanning:
  assumes "scanning s" and "printable t"
  shows "scanning (print_text t s)"
proof -
  have "cfg_space (print_text t s) = cfg_space s" "got_it (print_text t s) = got_it s"
    by (simp_all add: print_text_def fold_kept [where f = cfg_space] fold_kept [where f = got_it] kprintf_char_pci)
  then show ?thesis using assms print_text_ready [of s t] by (simp add: scanning_def no_controller_def)
qed

lemma scanning_addr: "scanning (s\<lparr>cfg_addr := a\<rparr>) = scanning s"
  by (simp add: scanning_def no_controller_def printer_ready_def screen_ok_def)

text \<open>A line of the scan: a text without control characters and the eight digits of a number.\<close>

lemma scan_line:
  assumes "scanning s" and "format_text dec_shown (\<lambda>_. None) fmt [v] = Some (w @ hex_text v 8 @ [char_newline])"
    and "printable w" and "length w < 4000"
  shows "\<exists>s'. kprintf fmt [v] s = Some s' \<and> scanning s'"
proof -
  have p: "printable (w @ hex_text v 8 @ [char_newline])"
    using assms(3,4) hex_chars [of v 8] by (auto simp add: printable_def hex_text_def)
  have "printer_ready s" using assms(1) by (simp add: scanning_def)
  from kprintf_text [OF this assms(2) p] show ?thesis using print_text_scanning [OF assms(1) p] by simp
qed

lemma scan_lines:
  assumes "scanning s"
  shows "\<exists>s'. kprintf (bytes ''Vendor ID is %x'' @ [char_newline]) [v] s = Some s' \<and> scanning s'"
    and "\<exists>s'. kprintf (bytes ''device ID is %x'' @ [char_newline]) [v] s = Some s' \<and> scanning s'"
    and "\<exists>s'. kprintf (bytes ''Class ID is %x'' @ [char_newline]) [v] s = Some s' \<and> scanning s'"
    and "\<exists>s'. kprintf (bytes ''Sub-Class ID is %x'' @ [char_newline]) [v] s = Some s' \<and> scanning s'"
  by (rule scan_line [OF assms, where w = "bytes ''Vendor ID is ''"], simp_all add: conv_text_def printable_def)
    (rule scan_line [OF assms, where w = "bytes ''device ID is ''"], simp_all add: conv_text_def printable_def,
     rule scan_line [OF assms, where w = "bytes ''Class ID is ''"], simp_all add: conv_text_def printable_def,
     rule scan_line [OF assms, where w = "bytes ''Sub-Class ID is ''"], simp_all add: conv_text_def printable_def)

lemma halves:
  fixes x :: int
  assumes "x mod 65536 = a" and "x div 65536 mod 65536 = b" and "0 \<le> x" and "x < 4294967296"
  shows "x = 65536 * b + a"
proof -
  have "x div 65536 < 65536" using assms(4) by linarith
  moreover have "0 \<le> x div 65536" using assms(3) by simp
  ultimately have "x div 65536 = b" using assms(2) by simp
  then show ?thesis using mult_div_mod_eq [of 65536 x] assms(1) by simp
qed

text \<open>The first registers of a function give its vendor and its device number.\<close>

lemma first_register:
  assumes "scanning s"
  shows "\<exists>v d a. getVendorID bus port function s = (v, s\<lparr>cfg_addr := a\<rparr>) \<and>
    getDeviceID bus port function (s\<lparr>cfg_addr := a\<rparr>) = (d, s\<lparr>cfg_addr := a\<rparr>) \<and> \<not> (v = 0x8086 \<and> d = 0x2922)"
proof -
  let ?a = "ucast (cfg_address bus port function 0) :: u32"
  let ?w = "cfg_space s ?a"
  have a: "cfg_address bus port function 2 = cfg_address bus port function 0" by (simp add: cfg_address_def)
  have "?w = 0x29228086" if "(ucast (?w AND 0xffff) :: u16) = 0x8086" "(ucast (drop_bit 16 ?w AND 0xffff) :: u16) = 0x2922"
  proof -
    have m: "(0xffff :: u32) = mask 16" by (simp add: mask_eq_exp_minus_1)
    have low: "(ucast (u AND 0xffff) :: u16) = ucast u" for u :: u32
      unfolding m by (simp flip: take_bit_eq_mask) (rule bit_word_eqI, auto simp add: bit_ucast_iff bit_take_bit_iff)
    have u: "uint (ucast u :: u16) = take_bit 16 (uint u)" for u :: u32 by (simp add: unsigned_ucast_eq)
    have "uint (ucast ?w :: u16) = 0x8086" "uint (ucast (drop_bit 16 ?w) :: u16) = 0x2922" using that unfolding low by simp_all
    then have "take_bit 16 (uint ?w) = 0x8086" "take_bit 16 (drop_bit 16 (uint ?w)) = 0x2922"
      unfolding u by (simp_all add: unsigned_drop_bit_eq drop_bit_take_bit)
    moreover have "uint ?w < 2 ^ 32" using unsigned_less [of ?w, where ?'a = int] by simp
    ultimately have "uint ?w = 0x29228086"
      using halves [of "uint ?w" "0x8086" "0x2922"] by (simp add: take_bit_eq_mod drop_bit_eq_div)
    then have "uint ?w = uint (0x29228086 :: u32)" by simp
    then show ?thesis by (simp only: word_uint_eq_iff)
  qed
  then have "\<not> ((ucast (?w AND 0xffff) :: u16) = 0x8086 \<and> (ucast (drop_bit 16 ?w AND 0xffff) :: u16) = 0x2922)"
    using assms by (auto simp add: scanning_def no_controller_def)
  then show ?thesis
    by (auto simp add: getVendorID_def getDeviceID_def getRegVal_def sysOutLong_def sysInLong_def Let_def a)
qed

lemma getClassId_addr: "\<exists>v a. getClassId bus port function s = (v, s\<lparr>cfg_addr := a\<rparr>)"
  and getSubClassId_addr: "\<exists>v a. getSubClassId bus port function s = (v, s\<lparr>cfg_addr := a\<rparr>)"
  by (auto simp add: getClassId_def getSubClassId_def getRegVal_def sysOutLong_def Let_def)

lemma check_functions_scanning:
  assumes "scanning s"
  shows "\<exists>s'. check_functions bus port fs ids s = Some (0, s') \<and> scanning s'"
  using assms
proof (induction fs arbitrary: ids s)
  case Nil
  obtain s1 where 1: "kprintf (bytes ''Vendor ID is %x'' @ [char_newline]) [ucast (ids ! 0)] s = Some s1" "scanning s1"
    using scan_lines(1) [OF Nil] by blast
  obtain s2 where 2: "kprintf (bytes ''device ID is %x'' @ [char_newline]) [ucast (ids ! 1)] s1 = Some s2" "scanning s2"
    using scan_lines(2) [OF 1(2)] by blast
  obtain s3 where 3: "kprintf (bytes ''Class ID is %x'' @ [char_newline]) [ucast (ids ! 2)] s2 = Some s3" "scanning s3"
    using scan_lines(3) [OF 2(2)] by blast
  obtain s4 where 4: "kprintf (bytes ''Sub-Class ID is %x'' @ [char_newline]) [ucast (ids ! 3)] s3 = Some s4" "scanning s4"
    using scan_lines(4) [OF 3(2)] by blast
  show ?case using 1(1) 2(1) 3(1) 4 by simp
next
  case (Cons fn fs)
  obtain v d a where vd: "getVendorID bus port fn s = (v, s\<lparr>cfg_addr := a\<rparr>)"
    "getDeviceID bus port fn (s\<lparr>cfg_addr := a\<rparr>) = (d, s\<lparr>cfg_addr := a\<rparr>)" "\<not> (v = 0x8086 \<and> d = 0x2922)"
    using first_register [OF Cons.prems] by metis
  obtain c a1 where c: "getClassId (ucast bus) (ucast port) (ucast fn) (s\<lparr>cfg_addr := a\<rparr>) = (c, s\<lparr>cfg_addr := a1\<rparr>)"
    using getClassId_addr [of "ucast bus" "ucast port" "ucast fn" "s\<lparr>cfg_addr := a\<rparr>"] by auto
  obtain e a2 where e: "getSubClassId (ucast bus) (ucast port) (ucast fn) (s\<lparr>cfg_addr := a1\<rparr>) = (e, s\<lparr>cfg_addr := a2\<rparr>)"
    using getSubClassId_addr [of "ucast bus" "ucast port" "ucast fn" "s\<lparr>cfg_addr := a1\<rparr>"] by auto
  have ok: "scanning (s\<lparr>cfg_addr := a2\<rparr>)" using Cons.prems by (simp only: scanning_addr)
  show ?case
    using Cons.IH [OF ok, of "[v, d, c, e]"] ok vd(3) unfolding check_functions.simps Let_def vd(1,2) c e prod.case by auto
qed

lemma check_ports_scanning:
  assumes "scanning s"
  shows "\<exists>s'. check_ports bus ports s = Some (False, s') \<and> scanning s'"
  using assms
proof (induction ports arbitrary: s)
  case (Cons port ports)
  obtain s1 where s1: "checkDevice bus port s = Some (0, s1)" "scanning s1"
    using check_functions_scanning [OF Cons.prems] unfolding checkDevice_def by blast
  moreover have "\<not> got_it s1" using s1(2) by (simp add: scanning_def no_controller_def)
  ultimately show ?case using Cons.IH [OF s1(2)] by simp
qed simp

lemma bus_below_256: "uint (bus :: u8) < 256"
  using unsigned_less [of bus, where ?'a = int] by simp

lemma bus_loop_scanning:
  assumes "bus_loop bus s = Some r"
  shows "\<not> scanning s"
proof (rule bus_loop.raw_induct [where P = "\<lambda>bus s r. \<not> scanning s", OF _ assms])
  fix loop :: "u8 \<Rightarrow> 'a pci_scheme \<Rightarrow> 'a pci_scheme option" and bus s r
  assume IH: "\<And>bus s r. loop bus s = Some r \<Longrightarrow> \<not> scanning s"
  assume run: "(if uint bus < 256 then do {
      (found, s) \<leftarrow> check_ports bus (map of_nat [0..<32]) s;
      if found then Some s else loop (bus + 1) s
    } else Some s) = Some r"
  show "\<not> scanning s"
  proof
    assume "scanning s"
    then obtain s1 where "check_ports bus (map of_nat [0..<32]) s = Some (False, s1)" "scanning s1"
      using check_ports_scanning by blast
    then show False using IH [of "bus + 1" s1 r] run bus_below_256 [of bus] by (simp del: upt.simps)
  qed
qed

text \<open>C39. The scan of the buses has no end on a machine without the controller, whatever other devices there are: every
  single bus is scanned and its devices are reported, but the counter of the buses, of eight bits, is below 256
  after every increment, so that the guard of the loop never ends it.\<close>

theorem checkAllBuses_no_end:
  assumes "no_controller s" and "printer_ready s"
  shows "checkAllBuses s = None \<and> uint (bus :: u8) < 256 \<and>
    (\<exists>s'. check_ports bus (map of_nat [0..<32]) s = Some (False, s') \<and> no_controller s' \<and> printer_ready s')"
proof -
  have s: "scanning s" using assms by (simp add: scanning_def)
  then have "checkAllBuses s = None"
    using bus_loop_scanning [of 0 s] by (cases "checkAllBuses s") (auto simp add: checkAllBuses_def)
  then show ?thesis
    using check_ports_scanning [OF s, of bus "map of_nat [0..<32]"] bus_below_256 [of bus] by (auto simp add: scanning_def)
qed

theorem checkAllBuses_no_end_witness:
  "checkAllBuses (pci_of demo_process (\<lambda>a. if a = 0x80000000 then 0x12378086 else 0xFFFFFFFF)) = None"
proof -
  have "printer_ready (pci_of demo_process cfg)" for cfg
    by (simp add: printer_ready_def screen_ok_def disjoint_regions_def pci_of_def demo_process_def demo_cpu_def demo_tarfs_def
        demo_keyboard_def demo_devices_def demo_user_def process.defs pci.defs cpu.defs tarfs.defs keyboard.defs
        devices.defs user_paging.defs)
  then show ?thesis
    using checkAllBuses_no_end [of "pci_of demo_process (\<lambda>a. if a = 0x80000000 then 0x12378086 else 0xFFFFFFFF)" 0]
    by (simp add: no_controller_def pci_of_def process.defs pci.defs)
qed

section \<open>The areas of the ports\<close>

text \<open>What the comments of \<open>port_rebase\<close> promise: one kilobyte for the command list of each port, 256 bytes
  for the frames it receives, and eight kilobytes for its 32 command tables.\<close>

definition ahci_area :: "nat \<Rightarrow> u64" where
  "ahci_area off = 0xfebf1000 + of_nat off"

definition command_list :: "nat \<Rightarrow> nat" where
  "command_list p = 1024 * p"

definition fis_area :: "nat \<Rightarrow> nat" where
  "fis_area p = 1024 * 32 + 256 * p"

definition command_table :: "nat \<Rightarrow> nat \<Rightarrow> nat" where
  "command_table p i = 1024 * 40 + 8192 * p + 256 * i"

lemma ucast_area:
  assumes "n < 0x140F000"
  shows "ucast (AHCI_BASE + of_nat n) = ahci_area n"
proof -
  have "(ucast (of_nat (0xfebf1000 + n) :: u32) :: u64) = of_nat (0xfebf1000 + n)"
    using assms by (simp add: unsigned_of_nat take_bit_nat_eq_self del: of_nat_add)
  then show ?thesis by (simp add: ahci_area_def)
qed

lemma area_words:
  assumes "p < 32" and "i < 32"
  shows "ucast (AHCI_BASE + push_bit 10 (of_nat p)) = ahci_area (command_list p)"
    and "ucast (AHCI_BASE + push_bit 10 32 + push_bit 8 (of_nat p)) = ahci_area (fis_area p)"
    and "ucast (AHCI_BASE + push_bit 10 40 + push_bit 13 (of_nat p) + push_bit 8 (of_nat i)) = ahci_area (command_table p i)"
proof -
  show "ucast (AHCI_BASE + push_bit 10 (of_nat p)) = ahci_area (command_list p)"
    using ucast_area [of "1024 * p"] assms by (simp add: command_list_def push_bit_eq_mult mult.commute)
  show "ucast (AHCI_BASE + push_bit 10 32 + push_bit 8 (of_nat p)) = ahci_area (fis_area p)"
    using ucast_area [of "1024 * 32 + 256 * p"] assms by (simp add: fis_area_def push_bit_eq_mult mult.commute)
  show "ucast (AHCI_BASE + push_bit 10 40 + push_bit 13 (of_nat p) + push_bit 8 (of_nat i)) = ahci_area (command_table p i)"
    using ucast_area [of "1024 * 40 + 8192 * p + 256 * i"] assms
    by (simp add: command_table_def push_bit_eq_mult mult.commute add.assoc)
qed

lemma areas_disjoint:
  assumes "a + n \<le> b \<or> b + k \<le> a" and "a + n \<le> 2 ^ 32" and "b + k \<le> 2 ^ 32" and "0 < n" and "0 < k"
  shows "disjoint_regions (ahci_area a) n (ahci_area b) k"
  using assms(1)
proof
  assume "a + n \<le> b"
  then show ?thesis unfolding ahci_area_def using assms(2-) by (intro disjoint_within) simp_all
next
  assume "b + k \<le> a"
  then show ?thesis unfolding ahci_area_def using assms(2-)
    by (subst disjoint_regions_sym) (intro disjoint_within, simp_all)
qed

lemma memset_zeroes:
  assumes "sint len = int n" and "n \<le> 2 ^ 32"
  shows "memset m a 0 len = put_bytes m a (replicate n 0)"
  using assms by (simp add: memset_def memset_loop_put)

text \<open>The entry of a command table in the list, and the table it names.\<close>

definition header_ok :: "memory \<Rightarrow> nat \<Rightarrow> nat \<Rightarrow> bool" where
  "header_ok m p i \<longleftrightarrow>
     load16 m (ahci_area (command_list p + 32 * i + 2)) = 8 \<and>
     load64 m (ahci_area (command_list p + 32 * i + 8)) = ahci_area (command_table p i) \<and>
     get_bytes m (ahci_area (command_table p i)) 256 = replicate 256 0"

lemma ahci_area_add: "ahci_area a + of_nat b = ahci_area (a + b)"
  by (simp add: ahci_area_def)

lemma init_header_store:
  assumes "p < 32" and "i < 32"
  shows "init_header (ahci_area (command_list p)) (of_nat p) i m =
    put_bytes (store64 (store16 m (ahci_area (command_list p + 32 * i + 2)) 8)
        (ahci_area (command_list p + 32 * i + 8)) (ahci_area (command_table p i)))
      (ahci_area (command_table p i)) (replicate 256 0)"
proof -
  have "ahci_area (command_list p) + 32 * of_nat i + of_nat k = ahci_area (command_list p + 32 * i + k)" for k
    by (simp add: ahci_area_def)
  from this [of 2] this [of 8] show ?thesis
    unfolding init_header_def Let_def using area_words(3) [OF assms] memset_zeroes [of 256 256] by simp
qed

lemma init_header_outside:
  assumes "p < 32" and "i < 32" and "0 < k" and "disjoint_regions (ahci_area (command_list p + 32 * i)) 32 q k"
    and "disjoint_regions (ahci_area (command_table p i)) 256 q k"
  shows "get_bytes (init_header (ahci_area (command_list p)) (of_nat p) i m) q k = get_bytes m q k"
proof -
  let ?h = "command_list p + 32 * i"
  have "disjoint_regions (ahci_area (?h + 2)) 2 q k" "disjoint_regions (ahci_area (?h + 8)) 8 q k"
    using disjoint_subs [OF assms(4), of 2 2 0 k] disjoint_subs [OF assms(4), of 8 8 0 k] assms(3)
    by (simp_all add: ahci_area_def add.assoc)
  then show ?thesis
    unfolding init_header_store [OF assms(1,2)] using assms(5)
    by (simp add: store16_def store64_def get_put_disjoint)
qed

lemma init_header_ok:
  assumes "p < 32" and "i < 32"
  shows "header_ok (init_header (ahci_area (command_list p)) (of_nat p) i m) p i"
proof -
  let ?h = "command_list p + 32 * i" and ?t = "ahci_area (command_table p i)"
  have d: "disjoint_regions ?t 256 (ahci_area (?h + 2)) 2" "disjoint_regions ?t 256 (ahci_area (?h + 8)) 8"
    "disjoint_regions (ahci_area (?h + 8)) 8 (ahci_area (?h + 2)) 2"
    using assms by (simp_all add: areas_disjoint command_list_def command_table_def)
  have "load16 (put_bytes (store64 m1 (ahci_area (?h + 8)) v) ?t (replicate 256 0)) (ahci_area (?h + 2)) =
      load16 m1 (ahci_area (?h + 2))" for m1 v
    using d(1,3) by (simp add: load16_def store64_def get_put_disjoint)
  moreover have "load64 (put_bytes m1 ?t (replicate 256 0)) (ahci_area (?h + 8)) = load64 m1 (ahci_area (?h + 8))" for m1
    using d(2) by (simp add: load64_def get_put_disjoint)
  moreover have "get_bytes (put_bytes m1 ?t (replicate 256 0)) ?t 256 = replicate 256 0" for m1
    using get_put_bytes [of "replicate 256 0" m1 ?t] by simp
  ultimately show ?thesis unfolding header_ok_def init_header_store [OF assms] by simp
qed

lemma header_ok_kept:
  assumes "p < 32" and "i < 32" and "j < 32" and "i \<noteq> j" and "header_ok m p j"
  shows "header_ok (init_header (ahci_area (command_list p)) (of_nat p) i m) p j"
proof -
  let ?g = "get_bytes (init_header (ahci_area (command_list p)) (of_nat p) i m)"
  have "?g (ahci_area a) k = get_bytes m (ahci_area a) k"
    if "command_list p + 32 * j \<le> a \<and> a + k \<le> command_list p + 32 * j + 32 \<or> a = command_table p j \<and> k = 256" "0 < k" for a k
    using that assms(1-4)
    by (intro init_header_outside areas_disjoint) (auto simp add: command_list_def command_table_def)
  then show ?thesis
    using assms(5) by (simp add: header_ok_def load16_def load64_def)
qed

lemma headers_ok:
  assumes "p < 32" and "n \<le> 32" and "i < n"
  shows "header_ok (fold (init_header (ahci_area (command_list p)) (of_nat p)) [0..<n] m) p i"
  using assms(2,3)
proof (induction n)
  case (Suc n)
  let ?m = "fold (init_header (ahci_area (command_list p)) (of_nat p)) [0..<n] m"
  have step: "fold (init_header (ahci_area (command_list p)) (of_nat p)) [0..<Suc n] m =
      init_header (ahci_area (command_list p)) (of_nat p) n ?m" by simp
  show ?case unfolding step
  proof (cases "i = n")
    case True
    then show "header_ok (init_header (ahci_area (command_list p)) (of_nat p) n ?m) p i"
      using init_header_ok [OF assms(1), of n] Suc.prems by simp
  next
    case False
    then show "header_ok (init_header (ahci_area (command_list p)) (of_nat p) n ?m) p i"
      using Suc by (intro header_ok_kept assms(1)) simp_all
  qed
qed simp

lemma headers_outside:
  assumes "p < 32" and "n \<le> 32" and "0 < k" and "disjoint_regions (ahci_area (command_list p)) 1024 q k"
    and "disjoint_regions (ahci_area (command_table p 0)) 8192 q k"
  shows "get_bytes (fold (init_header (ahci_area (command_list p)) (of_nat p)) [0..<n] m) q k = get_bytes m q k"
  using assms(2)
proof (induction n)
  case (Suc n)
  have "disjoint_regions (ahci_area (command_list p + 32 * n)) 32 q k"
    "disjoint_regions (ahci_area (command_table p n)) 256 q k"
    using disjoint_subs [OF assms(4), of "32 * n" 32 0 k] disjoint_subs [OF assms(5), of "256 * n" 256 0 k] assms(3) Suc.prems
    by (simp_all add: ahci_area_def command_table_def add.assoc)
  then show ?case using init_header_outside [OF assms(1) _ assms(3), of n q] Suc by simp
qed simp

definition port_areas :: "nat \<Rightarrow> (nat \<times> nat) list" where
  "port_areas p = [(command_list p, 1024), (fis_area p, 256), (command_table p 0, 8192)]"

text \<open>What the command register delivers to \<open>port_rebase\<close> while it waits. To be stopped, the device is asked for \<open>FR\<close>, and
  when that is clear for \<open>CR\<close>; a round that finds one of them set is repeated. To be started, it is
  asked for \<open>CR\<close> only. The other bits of the register are free.\<close>

fun busy_rounds :: "u32 list \<Rightarrow> bool" where
  "busy_rounds [] \<longleftrightarrow> True"
| "busy_rounds (c # cs) \<longleftrightarrow> (if bit c 14 then busy_rounds cs else case cs of [] \<Rightarrow> False | d # ds \<Rightarrow> bit d 15 \<and> busy_rounds ds)"

definition device_stops :: "u32 list \<Rightarrow> u32 \<Rightarrow> u32 \<Rightarrow> u32 list \<Rightarrow> u32 \<Rightarrow> bool" where
  "device_stops busy a b running d \<longleftrightarrow>
     busy_rounds busy \<and> \<not> bit a 14 \<and> \<not> bit b 15 \<and> (\<forall>c\<in>set running. bit c 15) \<and> \<not> bit d 15"

lemma command_bits:
  fixes c :: u32
  shows "c AND push_bit 14 1 \<noteq> 0 \<longleftrightarrow> bit c 14" "c AND push_bit 15 1 \<noteq> 0 \<longleftrightarrow> bit c 15"
proof -
  have "c AND push_bit k 1 \<noteq> 0 \<longleftrightarrow> bit c k" if "k < 32" for k
  proof -
    have "bit (c AND push_bit k 1) n \<longleftrightarrow> n = k \<and> bit c k" for n
      using that by (auto simp add: bit_and_iff bit_exp_iff)
    then have "c AND push_bit k 1 = 0 \<longleftrightarrow> (\<forall>n. \<not> (n = k \<and> bit c k))"
      using that by (simp only: bit_eq_iff [of "c AND push_bit k 1" 0] bit_0_eq bot_apply bot_bool_def simp_thms) simp
    then show ?thesis by blast
  qed
  from this [of 14] this [of 15] show "c AND push_bit 14 1 \<noteq> 0 \<longleftrightarrow> bit c 14" "c AND push_bit 15 1 \<noteq> 0 \<longleftrightarrow> bit c 15"
    by simp_all
qed

lemma wait_stopped_ends:
  assumes "busy_rounds busy" and "\<not> bit a 14" and "\<not> bit b 15"
  shows "wait_stopped (busy @ a # b # cs) = Some cs"
  using assms(1)
proof (induction busy rule: busy_rounds.induct)
  case 1
  show ?case using assms(2,3) by (simp only: append_Nil wait_stopped.simps command_bits list.case if_False)
next
  case (2 c bs)
  show ?case
  proof (cases "bit c 14")
    case True
    then have "wait_stopped (bs @ a # b # cs) = Some cs" using 2 by simp
    then show ?thesis using True by (simp only: append_Cons wait_stopped.simps command_bits if_True)
  next
    case False
    then obtain d ds where bs: "bs = d # ds" "bit d 15" "busy_rounds ds" using 2(3) by (cases bs) simp_all
    then have "wait_stopped (ds @ a # b # cs) = Some cs" using 2(2) [OF False bs(1)] by simp
    then show ?thesis using False bs
      by (simp only: append_Cons wait_stopped.simps command_bits if_True if_False list.case)
  qed
qed

lemma wait_cr_ends:
  assumes "\<forall>c\<in>set running. bit c 15" and "\<not> bit d 15"
  shows "wait_cr (running @ d # cs) = Some cs"
  using assms(1)
proof (induction running)
  case Nil
  show ?case using assms(2) by (simp only: append_Nil wait_cr.simps command_bits if_False)
next
  case (Cons c running)
  then have "bit c 15" "wait_cr (running @ d # cs) = Some cs" by simp_all
  then show ?case by (simp only: append_Cons wait_cr.simps command_bits if_True)
qed

text \<open>The store after the steps of \<open>port_rebase\<close>: the device is stopped, the areas are cleared and entered in
  the registers, the headers are written, and the device is started.\<close>

definition cleared :: "u64 \<Rightarrow> nat \<Rightarrow> u32 \<Rightarrow> u32 \<Rightarrow> memory \<Rightarrow> memory" where
  "cleared port p c0 c1 m =
     (let m = store32 (store32 m (port_cmd port) (c0 AND NOT 1)) (port_cmd port) (c1 AND NOT (push_bit 4 1));
          m = put_bytes (store64 m (port_clb port) (ahci_area (command_list p))) (ahci_area (command_list p)) (replicate 1024 0)
      in put_bytes (store64 m (port_fb port) (ahci_area (fis_area p))) (ahci_area (fis_area p)) (replicate 256 0))"

definition started :: "u64 \<Rightarrow> u32 \<Rightarrow> u32 \<Rightarrow> memory \<Rightarrow> memory" where
  "started port c2 c3 m =
     store32 (store32 m (port_cmd port) (c2 OR push_bit 4 1)) (port_cmd port) (c3 OR 1)"

lemma register_apart:
  assumes "disjoint_regions port 128 (ahci_area 0) 0x4A000"
    and "r + j \<le> 128" "0 < j" "a + n \<le> 0x4A000" "0 < n"
  shows "disjoint_regions (port + of_nat r) j (ahci_area a) n"
  using disjoint_subs [OF assms(1,2,4,3,5)] by (simp add: ahci_area_def)

lemma area_bounds:
  assumes "p < 32"
  shows "command_list p + 1024 \<le> 0x8000" "0x8000 \<le> fis_area p" "fis_area p + 256 \<le> 0xA000"
    "0xA000 \<le> command_table p 0" "command_table p 0 + 8192 \<le> 0x4A000"
  using assms by (simp_all add: command_list_def fis_area_def command_table_def)

lemma cleared_registers:
  assumes "p < 32" and "disjoint_regions port 128 (ahci_area 0) 0x4A000"
  shows "load64 (cleared port p c0 c1 m) port = ahci_area (command_list p)"
    and "load64 (cleared port p c0 c1 m) (port_fb port) = ahci_area (fis_area p)"
proof -
  note b = area_bounds [OF assms(1)]
  have d: "disjoint_regions (ahci_area a) n port 8" "disjoint_regions (ahci_area a) n (port_fb port) 8"
    if "a + n \<le> 0x4A000" "0 < n" for a n
    using register_apart [OF assms(2), of 0 8 a n] register_apart [OF assms(2), of 8 8 a n] that
    by (simp_all add: disjoint_regions_sym)
  have r: "disjoint_regions (port_fb port) 8 port 8" by (simp add: disjoint_regions_def)
  have keep: "load64 (put_bytes k (ahci_area a) (replicate n 0)) port = load64 k port"
    "load64 (put_bytes k (ahci_area a) (replicate n 0)) (port_fb port) = load64 k (port_fb port)"
    if "a + n \<le> 0x4A000" "0 < n" for a n k
    using d [OF that] that by (simp_all add: load64_def get_put_disjoint)
  show "load64 (cleared port p c0 c1 m) port = ahci_area (command_list p)"
    "load64 (cleared port p c0 c1 m) (port_fb port) = ahci_area (fis_area p)"
    using b r by (simp_all add: cleared_def Let_def keep load64_store_disjoint)
qed

lemma port_rebase_runs:
  assumes "p < 32" and "device_stops busy a b running d" and "disjoint_regions port 128 (ahci_area 0) 0x4A000"
  shows "port_rebase port (of_nat p) (c0 # busy @ a # b # c1 # running @ d # c2 # c3 # rest) m =
    Some (started port c2 c3 (fold (init_header (ahci_area (command_list p)) (of_nat p)) [0..<32] (cleared port p c0 c1 m)), rest)"
proof -
  let ?m = "store32 (store32 m (port_cmd port) (c0 AND NOT 1)) (port_cmd port) (c1 AND NOT (push_bit 4 1))"
  have stop: "stop_cmd port (c0 # busy @ a # b # c1 # cs) m = Some (?m, cs)" for cs
    using wait_stopped_ends [of busy a b] assms(2) by (simp add: stop_cmd_def device_stops_def)
  have start: "start_cmd port (running @ d # c2 # c3 # rest) k = Some (started port c2 c3 k, rest)" for k
    using wait_cr_ends [of running d] assms(2) by (simp add: start_cmd_def device_stops_def started_def)
  note reg = cleared_registers [OF assms(1,3), of c0 c1 m, unfolded cleared_def Let_def]
  have zero: "(0 :: nat) < 32" by simp
  show ?thesis
    unfolding port_rebase_def stop Let_def area_words(1,2) [OF assms(1) zero]
    using reg by (simp add: start cleared_def Let_def memset_zeroes [of 1024 1024] memset_zeroes [of 256 256])
qed


lemma started_outside:
  "disjoint_regions (port_cmd port) 4 q k \<Longrightarrow> get_bytes (started port c2 c3 m) q k = get_bytes m q k"
  by (simp add: started_def store32_def get_put_disjoint)

lemma cleared_outside:
  assumes "p < 32" and "disjoint_regions port 128 q k" and "disjoint_regions (ahci_area (command_list p)) 1024 q k"
    and "disjoint_regions (ahci_area (fis_area p)) 256 q k" and "0 < k"
  shows "get_bytes (cleared port p c0 c1 m) q k = get_bytes m q k"
proof -
  have "disjoint_regions port 8 q k" "disjoint_regions (port_fb port) 8 q k" "disjoint_regions (port_cmd port) 4 q k"
    using disjoint_subs [OF assms(2), of 0 8 0 k] disjoint_subs [OF assms(2), of 8 8 0 k]
      disjoint_subs [OF assms(2), of 24 4 0 k] assms(5) by simp_all
  then show ?thesis
    using assms(3,4) by (simp add: cleared_def Let_def store32_def store64_def get_put_disjoint)
qed

lemma header_ok_bytes:
  assumes "\<And>a n. a + n \<le> 0x4A000 \<Longrightarrow> 0 < n \<Longrightarrow> get_bytes m' (ahci_area a) n = get_bytes m (ahci_area a) n"
    and "p < 32" and "i < 32"
  shows "header_ok m' p i = header_ok m p i"
  using assms by (simp add: header_ok_def load16_def load64_def command_list_def command_table_def)

text \<open>C15. \<open>port_rebase\<close> ends once the device has stopped, that is once its command register has been read with \<open>FR\<close> clear and
  then with \<open>CR\<close> clear, whatever rounds came before, and \<open>CR\<close> is found clear again before the start. It gives the
  port areas of its own: the registers name a command list and a receive area as the comments describe them, the
  32 entries of the list name 32 cleared tables, and the areas of all other ports keep their contents. The
  registers of the port are outside of the areas.\<close>

theorem port_rebase_areas:
  assumes "p < 32" and "device_stops busy a b running d" and "disjoint_regions port 128 (ahci_area 0) 0x4A000"
  shows "\<exists>m'. port_rebase port (of_nat p) (c0 # busy @ a # b # c1 # running @ d # c2 # c3 # rest) m = Some (m', rest) \<and>
    load64 m' (port_clb port) = ahci_area (command_list p) \<and> load64 m' (port_fb port) = ahci_area (fis_area p) \<and>
    load32 m' (port_cmd port) = c3 OR 1 \<and>
    get_bytes m' (ahci_area (fis_area p)) 256 = replicate 256 0 \<and> (\<forall>i<32. header_ok m' p i) \<and>
    (\<forall>q<32. q \<noteq> p \<longrightarrow> (\<forall>(a, n)\<in>set (port_areas q). get_bytes m' (ahci_area a) n = get_bytes m (ahci_area a) n))"
proof -
  note b = area_bounds [OF assms(1)]
  define m1 where "m1 = cleared port p c0 c1 m"
  define m2 where "m2 = fold (init_header (ahci_area (command_list p)) (of_nat p)) [0..<32] m1"
  let ?m = "started port c2 c3 m2"
  have cmd: "disjoint_regions (port_cmd port) 4 (ahci_area a) n" if "a + n \<le> 0x4A000" "0 < n" for a n
    using register_apart [OF assms(3), of 24 4 a n] that by simp
  have reg: "load64 ?m q = load64 m1 q" if "q = port \<or> q = port_fb port" for q
  proof (rule load64_bytes)
    have "disjoint_regions (port_cmd port) 4 q 8" using that by (auto simp add: disjoint_regions_def)
    moreover have "disjoint_regions (ahci_area a) n q 8" if "a + n \<le> 0x4A000" "0 < n" for a n
      using register_apart [OF assms(3), of 0 8 a n] register_apart [OF assms(3), of 8 8 a n] that \<open>q = port \<or> q = port_fb port\<close>
      by (auto simp add: disjoint_regions_sym)
    ultimately show "get_bytes ?m q 8 = get_bytes m1 q 8"
      unfolding m2_def using b headers_outside [OF assms(1), of 32 8 q m1] by (simp add: started_outside)
  qed
  have fis: "get_bytes ?m (ahci_area (fis_area p)) 256 = get_bytes m1 (ahci_area (fis_area p)) 256"
    unfolding m2_def using b cmd headers_outside [OF assms(1), of 32 256 _ m1]
    by (simp add: started_outside areas_disjoint)
  have other: "get_bytes ?m (ahci_area a) n = get_bytes m (ahci_area a) n"
    if "q < 32" "q \<noteq> p" "(a, n) \<in> set (port_areas q)" for q a n
  proof -
    have n: "0 < n" "a + n \<le> 0x4A000" using that(1,3) area_bounds [OF that(1)] by (auto simp add: port_areas_def)
    have d: "disjoint_regions (ahci_area (command_list p)) 1024 (ahci_area a) n"
      "disjoint_regions (ahci_area (fis_area p)) 256 (ahci_area a) n"
      "disjoint_regions (ahci_area (command_table p 0)) 8192 (ahci_area a) n"
      using that assms(1)
      by (auto intro!: areas_disjoint simp add: port_areas_def command_list_def fis_area_def command_table_def)
    then show ?thesis
      unfolding m2_def m1_def
      using register_apart [OF assms(3), of 0 128 a n] cmd n headers_outside [OF assms(1), of 32 n "ahci_area a"]
      by (simp add: started_outside cleared_outside [OF assms(1)])
  qed
  have "header_ok ?m p i" if "i < 32" for i
    using header_ok_bytes [OF started_outside [OF cmd] assms(1) that] headers_ok [OF assms(1) _ that] by (simp add: m2_def)
  moreover have "get_bytes m1 (ahci_area (fis_area p)) 256 = replicate 256 0"
    using get_put_bytes [of "replicate 256 0" _ "ahci_area (fis_area p)"] by (simp add: m1_def cleared_def Let_def)
  moreover have "load32 ?m (port_cmd port) = c3 OR 1" by (simp add: started_def)
  ultimately show ?thesis
    using port_rebase_runs [OF assms] cleared_registers [OF assms(1,3)] reg fis other
    by (auto simp add: m1_def m2_def)
qed

theorem port_rebase_areas_witness:
  "\<exists>m'. port_rebase 0xfebf0180 (of_nat 1) [0xC017, 0xC016, 0x8016, 0x8016, 0x16, 0x16, 0x16, 0x8006, 0x6, 0x6, 0x16] (\<lambda>_. 0xFF) = Some (m', []) \<and>
     load64 m' 0xfebf0180 = 0xfebf1400 \<and> load64 m' 0xfebf0188 = 0xfebf9100 \<and> load32 m' 0xfebf0198 = 0x17 \<and>
     load64 m' 0xfebf1428 = 0xfebfd100"
proof -
  have "device_stops [0xC016, 0x8016, 0x8016] 0x16 0x16 [0x8006] 0x6" by (simp add: device_stops_def bit_iff_odd_drop_bit)
  moreover have "disjoint_regions 0xfebf0180 128 (ahci_area 0) 0x4A000"
    by (simp add: disjoint_regions_def ahci_area_def)
  ultimately obtain m' where m: "port_rebase 0xfebf0180 (of_nat 1)
      (0xC017 # [0xC016, 0x8016, 0x8016] @ 0x16 # 0x16 # 0x16 # [0x8006] @ 0x6 # 0x6 # 0x16 # []) (\<lambda>_. 0xFF) = Some (m', [])"
    "load64 m' 0xfebf0180 = ahci_area (command_list 1)" "load64 m' (port_fb 0xfebf0180) = ahci_area (fis_area 1)"
    "load32 m' (port_cmd 0xfebf0180) = 0x16 OR 1" "\<forall>i<32. header_ok m' 1 i"
    using port_rebase_areas [of 1 "[0xC016, 0x8016, 0x8016]" "0x16" "0x16" "[0x8006]" "0x6" "0xfebf0180" "0xC017" "0x16" "0x6" "0x16" "[]" "\<lambda>_. 0xFF"]
    by (auto simp del: of_nat_1 of_nat_numeral)
  moreover have "header_ok m' 1 1" using m(5) by simp
  ultimately show ?thesis
    by (simp add: header_ok_def ahci_area_def command_list_def fis_area_def command_table_def)
qed

section \<open>Registers and structures\<close>

text \<open>The offsets that the model of \<open>sys/pci.c\<close> uses are those of the fields of the structures, and the areas
  that \<open>port_rebase\<close> reserves have the sizes of the structures they hold, with eight entries in each table.\<close>

lemma port_registers:
  "field_address hba_port_t ''clb'' port = Some (port_clb port)" "field_address hba_port_t ''fb'' port = Some (port_fb port)"
  "field_address hba_port_t ''cmd'' port = Some (port_cmd port)" "field_address hba_port_t ''sig'' port = Some (port_sig port)"
  "field_address hba_port_t ''ssts'' port = Some (port_ssts port)"
  by (simp_all add: field_address_def layout_defs)

lemma controller_registers:
  "field_address hba_mem_t ''pi'' abar = Some (abar_pi abar)"
  "map_option (\<lambda>a. a + of_nat (sizeof hba_port_t) * of_nat i) (field_address hba_mem_t ''ports'' abar) = Some (abar_port abar i)"
  by (simp_all add: field_address_def layout_defs)

lemma area_sizes:
  "command_list (Suc p) - command_list p = sizeof hba_cmd_list_t" "fis_area (Suc p) - fis_area p = sizeof hba_fis_t"
  "field_address hba_cmd_tbl_t ''prdt_entry'' (ahci_area (command_table p k)) = Some (ahci_area (command_table p k + 0x80))"
  "command_table p k + 0x80 + 8 * sizeof hba_prdt_entry_t = command_table p (Suc k)"
  by (simp_all add: field_address_def layout_defs command_list_def fis_area_def command_table_def ahci_area_def)

end
