(* ===== verification/Kernel_Heap.thy ===== *)
theory Kernel_Heap
  imports Paging
begin

text \<open>
  The kernel's memory over time: any interleaving of allocations by \<open>page_alloc\<close> and \<open>kmalloc\<close>
  (\<open>sys/paging.c\<close>) with writes of their owners. A step relation builds up the blocks that were handed out and
  the contents that their owners expect; the invariant says that the blocks do not overlap and
  read as expected.
\<close>

section \<open>Runs of the allocator\<close>

text \<open>A block is its address and its number of pages.\<close>

type_synonym block = "u64 \<times> nat"

definition npages :: "block list \<Rightarrow> nat" where
  "npages bs = sum_list (map snd bs)"

definition zero_pages :: "u64 \<Rightarrow> nat \<Rightarrow> (u64 \<Rightarrow> u8) \<Rightarrow> u64 \<Rightarrow> u8" where
  "zero_pages p n h = (\<lambda>a. if unat (a - p) < 4096 * n then 0 else h a)"

inductive heap_run ::
  "'a paging_scheme \<Rightarrow> block list \<Rightarrow> (u64 \<Rightarrow> u8) \<Rightarrow> 'a paging_scheme \<Rightarrow> bool" for s0 where
  init: "heap_run s0 [] h s0"
| page: "heap_run s0 bs h s \<Longrightarrow> page_alloc s = (p, s') \<Longrightarrow> heap_run s0 ((p, 1) # bs) (zero_pages p 1 h) s'"
| alloc: "heap_run s0 bs h s \<Longrightarrow> 0 < sz \<Longrightarrow> unat sz < 2 ^ 44 - 4096 \<Longrightarrow> kmalloc sz s = (p, s') \<Longrightarrow>
    heap_run s0 ((p, pages_for sz) # bs) (zero_pages p (pages_for sz) h) s'"
| owner: "heap_run s0 bs h s \<Longrightarrow> (p, n) \<in> set bs \<Longrightarrow> unat (a - p) < 4096 * n \<Longrightarrow>
    heap_run s0 bs (h(a := v)) (s\<lparr>store := (store s)(a := v)\<rparr>)"

text \<open>The pool has room for \<open>N\<close> pages: they do not overlap with the slots of the free list that their
  allocation clears, and the counter of the slots stays positive.\<close>

definition pool_ok :: "nat \<Rightarrow> 'a paging_scheme \<Rightarrow> bool" where
  "pool_ok N s \<longleftrightarrow> unat (counter s) + N < 2 ^ 31 \<and>
     disjoint_regions (next_frame s + VIRT_BASE) (4096 * N) (freelist_slot s) (4 * N)"

section \<open>The invariant\<close>

fun laid_out :: "u64 \<Rightarrow> block list \<Rightarrow> bool" where
  "laid_out base [] \<longleftrightarrow> True"
| "laid_out base ((p, n) # bs) \<longleftrightarrow> p = base + of_nat (4096 * npages bs) \<and> 0 < n \<and> laid_out base bs"

definition reads_as :: "block list \<Rightarrow> (u64 \<Rightarrow> u8) \<Rightarrow> memory \<Rightarrow> bool" where
  "reads_as bs h m \<longleftrightarrow> (\<forall>(p, n) \<in> set bs. \<forall>a. unat (a - p) < 4096 * n \<longrightarrow> m a = h a)"

definition heap_inv ::
  "'a paging_scheme \<Rightarrow> block list \<Rightarrow> (u64 \<Rightarrow> u8) \<Rightarrow> 'a paging_scheme \<Rightarrow> bool" where
  "heap_inv s0 bs h s \<longleftrightarrow> laid_out (next_frame s0 + VIRT_BASE) bs \<and>
     next_frame s = next_frame s0 + of_nat (npages bs) * PAGE_SIZE \<and>
     freelist s = freelist s0 \<and> counter s = counter s0 + of_nat (npages bs) \<and> reads_as bs h (store s)"

lemma npages_simps [simp]: "npages [] = 0" "npages ((p, n) # bs) = n + npages bs"
  by (simp_all add: npages_def)

abbreviation take_pages :: "nat \<Rightarrow> 'a paging_scheme \<Rightarrow> 'a paging_scheme" where
  "take_pages n s \<equiv> ((\<lambda>s. snd (page_alloc s)) ^^ n) s"

lemma take_pages_fields:
  "freelist (take_pages n s) = freelist s" "counter (take_pages n s) = counter s + of_nat n"
  by (induction n) (simp_all add: page_alloc_fields)

lemma scast_small: "unat (w :: u32) < 2 ^ 31 \<Longrightarrow> (scast w :: u64) = of_nat (unat w)"
proof -
  assume "unat w < 2 ^ 31"
  then have "int (unat w) < 2 ^ 31" by (simp only: of_nat_less_numeral_power_cancel_iff)
  then have "signed_take_bit 31 (int (unat w)) = int (unat w)" by (intro signed_take_bit_int_eq_self) linarith+
  then have "sint w = int (unat w)" unfolding sint_uint uint_nat by simp
  then show ?thesis unfolding scast_eq by simp
qed

lemma slot_after:
  assumes "unat (counter s0) + k < 2 ^ 31" and "freelist s = freelist s0" and "counter s = counter s0 + of_nat k"
  shows "freelist_slot s = freelist_slot s0 + of_nat (4 * k)"
proof -
  have "unat (of_nat k :: u32) = k" using assms(1) by (simp add: unat_of_nat take_bit_eq_mod)
  then have "unat (counter s0 + of_nat k) = unat (counter s0) + k" using assms(1) by (simp add: unat_word_ariths)
  then have "scast (counter s) = (of_nat (unat (counter s0) + k) :: u64)"
    using scast_small [of "counter s"] assms(1,3) by simp
  moreover have "scast (counter s0) = (of_nat (unat (counter s0)) :: u64)" using assms(1) by (intro scast_small) simp
  ultimately show ?thesis by (simp add: freelist_slot_def assms(2) algebra_simps)
qed

text \<open>A byte of a block lies behind the base of the pool, before the next frame.\<close>

lemma laid_out_at:
  assumes "laid_out base bs" and "i < length bs"
  shows "fst (bs ! i) = base + of_nat (4096 * npages (drop (Suc i) bs)) \<and> 0 < snd (bs ! i)"
  using assms
proof (induction bs arbitrary: i)
  case (Cons b bs)
  then show ?case by (cases b; cases i) simp_all
qed simp

lemma npages_drop: "i < length bs \<Longrightarrow> npages (drop i bs) = snd (bs ! i) + npages (drop (Suc i) bs)"
  by (subst Cons_nth_drop_Suc [symmetric], assumption) (cases "bs ! i", simp)

lemma npages_append [simp]: "npages (as @ bs) = npages as + npages bs"
  by (simp add: npages_def)

lemma npages_drop_le: "i \<le> j \<Longrightarrow> npages (drop j bs) \<le> npages (drop i bs)"
proof -
  assume "i \<le> j"
  then have "drop j bs = drop (j - i) (drop i bs)" by simp
  moreover have "npages (drop k cs) \<le> npages cs" for k cs
    using npages_append [of "take k cs" "drop k cs"] by simp
  ultimately show ?thesis by (simp only:)
qed

lemma laid_out_byte:
  assumes "laid_out base bs" and "npages bs \<le> 2 ^ 31" and "(p, n) \<in> set bs" and "unat (a - p) < 4096 * n"
  shows "unat (a - base) < 4096 * npages bs"
proof -
  obtain i where i: "i < length bs" "bs ! i = (p, n)" using assms(3) by (metis in_set_conv_nth)
  let ?q = "4096 * npages (drop (Suc i) bs)"
  have p: "p = base + of_nat ?q" using laid_out_at [OF assms(1) i(1)] i(2) by simp
  have bound: "?q + 4096 * n \<le> 4096 * npages bs"
    using npages_drop [OF i(1)] npages_drop_le [of 0 i bs] i(2) by simp
  have "a - base = (a - p) + of_nat ?q" by (simp add: p)
  moreover have "unat ((a - p) + of_nat ?q) = unat (a - p) + ?q"
    using bound assms(2,4) by (intro unat_add_of_nat) simp
  ultimately show ?thesis using bound assms(4) by (simp only:)
qed

lemma heap_inv_pages:
  assumes inv: "heap_inv s0 bs h s" and pool: "pool_ok N s0" and n: "0 < n" "n + npages bs \<le> N"
  shows "heap_inv s0 ((next_frame s + VIRT_BASE, n) # bs) (zero_pages (next_frame s + VIRT_BASE) n h) (take_pages n s)"
proof -
  let ?base = "next_frame s0 + VIRT_BASE" and ?k = "npages bs" and ?p = "next_frame s + VIRT_BASE"
  have N: "N < 2 ^ 31" using pool by (simp add: pool_ok_def)
  have p: "?p = ?base + of_nat (4096 * ?k)" using inv by (simp add: heap_inv_def)
  have keep: "store (take_pages n s) a = store s a" "4096 * n \<le> unat (a - ?p)"
    if "(q, m) \<in> set bs" "unat (a - q) < 4096 * m" for q m a
  proof -
    have a: "unat (a - ?base) < 4096 * ?k"
      using laid_out_byte [OF _ _ that] inv n N by (simp add: heap_inv_def)
    then have "disjoint_regions (?base + of_nat 0) (4096 * ?k) (?base + of_nat (4096 * ?k)) (4096 * n)"
      using n N by (intro disjoint_within) simp_all
    then have "disjoint_regions ?p (4096 * n) ?base (4096 * ?k)" by (simp add: p disjoint_regions_sym)
    from disjoint_not_in [OF this a] show far: "4096 * n \<le> unat (a - ?p)" .
    have "4 \<le> unat (a - freelist_slot (take_pages i s))" if i: "i < n" for i
    proof -
      have slot: "freelist_slot (take_pages i s) = freelist_slot s0 + of_nat (4 * (?k + i))"
        using inv pool n i by (intro slot_after) (simp_all add: take_pages_fields heap_inv_def pool_ok_def)
      have "disjoint_regions ?base (4096 * N) (freelist_slot s0 + of_nat (4 * (?k + i))) 4"
        using pool n i by (intro disjoint_sub [where N = "4 * N"]) (simp_all add: pool_ok_def)
      then have "disjoint_regions (freelist_slot (take_pages i s)) 4 ?base (4096 * N)"
        by (simp only: slot disjoint_regions_sym)
      from disjoint_not_in [OF this] show ?thesis using a n by simp
    qed
    then show "store (take_pages n s) a = store s a"
      using frames.alloc_pages_keep [of n a s] far n N by (simp add: page_alloc_head)
  qed
  have zero: "store (take_pages n s) a = 0" if "unat (a - ?p) < 4096 * n" for a
    using frames.alloc_pages_zero [of a s n] that n N by (simp add: page_alloc_head)
  have "store (take_pages n s) a = zero_pages ?p n h a"
    if "(q, m) \<in> set ((?p, n) # bs)" "unat (a - q) < 4096 * m" for q m a
    using that zero keep [of q m a] inv by (auto simp add: zero_pages_def heap_inv_def reads_as_def)
  then have "reads_as ((?p, n) # bs) (zero_pages ?p n h) (store (take_pages n s))" by (auto simp only: reads_as_def)
  then show ?thesis
    using inv n p by (simp add: heap_inv_def take_pages_fields next_frame_pages algebra_simps)
qed

lemma pages_for_pos: "0 < sz \<Longrightarrow> 0 < pages_for sz"
  by (simp add: pages_for_def word_less_nat_alt)

lemma heap_run_inv:
  assumes "heap_run s0 bs h s" and "pool_ok N s0" and "npages bs \<le> N"
  shows "heap_inv s0 bs h s"
  using assms
proof (induction rule: heap_run.induct)
  case (init h)
  then show ?case by (simp add: heap_inv_def reads_as_def)
next
  case (page bs h s p s')
  then have "p = next_frame s + VIRT_BASE" "s' = take_pages 1 s" using page_alloc_head [of s] by simp_all
  then show ?case using heap_inv_pages [of s0 bs h s N 1] page by simp
next
  case (alloc bs h s sz p s')
  then have "p = next_frame s + VIRT_BASE" "s' = take_pages (pages_for sz) s"
    using kmalloc_pages [of sz s] by simp_all
  then show ?case using heap_inv_pages [of s0 bs h s N "pages_for sz"] alloc pages_for_pos [of sz] by simp
next
  case (owner bs h s p n a v)
  then show ?case by (auto simp add: heap_inv_def reads_as_def next_frame_def)
qed

section \<open>Properties\<close>

text \<open>C2. However allocations and writes of the owners interleave, the blocks that \<open>page_alloc\<close> and
  \<open>kmalloc\<close> hand out never overlap, and each block reads as its owner left it, zero where
  nothing was written, as long as the pool has room.\<close>

theorem kernel_heap_invariant:
  assumes "heap_run s0 bs h s" and "pool_ok N s0" and "npages bs \<le> N"
  shows "(\<forall>j < length bs. \<forall>i < j. disjoint_regions (fst (bs ! i)) (4096 * snd (bs ! i)) (fst (bs ! j)) (4096 * snd (bs ! j))) \<and>
    reads_as bs h (store s)"
proof (intro conjI allI impI)
  have inv: "heap_inv s0 bs h s" using assms by (rule heap_run_inv)
  then show "reads_as bs h (store s)" by (simp add: heap_inv_def)
  fix j i assume ij: "j < length bs" "i < j"
  let ?base = "next_frame s0 + VIRT_BASE"
  have "laid_out ?base bs" using inv by (simp add: heap_inv_def)
  then have at: "fst (bs ! k) = ?base + of_nat (4096 * npages (drop (Suc k) bs)) \<and> 0 < snd (bs ! k)" if "k < length bs" for k
    using that by (rule laid_out_at)
  have "npages (drop j bs) = snd (bs ! j) + npages (drop (Suc j) bs)" using ij by (intro npages_drop)
  moreover have "npages (drop i bs) = snd (bs ! i) + npages (drop (Suc i) bs)" using ij by (intro npages_drop) simp
  moreover have "npages (drop j bs) \<le> npages (drop (Suc i) bs)" using ij by (intro npages_drop_le) simp
  moreover have "0 < snd (bs ! i)" "0 < snd (bs ! j)" using at [of i] at [of j] ij by simp_all
  moreover have "npages (drop i bs) \<le> npages bs" using npages_drop_le [of 0 i bs] by simp
  moreover have "N < 2 ^ 31" using assms(2) by (simp add: pool_ok_def)
  ultimately have "disjoint_regions (?base + of_nat (4096 * npages (drop (Suc j) bs))) (4096 * snd (bs ! j))
      (?base + of_nat (4096 * npages (drop (Suc i) bs))) (4096 * snd (bs ! i))"
    using assms(3) by (intro disjoint_within) simp_all
  then show "disjoint_regions (fst (bs ! i)) (4096 * snd (bs ! i)) (fst (bs ! j)) (4096 * snd (bs ! j))"
    using at [of i] at [of j] ij by (simp add: disjoint_regions_sym)
qed

theorem kernel_heap_invariant_witness:
  "store (snd (kmalloc 0x1800 ((snd (page_alloc demo_paging))\<lparr>store :=
      (store (snd (page_alloc demo_paging)))(0xFFFFFFFF80300010 := 5)\<rparr>))) 0xFFFFFFFF80300010 = 5"
proof -
  let ?t = "snd (page_alloc demo_paging)" and ?p = "0xFFFFFFFF80300000 :: u64"
  let ?u = "?t\<lparr>store := (store ?t)(0xFFFFFFFF80300010 := 5)\<rparr>"
  have "fst (page_alloc demo_paging) = ?p"
    by (simp add: page_alloc_head next_frame_def demo_paging_def)
  then have "heap_run demo_paging [(?p, 1)] (zero_pages ?p 1 (\<lambda>_. 0)) ?t"
    using page [OF init [of demo_paging "\<lambda>_. 0"], of ?p ?t] by (simp add: prod_eq_iff)
  from owner [OF this, of ?p 1 "0xFFFFFFFF80300010" 5]
  have "heap_run demo_paging [(?p, 1)] ((zero_pages ?p 1 (\<lambda>_. 0))(0xFFFFFFFF80300010 := 5)) ?u" by simp
  from alloc [OF this, of "0x1800" "fst (kmalloc 0x1800 ?u)" "snd (kmalloc 0x1800 ?u)"]
  have "heap_run demo_paging [(fst (kmalloc 0x1800 ?u), 2), (?p, 1)]
      (zero_pages (fst (kmalloc 0x1800 ?u)) 2 ((zero_pages ?p 1 (\<lambda>_. 0))(0xFFFFFFFF80300010 := 5))) (snd (kmalloc 0x1800 ?u))"
    by (simp add: pages_for_def)
  moreover have "pool_ok 3 demo_paging"
    by (simp add: pool_ok_def demo_paging_def disjoint_regions_def next_frame_def freelist_slot_def)
  ultimately have "reads_as [(fst (kmalloc 0x1800 ?u), 2), (?p, 1)]
      (zero_pages (fst (kmalloc 0x1800 ?u)) 2 ((zero_pages ?p 1 (\<lambda>_. 0))(0xFFFFFFFF80300010 := 5))) (store (snd (kmalloc 0x1800 ?u)))"
    using kernel_heap_invariant [of demo_paging _ _ _ 3] by fastforce
  moreover have "fst (kmalloc 0x1800 ?u) = 0xFFFFFFFF80301000"
    using kmalloc_pages [of "0x1800" ?u]
    by (simp add: next_frame_def page_alloc_def demo_paging_def Let_def clear_freelist_slot_def pdesc_add_def)
  ultimately show ?thesis by (simp add: reads_as_def zero_pages_def)
qed

end
