(* ===== verification/Ready_Queue.thy ===== *)
theory Ready_Queue
  imports Processes
begin

text \<open>
  The ready queue of user processes as a list. \<open>sys/process.c\<close> and \<open>sys/process_helpers.c\<close> keep
  control blocks one behind the other in an array: a new process is copied behind the last one,
  and a process that exits is removed by moving those behind it one slot down.
\<close>

section \<open>Slots\<close>

definition slot_bytes :: "'a process_scheme \<Rightarrow> nat \<Rightarrow> u8 list" where
  "slot_bytes s j = get_bytes (store s) (ready_slot (of_nat j) s) 4400"

definition ready_tasks :: "'a process_scheme \<Rightarrow> u8 list list" where
  "ready_tasks s = map (slot_bytes s) [0..<unat (process_count s)]"

lemma slot_bytes_fields [simp]:
  "slot_bytes (s\<lparr>process_count := c\<rparr>) = slot_bytes s" "slot_bytes (s\<lparr>curr_upcb := p\<rparr>) = slot_bytes s"
  by (simp_all add: slot_bytes_def ready_slot_def fun_eq_iff)

lemma ready_slot_nat: "ready_slot (of_nat j) s = ready_queue s + of_nat (4400 * j)"
  by (simp add: ready_slot_def)

lemma slots_disjoint:
  assumes "i \<noteq> j" and "i < 2 ^ 17" and "j < 2 ^ 17"
  shows "disjoint_regions (ready_slot (of_nat i) s) 4400 (ready_slot (of_nat j) s) 4400"
proof (cases "i < j")
  case True
  then show ?thesis unfolding ready_slot_nat using assms by (intro disjoint_within) simp_all
next
  case False
  then show ?thesis
    unfolding ready_slot_nat using assms
    by (subst disjoint_regions_sym) (intro disjoint_within, simp_all)
qed

lemma process_count_small: "unat (process_count s) < 2 ^ 16"
  using unsigned_less [of "process_count s", where ?'a = nat] by simp

lemma copy_slot:
  assumes "i < 2 ^ 17" and "j < 2 ^ 17"
    and s': "s' = s\<lparr>store := copy_task (store s) (ready_slot (of_nat i) s) p\<rparr>"
  shows "slot_bytes s' j = (if j = i then get_bytes (store s) p 4400 else slot_bytes s j)"
proof -
  have slot: "ready_slot k s' = ready_slot k s" for k by (simp add: s' ready_slot_def)
  show ?thesis
  proof (cases "j = i")
    case True
    then show ?thesis
      unfolding slot_bytes_def slot
      using get_bytes_copied [of 0 4400 4400 "store s" "ready_slot (of_nat i) s" p] by (simp add: s' copy_task_def)
  next
    case False
    then have "disjoint_regions (ready_slot (of_nat i) s) 4400 (ready_slot (of_nat j) s) 4400"
      using slots_disjoint [of i j s] assms by simp
    then show ?thesis
      using False unfolding slot_bytes_def slot by (simp add: s' copy_task_def get_put_disjoint)
  qed
qed

lemma shift_ready_slots:
  assumes "i + n < 2 ^ 17" and "j < 2 ^ 17"
  shows "slot_bytes (shift_ready i n s) j =
    (if i \<le> j \<and> j < i + n then slot_bytes s (Suc j) else slot_bytes s j)"
  using assms(1)
proof (induction n arbitrary: i s)
  case (Suc n)
  let ?s = "s\<lparr>store := copy_task (store s) (ready_slot (of_nat i) s) (ready_slot (of_nat (i + 1)) s)\<rparr>"
  have step: "slot_bytes ?s k = (if k = i then slot_bytes s (Suc i) else slot_bytes s k)" if "k < 2 ^ 17" for k
    using copy_slot [of i k ?s s "ready_slot (of_nat (i + 1)) s"] Suc.prems that by (simp add: slot_bytes_def)
  have "slot_bytes (shift_ready (Suc i) n ?s) j =
      (if Suc i \<le> j \<and> j < Suc i + n then slot_bytes ?s (Suc j) else slot_bytes ?s j)"
    using Suc.prems by (intro Suc.IH) simp
  then show ?case using Suc.prems assms(2) step [of j] step [of "Suc j"] by auto
qed auto

lemma shift_ready_fields [simp]:
  "ready_queue (shift_ready i n s) = ready_queue s" "process_count (shift_ready i n s) = process_count s"
  "curr_upcb (shift_ready i n s) = curr_upcb s"
  by (induction n arbitrary: i s) simp_all

section \<open>Operations on the list\<close>

lemma add_to_ready_list_user_appends:
  assumes "0 < process_count s"
  shows "ready_tasks (add_to_ready_list_user pcb s) =
    ready_tasks (s\<lparr>process_count := process_count s - 1\<rparr>) @ [get_bytes (store s) pcb 4400]"
proof -
  let ?n = "unat (process_count s)"
  have n: "0 < ?n" "?n < 2 ^ 16" using assms process_count_small by (simp_all add: word_less_nat_alt)
  have "unat (process_count s - 1) = ?n - 1" using assms by (simp add: unat_minus_one)
  note pred = this
  have "(of_nat (?n - 1) :: u64) = of_nat ?n - 1" using n by (simp add: of_nat_diff)
  then have last: "ucast (process_count s) - 1 = (of_nat (?n - 1) :: u64)" by simp
  let ?s = "s\<lparr>store := copy_task (store s) (ready_slot (of_nat (?n - 1)) s) pcb\<rparr>"
  have add: "add_to_ready_list_user pcb s = ?s \<or> add_to_ready_list_user pcb s = ?s\<lparr>curr_upcb := ready_slot (of_nat (?n - 1)) s\<rparr>"
    unfolding add_to_ready_list_user_def Let_def last by simp
  then have same: "slot_bytes (add_to_ready_list_user pcb s) = slot_bytes ?s"
    "process_count (add_to_ready_list_user pcb s) = process_count s" by auto
  have "slot_bytes ?s j = (if j = ?n - 1 then get_bytes (store s) pcb 4400 else slot_bytes s j)" if "j < ?n" for j
    using copy_slot [of "?n - 1" j ?s s pcb] that n by simp
  then have "map (slot_bytes ?s) [0..<?n] = map (slot_bytes s) [0..<?n - 1] @ [get_bytes (store s) pcb 4400]"
    using n by (intro nth_equalityI) (auto simp add: nth_append)
  then show ?thesis by (simp add: ready_tasks_def same pred)
qed

lemma shift_deletes:
  assumes "i < unat (process_count s)"
  shows "ready_tasks ((shift_ready i (unat (process_count s) - i) s)\<lparr>process_count := process_count s - 1\<rparr>) =
    take i (ready_tasks s) @ drop (Suc i) (ready_tasks s)"
proof -
  let ?n = "unat (process_count s)" and ?s = "shift_ready i (unat (process_count s) - i) s"
  have n: "?n < 2 ^ 16" by (rule process_count_small)
  have "0 < process_count s" using assms by (simp add: word_less_nat_alt)
  then have pred: "unat (process_count s - 1) = ?n - 1" by (simp add: unat_minus_one)
  have "slot_bytes ?s j = (if i \<le> j \<and> j < ?n then slot_bytes s (Suc j) else slot_bytes s j)" if "j < ?n" for j
    using shift_ready_slots [of i "?n - i" j s] assms n that by simp
  then have "map (slot_bytes ?s) [0..<?n - 1] = take i (map (slot_bytes s) [0..<?n]) @ drop (Suc i) (map (slot_bytes s) [0..<?n])"
    using assms by (intro nth_equalityI) (auto simp add: nth_append min_def)
  then show ?thesis by (simp add: ready_tasks_def pred)
qed

section \<open>Exit\<close>

lemma bury_outside:
  assumes pid: "z = zombie_slot (load64 (store s) (curr_upcb s)) s"
    and zombie: "disjoint_regions z 4400 (curr_upcb s) 8"
    and "disjoint_regions (t_state (curr_upcb s)) 4 q k" and "disjoint_regions z 4400 q k"
    and "disjoint_regions (zombies s + 8 * ucast (zom_count (bury st s))) 8 q k" and "0 < k"
  shows "get_bytes (store (bury st s)) q k = get_bytes (store s) q k"
proof -
  let ?c = "curr_upcb s" and ?m0 = "store32 (store s) (t_state (curr_upcb s)) (state_code ZOMBIE)"
  let ?m1 = "store32 ?m0 (t_exit_status z) st"
  let ?n = "if st \<noteq> 0 then zom_count s else zom_count s + 1"
  have d: "disjoint_regions (t_state ?c) 4 ?c 8" by (simp add: disjoint_regions_def)
  have "disjoint_regions (t_exit_status z) 4 ?c 8" "disjoint_regions (t_exit_status z) 4 q k"
    using disjoint_subs [OF zombie, of 4368 4 0 8] disjoint_subs [OF assms(4), of 4368 4 0 k] assms(6) by simp_all
  note e = this
  have l: "load64 ?m0 ?c = load64 (store s) ?c" "load64 ?m1 ?c = load64 (store s) ?c"
    using d e(1) by (simp_all add: load64_store_disjoint)
  have zc: "zom_count (bury st s) = ?n" by (simp add: bury_def Let_def set_state_def)
  have slot: "zombie_slot (load64 (store s) ?c) (set_state ?c ZOMBIE s) = z"
    by (simp add: pid zombie_slot_def set_state_def)
  have "store (bury st s) = store64 (copy_task ?m1 z ?c) (zombies s + 8 * ucast ?n) (load64 (copy_task ?m1 z ?c) ?c)"
    using l slot by (simp add: bury_def Let_def set_state_def zombie_slot_def pid)
  then show ?thesis
    using assms(3-5) e(2) unfolding zc by (simp add: store64_def store32_def copy_task_def get_put_disjoint)
qed

lemma bury_fields [simp]:
  "ready_queue (bury st s) = ready_queue s" "process_count (bury st s) = process_count s"
  "curr_upcb (bury st s) = curr_upcb s"
  by (simp_all add: bury_def Let_def set_state_def)

lemma find_ready_first:
  assumes "i \<le> k" and "k < i + n" and "load64 (store s) (ready_slot (of_nat k) s) = pid"
    and "\<And>j. i \<le> j \<Longrightarrow> j < k \<Longrightarrow> load64 (store s) (ready_slot (of_nat j) s) \<noteq> pid"
  shows "find_ready s pid i n = k"
  using assms
proof (induction n arbitrary: i)
  case (Suc n)
  show ?case
  proof (cases "i = k")
    case False
    then have "i < k" using Suc.prems(1) by simp
    moreover from this have "find_ready s pid (Suc i) n = k" using Suc.prems by (intro Suc.IH) auto
    ultimately show ?thesis using Suc.prems(4) [of i] by simp
  qed (simp add: Suc.prems(3))
qed simp

text \<open>The current process is at index \<open>i\<close> of the queue, or a copy of it is.\<close>

definition current_at :: "nat \<Rightarrow> 'a process_scheme \<Rightarrow> bool" where
  "current_at i s \<longleftrightarrow> i < unat (process_count s) \<and>
     (curr_upcb s = ready_slot (of_nat i) s \<or> disjoint_regions (curr_upcb s) 4400 (ready_queue s) (4400 * unat (process_count s))) \<and>
     load64 (store s) (ready_slot (of_nat i) s) = load64 (store s) (curr_upcb s)"

text \<open>No process at the indices from \<open>a\<close> up to \<open>b\<close> has the number of the current one.\<close>

definition unlike_current :: "nat \<Rightarrow> nat \<Rightarrow> 'a process_scheme \<Rightarrow> bool" where
  "unlike_current a b s \<longleftrightarrow>
     (\<forall>j. a \<le> j \<and> j < b \<longrightarrow> load64 (store s) (ready_slot (of_nat j) s) \<noteq> load64 (store s) (curr_upcb s))"

text \<open>What \<open>bury\<close> writes lies outside of the queue.\<close>

definition zombie_apart :: "u32 \<Rightarrow> 'a process_scheme \<Rightarrow> bool" where
  "zombie_apart st s \<longleftrightarrow>
     (let z = zombie_slot (load64 (store s) (curr_upcb s)) s; c = zombies s + 8 * ucast (zom_count (bury st s));
          N = 4400 * unat (process_count s)
      in disjoint_regions z 4400 (curr_upcb s) 4400 \<and> disjoint_regions z 4400 (ready_queue s) N \<and>
         disjoint_regions c 8 (curr_upcb s) 4400 \<and> disjoint_regions c 8 (ready_queue s) N)"

lemma in_queue:
  assumes "disjoint_regions a n (ready_queue s) (4400 * N)" and "j < N" and "k + m \<le> 4400" and "0 < m"
  shows "disjoint_regions a n (ready_slot (of_nat j) s + of_nat k) m"
proof -
  have "4400 * j + k + m \<le> 4400 * N" using assms(2,3) mult_le_mono2 [of "Suc j" N 4400] by simp
  then have "disjoint_regions a n (ready_queue s + of_nat (4400 * j + k)) m"
    using assms(4) by (intro disjoint_sub [OF assms(1)]) simp_all
  then show ?thesis unfolding ready_slot_nat by (simp add: add.assoc)
qed

lemma bury_queue:
  assumes "current_at i s" and "zombie_apart st s" and "j < unat (process_count s)"
  shows "j \<noteq> i \<Longrightarrow> slot_bytes (bury st s) j = slot_bytes s j"
    and "load64 (store (bury st s)) (ready_slot (of_nat j) s) = load64 (store s) (ready_slot (of_nat j) s)"
    and "load64 (store (bury st s)) (curr_upcb s) = load64 (store s) (curr_upcb s)"
proof -
  let ?z = "zombie_slot (load64 (store s) (curr_upcb s)) s" and ?q = "ready_slot (of_nat j) s" and ?c = "curr_upcb s"
  let ?e = "zombies s + 8 * ucast (zom_count (bury st s))" and ?n = "unat (process_count s)"
  have n: "?n < 2 ^ 16" by (rule process_count_small)
  have z: "disjoint_regions ?z 4400 ?c 4400" "disjoint_regions ?z 4400 (ready_queue s) (4400 * ?n)"
    "disjoint_regions ?e 8 ?c 4400" "disjoint_regions ?e 8 (ready_queue s) (4400 * ?n)"
    using assms(2) by (simp_all add: zombie_apart_def Let_def)
  have zc: "disjoint_regions ?z 4400 ?c 8" "disjoint_regions ?e 8 ?c 8"
    using disjoint_sub [OF z(1), of 0 8] disjoint_sub [OF z(3), of 0 8] by simp_all
  note outside = bury_outside [OF refl zc(1)]
  have zq: "disjoint_regions ?z 4400 ?q m" "disjoint_regions ?e 8 ?q m" if "0 < m" "m \<le> 4400" for m
    using in_queue [OF z(2) assms(3), of 0 m] in_queue [OF z(4) assms(3), of 0 m] that by simp_all
  have far: "disjoint_regions ?c 4400 ?q 4400" if "j \<noteq> i"
  proof (cases "?c = ready_slot (of_nat i) s")
    case True
    then show ?thesis using slots_disjoint [of i j s] that assms(1,3) n by (simp add: current_at_def)
  next
    case False
    then have "disjoint_regions ?c 4400 (ready_queue s) (4400 * ?n)" using assms(1) by (simp add: current_at_def)
    from in_queue [OF this assms(3), of 0 4400] show ?thesis by simp
  qed
  show "slot_bytes (bury st s) j = slot_bytes s j" if "j \<noteq> i"
    using outside [of ?q 4400 st] disjoint_subs [OF far [OF that], of 4128 4 0 4400] zq [of 4400]
    by (simp add: slot_bytes_def ready_slot_def)
  have "disjoint_regions (t_state ?c) 4 ?q 8"
  proof (cases "?c = ?q")
    case False
    then have "j \<noteq> i \<or> disjoint_regions ?c 4400 (ready_queue s) (4400 * ?n)" using assms(1) by (auto simp add: current_at_def)
    then have "disjoint_regions ?c 4400 ?q 4400"
    proof
      assume "disjoint_regions ?c 4400 (ready_queue s) (4400 * ?n)"
      from in_queue [OF this assms(3), of 0 4400] show ?thesis by simp
    qed (rule far)
    from disjoint_subs [OF this, of 4128 4 0 8] show ?thesis by simp
  qed (simp add: disjoint_regions_def)
  then show "load64 (store (bury st s)) ?q = load64 (store s) ?q"
    using zq [of 8] by (intro load64_bytes outside) simp_all
  show "load64 (store (bury st s)) ?c = load64 (store s) ?c"
    using zc by (intro load64_bytes outside) (simp_all add: disjoint_regions_def)
qed

lemma ready_tasks_cong:
  assumes "store t = store s" and "ready_queue t = ready_queue s" and "process_count t = process_count s"
  shows "ready_tasks t = ready_tasks s"
  using assms by (simp add: ready_tasks_def slot_bytes_def ready_slot_def)

lemma shift_ready_kernel: "processes (shift_ready i n s) = processes s" "pml4_shared (shift_ready i n s) = pml4_shared s"
  by (induction n arbitrary: i s) simp_all

lemma remove_ready_fields:
  "process_count (remove_ready s) = process_count s" "ready_queue (remove_ready s) = ready_queue s"
  "processes (remove_ready s) = processes s" "pml4_shared (remove_ready s) = pml4_shared s"
  by (simp_all add: remove_ready_def Let_def shift_ready_kernel)

lemma bury_kernel: "processes (bury st s) = processes s" "pml4_shared (bury st s) = pml4_shared s"
  by (simp_all add: bury_def Let_def set_state_def)

text \<open>Execution goes on in the kernel thread: on its stack and its page tables, at the address in the second word of
  the stack.\<close>

definition in_kernel_thread :: "u64 \<Rightarrow> 'a process_scheme \<Rightarrow> 'b process_scheme \<Rightarrow> bool" where
  "in_kernel_thread c s s' \<longleftrightarrow>
     (let k = load64 (store s') (k_rsp (processes s))
      in c = load64 (store s') (k + 8) \<and> rsp s' = k + 16 \<and> cr3 s' = pml4_shared s - VIRT_BASE)"

lemma exit_process_leaves:
  assumes "st \<noteq> 1"
  shows "\<exists>c s'. exit_process st s = Some (Jumped (To_Code c), s') \<and> in_kernel_thread c s s' \<and>
    store s' = store (remove_ready (bury st s)) \<and> ready_queue s' = ready_queue s \<and> process_count s' = process_count s - 1"
  using assms
  by (simp add: exit_process_def in_kernel_thread_def Let_def pop_and_jump_def load_krsp_def pop_def remove_ready_fields bury_kernel
      split: option.split)

text \<open>C9. With a status other than 1, \<open>exit_process\<close> takes the current process, and no other, out of the ready queue, if it
  is not in the first slot: the queue becomes the list of the control blocks before and behind it, unchanged
  and in their order, and execution goes on in the kernel thread, on its stack, at the address that is
  saved there.\<close>

theorem exit_removes_process:
  assumes "current_at i s" and "1 \<le> i" and "unlike_current 1 i s" and "zombie_apart st s" and "st \<noteq> 1"
  shows "\<exists>c s'. exit_process st s = Some (Jumped (To_Code c), s') \<and> in_kernel_thread c s s' \<and>
    ready_tasks s' = take i (ready_tasks s) @ drop (Suc i) (ready_tasks s)"
proof -
  let ?b = "bury st s" and ?n = "unat (process_count s)"
  have i: "1 \<le> i" "i < ?n" using assms(1,2) by (simp_all add: current_at_def)
  note bury = bury_queue [OF assms(1,4)]
  have slot: "ready_slot k ?b = ready_slot k s" for k by (simp add: ready_slot_def)
  have "find_ready ?b (load64 (store ?b) (curr_upcb ?b)) 1 ?n = i"
  proof (rule find_ready_first)
    show "load64 (store ?b) (ready_slot (of_nat i) ?b) = load64 (store ?b) (curr_upcb ?b)"
      using bury(2,3) [OF i(2)] assms(1) by (simp add: slot current_at_def)
    show "load64 (store ?b) (ready_slot (of_nat j) ?b) \<noteq> load64 (store ?b) (curr_upcb ?b)" if "1 \<le> j" "j < i" for j
      using bury(2) [of j] bury(3) [OF i(2)] that i assms(3) by (simp add: slot unlike_current_def)
  qed (use i in simp_all)
  then have rem: "remove_ready ?b = shift_ready i (?n - i) ?b" using i by (simp add: remove_ready_def Let_def)
  have "ready_tasks ((remove_ready ?b)\<lparr>process_count := process_count s - 1\<rparr>) =
      take i (ready_tasks ?b) @ drop (Suc i) (ready_tasks ?b)"
    unfolding rem using shift_deletes [of i ?b] i(2) by simp
  also have "take i (ready_tasks ?b) = take i (ready_tasks s)"
    using bury(1) i by (intro nth_equalityI) (auto simp add: ready_tasks_def)
  also have "drop (Suc i) (ready_tasks ?b) = drop (Suc i) (ready_tasks s)"
    using bury(1) by (intro nth_equalityI) (auto simp add: ready_tasks_def)
  finally have tasks: "ready_tasks ((remove_ready ?b)\<lparr>process_count := process_count s - 1\<rparr>) =
      take i (ready_tasks s) @ drop (Suc i) (ready_tasks s)" .
  obtain c s' where s': "exit_process st s = Some (Jumped (To_Code c), s')" "in_kernel_thread c s s'"
    "store s' = store (remove_ready ?b)" "ready_queue s' = ready_queue s" "process_count s' = process_count s - 1"
    using exit_process_leaves [OF assms(5)] by blast
  then have "ready_tasks s' = ready_tasks ((remove_ready ?b)\<lparr>process_count := process_count s - 1\<rparr>)"
    by (intro ready_tasks_cong) (simp_all add: remove_ready_fields)
  then show ?thesis using s'(1,2) tasks by auto
qed

theorem exit_removes_process_witness:
  "\<exists>c s'. exit_process 0 (demo_process\<lparr>process_count := 3, curr_upcb := 0xFFFFFFFF80681130,
       store := store64 (store64 (\<lambda>_. 0) 0xFFFFFFFF80681130 5) 0xFFFFFFFF80682260 6\<rparr>) = Some (Jumped (To_Code c), s') \<and>
     map (\<lambda>t. t ! 0) (ready_tasks s') = [0, 6]"
proof -
  let ?s = "demo_process\<lparr>process_count := 3, curr_upcb := 0xFFFFFFFF80681130,
       store := store64 (store64 (\<lambda>_. 0) 0xFFFFFFFF80681130 5) 0xFFFFFFFF80682260 6\<rparr>"
  have cur: "load64 (store ?s) (curr_upcb ?s) = 5"
    by (simp add: load64_store_disjoint disjoint_regions_def)
  have "current_at 1 ?s" "unlike_current 1 1 ?s" using cur by (simp_all add: current_at_def unlike_current_def ready_slot_def)
  moreover have "zombie_apart 0 ?s"
    unfolding zombie_apart_def Let_def cur
    by (simp add: zombie_slot_def disjoint_regions_def bury_def Let_def set_state_def)
  ultimately obtain c s' where r: "exit_process 0 ?s = Some (Jumped (To_Code c), s')"
    "ready_tasks s' = take 1 (ready_tasks ?s) @ drop (Suc 1) (ready_tasks ?s)"
    using exit_removes_process [of 1 ?s 0] by auto
  have "ready_tasks s' = [slot_bytes ?s 0, slot_bytes ?s 2]"
  proof -
    have "[0..<unat (process_count ?s)] = [0, 1, 2]" by code_simp
    then have "ready_tasks ?s = [slot_bytes ?s 0, slot_bytes ?s 1, slot_bytes ?s 2]" by (simp add: ready_tasks_def)
    then show ?thesis using r(2) by simp
  qed
  moreover have "[0..<8] = [0, 1, 2, 3, 4, 5, 6, 7]" by code_simp
  then have "slot_bytes ?s 0 ! 0 = 0" "slot_bytes ?s 2 ! 0 = 6"
    by (simp_all add: slot_bytes_def ready_slot_def store64_def le_bytes_def)
  ultimately show ?thesis using r(1) by auto
qed

section \<open>Exit from the first slot\<close>

definition ready_pids :: "'a process_scheme \<Rightarrow> u64 list" where
  "ready_pids s = map (\<lambda>j. load64 (store s) (ready_slot (of_nat j) s)) [0..<unat (process_count s)]"

lemma find_ready_none:
  assumes "\<And>j. i \<le> j \<Longrightarrow> j < i + n \<Longrightarrow> load64 (store s) (ready_slot (of_nat j) s) \<noteq> pid"
  shows "i + n \<le> find_ready s pid i (n + k)"
  using assms
proof (induction n arbitrary: i)
  case 0
  show ?case by (induction k arbitrary: i) (auto intro: Suc_leD)
next
  case (Suc n)
  then have "Suc i + n \<le> find_ready s pid (Suc i) (n + k)" by (intro Suc.IH) auto
  then show ?case using Suc.prems [of i] by simp
qed



end
