(* ===== verification/Spec2Isabelle.thy ===== *)
theory Spec2Isabelle
  imports User_Programs Boot Pci Kernel_Heap Ready_Queue
begin

text \<open>
  A verification library for a small 64-bit kernel with its C library and user programs.

  \<^bold>\<open>The program.\<close> The boot loader enters \<open>boot\<close> (\<open>sys/main.c\<close>). It sets up the segments and the
  interrupt table, builds a list of free pages and the kernel's page tables, starts the timer, the
  keyboard and the file system on the tar archive that is linked into the kernel, creates two kernel
  threads, and runs the idle loop, which switches to \<open>init_entry\<close>; this loads the shell \<open>sbush\<close>
  and enters user mode. User code comes back to the kernel by page faults, device interrupts and
  interrupt \<open>0x80\<close>, the system calls, from which processes are created, replaced, waited for and ended,
  files are read and text is printed.

  \<^bold>\<open>The state.\<close> Memory is one function from addresses to bytes, and a C object is read and written at the
  offsets that the compiler gives its fields. Global variables and registers are fields of records
  that extend one another in the order in which the components build on each other: \<open>kmem\<close>,
  \<open>console\<close>, \<open>paging\<close>, \<open>user_paging\<close>, \<open>devices\<close>, \<open>keyboard\<close>, \<open>tarfs\<close>, \<open>cpu\<close>, \<open>process\<close>
  and \<open>pci\<close>. Addresses of global arrays, of literals and of local arrays are fields or arguments, since
  the linker and the compiler choose them. Integers have the width of the source and wrap;
  only a counter of a loop that a bound in the code or the size of an object keeps far below the limit of its type
  is a natural number.
  An operation that may not return has an option as its result; one that may leave by a jump to another
  thread, to user mode or by raising an interrupt has an \<open>outcome\<close>.

  \<^bold>\<open>Theories and sources.\<close>
  \<^item> \<open>Kernel_Prelude\<close>, \<open>Byte_Store\<close>: machine integers, regions of memory that do not overlap, typed access to
    bytes. The locale \<open>word_store\<close> is the interface of aligned cells.
  \<^item> \<open>Kern_Ops\<close> (\<open>sys/memory.c\<close>, \<open>sys/lib_ops_for_kern.c\<close>) and \<open>Kern_Utils\<close> (\<open>sys/k_utils.c\<close>): memory
    and string routines and conversions of numbers, each related to lists of bytes.
  \<^item> \<open>Console\<close> (\<open>sys/kprintf.c\<close>, \<open>sys/putch.c\<close>): formatted output. \<open>kprintf\<close> refines the writing of the
    text that a format denotes, up to the digits of \<open>%d\<close>, which it shows in reverse order; the locale \<open>char_device\<close> is the interface of the three output routines.
  \<^item> \<open>Paging\<close> (\<open>sys/paging.c\<close>), \<open>Page_Walk\<close>, \<open>Boot_Paging\<close>: the page allocator behind the locale
    \<open>page_provider\<close>, the meaning of page tables as the processor's walk, and the mapping that booting loads.
  \<^item> \<open>Kernel_Heap\<close>: runs of the allocator as a step relation, with the invariant that blocks never
    overlap and keep what their owners wrote.
  \<^item> \<open>User_Paging\<close> (\<open>sys/user_paging.c\<close>): mapping of user pages; the locale \<open>page_level\<close> covers the
    lookup of the three lower levels, \<open>window_cursor\<close> the reuse of frames and addresses.
  \<^item> \<open>Devices\<close> (\<open>sys/io_ports.c\<close>, \<open>sys/pic.c\<close>, \<open>sys/gdt.c\<close>, \<open>sys/gdt.s\<close>, \<open>sys/idt.c\<close>, \<open>sys/timer.c\<close>): ports as a
    log of writes, the interrupt and descriptor tables and the registers of the processor that name them.
  \<^item> \<open>Keyboard\<close> (\<open>sys/keyboard.c\<close>): scan codes, the line editor and \<open>gets\<close>, which refines the editing of a line.
  \<^item> \<open>Tarfs\<close> (\<open>sys/walk_tarfs.c\<close>, \<open>sys/tarfs_ops.c\<close>): the archive, directories and files, and the loading
    of programs.
  \<^item> \<open>Cpu_Entry\<close> (\<open>sys/idt.s\<close>, \<open>include/sys/isr.h\<close>): the interrupt stubs, with the frame that the processor pushes when
    it takes an interrupt, as its manual describes it, and \<open>iretq\<close>, which takes it off; the locale \<open>frame_keeping\<close> says what a handler must keep
    so that the interrupted code goes on unchanged, and \<open>Interrupts\<close> interprets it for device interrupts.
  \<^item> \<open>Processes\<close> (\<open>sys/process.c\<close>, \<open>sys/pcb_init.c\<close>, \<open>sys/process_helpers.c\<close>, \<open>sys/kernel_switch_ops.c\<close>):
    control blocks, memory areas, fork, exec, exit, wait, kill and the user heap, which refines a bump allocator.
  \<^item> \<open>Ready_Queue\<close>: the ready queue read as the list of its control blocks, to which the operations append and from which
    they delete.
  \<^item> \<open>Scheduler\<close> (\<open>sys/scheduler.c\<close>, \<open>sys/dispatch.s\<close>, \<open>sys/sysinit.c\<close>, \<open>sys/swtch_to_ring3.c\<close>, \<open>sys/timer.c\<close>):
    switching of threads and processes.
  \<^item> \<open>Interrupts\<close> (\<open>sys/idt.c\<close>, \<open>include/sys/fault.h\<close>, \<open>sys/syscall.c\<close>): the handlers, with page faults
    down to the tables that the processor reads.
  \<^item> \<open>Boot\<close> (\<open>sys/main.c\<close>): the boot sequence as the composition of the operations above, and the report of the
    memory map.
  \<^item> \<open>Ahci\<close> (\<open>include/sys/ahci.h\<close>) and \<open>Pci\<close> (\<open>sys/pci.c\<close>): the structures of the disk controller as lists of fields,
    configuration space, the scan of the buses and the ports of the controller.
  \<^item> \<open>Libc\<close> (\<open>libc\<close>, \<open>crt/crt1.c\<close>, \<open>include/sys/syscall.h\<close>) and \<open>User_Programs\<close> (\<open>bin\<close>): user code on top of the
    system calls, and the shell with its commands.

  This theory adds a property that crosses all layers: a call of \<open>malloc\<close> in user code.

  \<^bold>\<open>What is shown.\<close> Functional behaviour with a frame condition for the string routines, the allocators, the file
  system, the mapping of pages and the tables of the processor; refinements of \<open>kprintf\<close>, \<open>gets\<close>, the user
  heap and the exit of a process to what they promise; invariants of the kernel's memory over all runs and of the
  screen over all output; that booting maps the kernel and reports the memory it finds, that the idle loop
  reaches the second thread, that user mode is entered and left as the processor's frames say, that a user fault
  is repaired, that a keyboard interrupt is invisible, and that the ports of the disk controller do not share
  memory. Several properties state what the code does where it does not do what it should: a search path
  without the command, a process that stays in the ready queue after its exit and one that is lost instead, a system call that returns with shifted registers, an exit status that is lost, a thread
  switch that forgets the stack, a bus scan without end. The boot sequence as a whole, fork, exec, the timer and most user
  programs are definitions that no property follows through to the end.

  \<^bold>\<open>Loops.\<close> Loops over counters and lists are recursive functions on natural numbers or lists. Loops that may run forever are
  partial functions with values in option, and the properties about them state that they return. There is no
  fuel. The waiting of \<open>gets\<close> and of the disk controller's commands takes the events that arrive as
  a list, and an empty list is a wait without end.

  \<^bold>\<open>Not modelled.\<close> The frames of C functions, with the return addresses of the calls in the stubs, are not part of
  the store; assembly statements take effect where they stand, and the word
  that \<open>tlb_flush\<close> writes into its caller's frame is left out. The processor's checks of privilege and its
  caches are left out: a loaded selector or table takes effect as it is. \<open>sys/page_alloc.c\<close>, \<open>sys/fs.c\<close>,
  \<open>sys/pit.c\<close> and \<open>include/sys/file.h\<close> contain no compiled code, nor does the second half of \<open>sys/user_paging.c\<close>.
  The boot loader under \<open>rootfs\<close> is third-party code: what it leaves in memory is an assumption of the properties
  about booting.
\<close>

section \<open>A system call from end to end\<close>

text \<open>C12. A user program that calls \<open>malloc\<close> is served by the heap of its process: through the interrupt,
  the saving of the registers, the dispatch of the system call, the return path and \<open>iretq\<close>, the answer of
  the heap arrives, the heap has grown by the request, and the program goes on at its return address, in
  its mode, on its stack and with its flags, as long as the kernel's stack does not overlap with the heap
  and its structures.\<close>

theorem user_malloc_served:
  assumes "heap_at hv base used s" and "heap_apart hv base room s" and "used + 8 \<le> room" and "used + n < 2 ^ 63"
    and "disjoint_regions (interrupt_stack s - 160) 160 (t_heap_vma (curr_upcb s)) 8"
    and "disjoint_regions (interrupt_stack s - 160) 160 hv 72"
    and "disjoint_regions (interrupt_stack s - 160) 160 (base + of_nat used) 8"
  shows "\<exists>s'. user_malloc (of_nat n) s = Some (Returned (if used + n \<le> 4096 then base + of_nat used else 0), s') \<and>
    heap_at hv base (used + n) s' \<and> resumes s s'"
proof -
  let ?u = "mov RBX (of_nat n) (mov RAX 7 s)" and ?K = "interrupt_stack s"
  have K: "interrupt_stack ?u = ?K" by (simp add: interrupt_stack_def user_mode_def mov_def)
  define k where "k = PUSHA (take_interrupt (isr128 (isrs ?u)) ?u)"
  note entry = kernel_entry [where h = "isr128 (isrs ?u)" and s = ?u, folded k_def, unfolded K]
  have kept: "load64 (store k) q = load64 (store s) q" if "disjoint_regions (?K - 160) 160 q 8" for q
    using entry(3) [OF that] by (intro load64_bytes) (simp add: mov_def)
  have "disjoint_regions (?K - 160) 160 (vm_start hv) 8" "disjoint_regions (?K - 160) 160 (vm_end hv) 8"
    using disjoint_sub [OF assms(6), of 8 8] disjoint_sub [OF assms(6), of 16 8] by simp_all
  note cells = this
  have k: "rsp k = ?K - 160" "curr_upcb k = curr_upcb s" "gpr k = gpr ?u" using entry(1) by (auto simp add: mov_def)
  have "heap_at hv base used k" "heap_apart hv base room k"
    using assms(1,2) kept [OF assms(5)] kept [OF cells(1)] kept [OF cells(2)] k(2)
    by (simp_all add: heap_at_def heap_apart_def)
  note at = this(1) and served = malloc_serves [OF this assms(3,4)]
  obtain v t where mal: "malloc (of_nat n) k = (v, t)" by (cases "malloc (of_nat n) k")
  have run: "isr_handler128 [] k = Some (Returned (), mov RAX v t)"
    using k(3) by (simp add: isr_handler128_def mal ret_rax_def mov_def)
  have "get_bytes (store t) (?K - 40) 40 = get_bytes (store k) (?K - 40) 40"
  proof -
    have "disjoint_regions (vm_end hv) 8 (?K - 40) 40" "disjoint_regions (base + of_nat used) 8 (?K - 40) 40"
      using disjoint_subs [OF cells(2), of 120 40 0 8] disjoint_subs [OF assms(7), of 120 40 0 8]
      by (simp_all add: disjoint_regions_sym)
    from malloc_frame(2) [OF at this, of "of_nat n"] show ?thesis by (simp add: mal)
  qed
  then have "hw_frame ?u (store (mov RAX v t)) (?K - 40)"
    using hw_frame_bytes [OF entry(2)] by (simp add: mov_def)
  moreover have "rsp (mov RAX v t) = ?K - 160" using malloc_frame(1) [OF at, of "of_nat n"] k(1) by (auto simp add: mal mov_def)
  ultimately obtain s' where s': "int80 [] ?u = Some (Returned v, s')" "resumes ?u s'" "store s' = store t"
    "curr_upcb s' = curr_upcb t"
    using int80_returns [of "[]" ?u "mov RAX v t"] run unfolding k_def K by (auto simp add: mov_def)
  have "resumes s s'" using s'(2) by (simp add: resumes_def mov_def rflags_def)
  moreover have "heap_at hv base (used + n) s'" using served(2) s'(3,4) by (simp add: heap_at_def mal)
  ultimately show ?thesis using s'(1) served(1) by (simp add: user_malloc_def syscall1_def mal)
qed

theorem user_malloc_served_witness:
  "\<exists>s'. user_malloc (of_nat 100) (demo_process\<lparr>tss_rsp0 := 0xFFFFFFFF80250000, seg_cs := 0x2B, rsp := 0x7FFFF000, store :=
       fold (\<lambda>(a, v) m. store64 m a v)
         [(0xFFFFFFFF80681128, 0x8eee70000), (0x8eee70008, 0x600000), (0x8eee70010, 0x600000)] (\<lambda>_. 0)\<rparr>) =
     Some (Returned (0x600000 + of_nat 0), s') \<and> heap_at 0x8eee70000 0x600000 (0 + 100) s' \<and>
     seg_cs s' = 0x2B \<and> rsp s' = 0x7FFFF000"
  (is "\<exists>s'. user_malloc _ ?s = _ \<and> _")
proof -
  have "heap_at 0x8eee70000 0x600000 0 ?s"
    by (simp add: heap_at_def load64_store_disjoint disjoint_regions_def)
  moreover have "heap_apart 0x8eee70000 0x600000 4096 ?s" by (simp add: heap_apart_def disjoint_regions_def)
  moreover have "interrupt_stack ?s = 0xFFFFFFFF80250000" by (simp add: interrupt_stack_def user_mode_def)
  ultimately show ?thesis
    using user_malloc_served [of "0x8eee70000" "0x600000" 0 ?s 4096 100] by (auto simp add: disjoint_regions_def resumes_def)
qed

end
